(* ===== verification/Prelude.thy ===== *)
theory Prelude
  imports Main "HOL-Library.Word"
begin

text \<open>
  What every component of the development shares: the model of Go's error values
  (\<^verbatim>\<open>errors.New\<close>, \<^verbatim>\<open>fmt.Errorf\<close> with \<^verbatim>\<open>%w\<close>, \<^verbatim>\<open>errors.Is\<close>), of a call that may
  panic, of the fixed-width integer conversions \<^verbatim>\<open>int32(x)\<close> and \<^verbatim>\<open>int64(x)\<close>, the
  per-tenant queue names, and the locales of labelled transition systems from which every
  state machine of the development takes its invariant, trace and simulation rules.
\<close>

named_theorems go_defs \<open>definitions of the Go operations, unfolded by the component proofs\<close>
named_theorems frame_simps \<open>what an operation leaves unchanged\<close>

section \<open>Go values\<close>

type_synonym time = int \<comment> \<open>nanoseconds since the Unix epoch\<close>

text \<open>
  An error value. A package-level variable made by \<^verbatim>\<open>errors.New\<close> is a
  \<open>Sentinel\<close>, identified by its package and its text (two packages declare a variable of
  the same text, and they are different errors). \<open>PgError\<close> is an error reported by the
  database server: its SQLSTATE and the text the driver gives it.
\<close>

datatype go_error =
    Sentinel string string
  | ErrorNew string
  | PgError string string
  | Wrapf string go_error

type_synonym 'a res = "go_error + 'a"

fun Error :: "go_error \<Rightarrow> string" where
  "Error (Sentinel pkg msg) = msg"
| "Error (ErrorNew msg) = msg"
| "Error (PgError code msg) = msg"
| "Error (Wrapf p e) = p @ Error e"

text \<open>\<^verbatim>\<open>errors.Is\<close>: the target anywhere along the chain of wrapped errors.\<close>

fun errors_Is :: "go_error \<Rightarrow> go_error \<Rightarrow> bool" where
  "errors_Is (Wrapf p e) target = (Wrapf p e = target \<or> errors_Is e target)"
| "errors_Is e target = (e = target)"

definition ErrNoRows :: go_error where
  "ErrNoRows = Sentinel ''database/sql'' ''sql: no rows in result set''"

text \<open>The outcome of a call that may panic.\<close>

datatype 'a outcome = Returns 'a | Panics string

fun bind_outcome :: "'a outcome \<Rightarrow> ('a \<Rightarrow> 'b outcome) \<Rightarrow> 'b outcome" where
  "bind_outcome (Returns x) f = f x"
| "bind_outcome (Panics m) f = Panics m"

lemma bind_outcome_Returns_iff [simp]:
  "bind_outcome m f = Returns y \<longleftrightarrow> (\<exists>x. m = Returns x \<and> f x = Returns y)"
  by (cases m) auto

lemma errors_Is_refl [simp]: "errors_Is e e"
  by (cases e) auto

section \<open>Fixed-width integers\<close>

text \<open>
  \<^verbatim>\<open>int\<close> is 64 bits wide and modelled as \<^typ>\<open>int\<close>; where the code narrows a value
  (\<^verbatim>\<open>int32(workers)\<close>) or multiplies durations, the two's complement wrap-around is the
  one of the word type.
\<close>

definition int32 :: "int \<Rightarrow> int" where
  "int32 x = sint (word_of_int x :: 32 word)"

definition int64 :: "int \<Rightarrow> int" where
  "int64 x = sint (word_of_int x :: 64 word)"

lemma int32_id: "- (2 ^ 31) \<le> x \<Longrightarrow> x < 2 ^ 31 \<Longrightarrow> int32 x = x"
  by (simp add: int32_def signed_of_int signed_take_bit_int_eq_self)

lemma int64_id: "- (2 ^ 63) \<le> x \<Longrightarrow> x < 2 ^ 63 \<Longrightarrow> int64 x = x"
  by (simp add: int64_def signed_of_int signed_take_bit_int_eq_self)

lemma int32_range: "- (2 ^ 31) \<le> int32 x \<and> int32 x < 2 ^ 31"
  using sint_range_size [of "word_of_int x :: 32 word"] by (simp add: int32_def word_size)

lemma int64_range: "- (2 ^ 63) \<le> int64 x \<and> int64 x < 2 ^ 63"
  using sint_range_size [of "word_of_int x :: 64 word"] by (simp add: int64_def word_size)

section \<open>Labelled transition systems\<close>

text \<open>A run of a step relation under a list of labels.\<close>

fun run :: "('s \<Rightarrow> 'l \<Rightarrow> 's \<Rightarrow> bool) \<Rightarrow> 's \<Rightarrow> 'l list \<Rightarrow> 's \<Rightarrow> bool" where
  "run step s [] t \<longleftrightarrow> s = t"
| "run step s (l # ls) t \<longleftrightarrow> (\<exists>u. step s l u \<and> run step u ls t)"

lemma run_NilI: "run step s [] s"
  by simp

lemma run_ConsI: "step s l u \<Longrightarrow> run step u ls t \<Longrightarrow> run step s (l # ls) t"
  by auto

lemma run_append: "run step s (xs @ ys) t \<longleftrightarrow> (\<exists>u. run step s xs u \<and> run step u ys t)"
  by (induction xs arbitrary: s) auto

lemma run_snoc: "run step s (xs @ [l]) t \<longleftrightarrow> (\<exists>u. run step s xs u \<and> step u l t)"
  by (simp add: run_append)

text \<open>
  A machine with an inductive invariant: what a component proves of one step holds at the
  end of every run.
\<close>

locale machine =
  fixes step :: "'s \<Rightarrow> 'l \<Rightarrow> 's \<Rightarrow> bool"
    and inv :: "'s \<Rightarrow> bool"
  assumes step_inv: "inv s \<Longrightarrow> step s l t \<Longrightarrow> inv t"
begin

lemma run_inv: "run step s ls t \<Longrightarrow> inv s \<Longrightarrow> inv t"
  by (induction ls arbitrary: s) (auto intro: step_inv)

end

text \<open>
  A quantity that every step changes by what its label says: after a run it has changed by
  the sum of the labels.
\<close>

locale accounted_machine = machine +
  fixes bal :: "'s \<Rightarrow> 'm::comm_monoid_add"
    and credit :: "'l \<Rightarrow> 'm"
    and debit :: "'l \<Rightarrow> 'm"
  assumes step_balance: "inv s \<Longrightarrow> step s l t \<Longrightarrow> bal t + debit l = bal s + credit l"
begin

lemma run_balance:
  "run step s ls t \<Longrightarrow> inv s \<Longrightarrow>
     bal t + sum_list (map debit ls) = bal s + sum_list (map credit ls)"
proof (induction ls arbitrary: s)
  case Nil
  then show ?case by simp
next
  case (Cons l ls)
  then obtain u where u: "step s l u" "run step u ls t" by auto
  with Cons.prems have "inv u" by (blast intro: step_inv)
  with u Cons.IH have IH: "bal t + sum_list (map debit ls) = bal u + sum_list (map credit ls)"
    by blast
  from u Cons.prems have st: "bal u + debit l = bal s + credit l" by (blast intro: step_balance)
  have "bal t + sum_list (map debit (l # ls)) = (bal t + sum_list (map debit ls)) + debit l"
    by (simp add: ac_simps)
  also have "\<dots> = (bal u + debit l) + sum_list (map credit ls)"
    by (simp add: IH ac_simps)
  also have "\<dots> = bal s + sum_list (map credit (l # ls))"
    by (simp add: st ac_simps)
  finally show ?case .
qed

end

text \<open>Every step of a machine is a step of its specification between the abstractions of its states.\<close>

locale simulation = machine +
  fixes spec :: "'a \<Rightarrow> 'm \<Rightarrow> 'a \<Rightarrow> bool"
    and abst :: "'s \<Rightarrow> 'a"
    and lab :: "'l \<Rightarrow> 'm"
  assumes step_sim: "inv s \<Longrightarrow> step s l t \<Longrightarrow> spec (abst s) (lab l) (abst t)"
begin

lemma run_sim: "run step s ls t \<Longrightarrow> inv s \<Longrightarrow> run spec (abst s) (map lab ls) (abst t)"
proof (induction ls arbitrary: s)
  case (Cons l ls)
  then obtain u where "step s l u" "run step u ls t" by auto
  with Cons step_inv step_sim show ?case by (auto intro!: exI [of _ "abst u"])
qed simp

end

section \<open>Per-tenant names\<close>

text \<open>
  The names every component derives from a tenant identifier with
  \<^verbatim>\<open>fmt.Sprintf("tenant_%s_...", tenantID)\<close>.
\<close>

definition main_queue_name :: "string \<Rightarrow> string" where
  "main_queue_name tid = ''tenant_'' @ tid @ ''_queue''"

definition dlx_name :: "string \<Rightarrow> string" where
  "dlx_name tid = ''tenant_'' @ tid @ ''_dlx''"

definition dlq_name :: "string \<Rightarrow> string" where
  "dlq_name tid = ''tenant_'' @ tid @ ''_dlq''"

lemma queue_names_inject [simp]:
  "main_queue_name a = main_queue_name b \<longleftrightarrow> a = b"
  "dlx_name a = dlx_name b \<longleftrightarrow> a = b"
  "dlq_name a = dlq_name b \<longleftrightarrow> a = b"
  by (simp_all add: main_queue_name_def dlx_name_def dlq_name_def)

lemma last_queue_name:
  "last (main_queue_name a) = CHR ''e''" "last (dlq_name a) = CHR ''q''"
  by (simp_all add: main_queue_name_def dlq_name_def)

lemma main_queue_name_neq_dlq_name [simp]:
  "main_queue_name a \<noteq> dlq_name b" "dlq_name b \<noteq> main_queue_name a"
  using last_queue_name [of a] last_queue_name [of b] by auto

section \<open>Text\<close>

text \<open>
  \<^verbatim>\<open>strings.ToLower\<close> on the bytes of a string: the ASCII letters. Other bytes are kept, which
  is exact for comparing with an ASCII word none of whose letters is the lower case of a
  character beyond ASCII.
\<close>

definition to_lower :: "char \<Rightarrow> char" where
  "to_lower c =
     (let n = of_char c :: nat in if 65 \<le> n \<and> n \<le> 90 then char_of (n + 32) else c)"

definition ToLower :: "string \<Rightarrow> string" where
  "ToLower s = map to_lower s"

lemma of_char_to_lower:
  "(of_char (to_lower c) :: nat) =
     (let n = of_char c in if 65 \<le> n \<and> n \<le> 90 then n + 32 else n)"
  by (simp add: to_lower_def Let_def)

lemma to_lower_idem [simp]: "to_lower (to_lower c) = to_lower c"
  using of_char_to_lower [of c] by (auto simp: to_lower_def [of "to_lower c"] Let_def split: if_splits)

lemma ToLower_idem [simp]: "ToLower (ToLower s) = ToLower s"
  by (simp add: ToLower_def)

lemma length_ToLower [simp]: "length (ToLower s) = length s"
  by (simp add: ToLower_def)

text \<open>The decimal numeral of an integer, as \<^verbatim>\<open>encoding/json\<close> and \<^verbatim>\<open>strconv.Itoa\<close> write it.\<close>

fun show_nat :: "nat \<Rightarrow> string" where
  "show_nat n = (if n < 10 then [char_of (48 + n)] else show_nat (n div 10) @ [char_of (48 + n mod 10)])"

declare show_nat.simps [simp del]

definition show_int :: "int \<Rightarrow> string" where
  "show_int n = (if n < 0 then CHR ''-'' # show_nat (nat (- n)) else show_nat (nat n))"

text \<open>Reading decimal digits.\<close>

definition digit :: "char \<Rightarrow> int option" where
  "digit c = (let n = of_char c :: nat in if 48 \<le> n \<and> n \<le> 57 then Some (int n - 48) else None)"

fun digits :: "int \<Rightarrow> string \<Rightarrow> int option" where
  "digits acc [] = Some acc"
| "digits acc (c # cs) = (case digit c of None \<Rightarrow> None | Some n \<Rightarrow> digits (10 * acc + n) cs)"

lemma digit_char: "k < 10 \<Longrightarrow> digit (char_of (48 + k)) = Some (int k)"
  by (simp add: digit_def Let_def)

lemma digits_append: "digits acc (xs @ ys) = (case digits acc xs of None \<Rightarrow> None | Some v \<Rightarrow> digits v ys)"
  by (induction acc xs rule: digits.induct) (auto split: option.splits)

lemma digits_show_nat: "digits 0 (show_nat n) = Some (int n)"
proof (induction n rule: less_induct)
  case (less n)
  show ?case
  proof (cases "n < 10")
    case True
    then show ?thesis by (subst show_nat.simps) (simp add: digit_char)
  next
    case False
    then have "digits 0 (show_nat (n div 10)) = Some (int (n div 10))" by (intro less) simp
    moreover have "10 * int (n div 10) + int (n mod 10) = int n" by (simp add: zdiv_int zmod_int)
    ultimately show ?thesis using False
      by (subst show_nat.simps) (simp add: digits_append digit_char)
  qed
qed

end
