(* ===== verification/Go_Chan.thy ===== *)
theory Go_Chan
  imports Prelude
begin

text \<open>
  Go channels as the worker pool and the consumers use them: a bounded FIFO buffer with a
  closed flag. Sending is only modelled where the code sends, inside a \<^verbatim>\<open>select\<close> with
  alternatives, so the question is whether the send case is ready. The contract of a bounded
  queue is the locale \<open>bounded_fifo\<close>; channels are its interpretation \<open>go_chan\<close>, and
  the pool's proofs use the interpretation's facts.
\<close>

record 'a chan =
  ch_buf :: "'a list"
  ch_cap :: nat
  ch_closed :: bool

text \<open>\<^verbatim>\<open>make(chan T, n)\<close> panics on a negative size.\<close>

definition make_chan :: "int \<Rightarrow> 'a chan outcome" where
  "make_chan n =
     (if n < 0 then Panics ''makechan: size out of range''
      else Returns \<lparr>ch_buf = [], ch_cap = nat n, ch_closed = False\<rparr>)"

text \<open>\<^verbatim>\<open>close(c)\<close> panics on a channel that is closed already.\<close>

definition chan_close :: "'a chan \<Rightarrow> 'a chan outcome" where
  "chan_close c =
     (if ch_closed c then Panics ''close of closed channel''
      else Returns (c\<lparr>ch_closed := True\<rparr>))"

definition chan_send_ready :: "'a chan \<Rightarrow> bool" where
  "chan_send_ready c \<longleftrightarrow> \<not> ch_closed c \<and> length (ch_buf c) < ch_cap c"

definition chan_send :: "'a \<Rightarrow> 'a chan \<Rightarrow> 'a chan" where
  "chan_send x c = c\<lparr>ch_buf := ch_buf c @ [x]\<rparr>"

definition chan_recv :: "'a chan \<Rightarrow> ('a \<times> 'a chan) option" where
  "chan_recv c = (case ch_buf c of [] \<Rightarrow> None | x # xs \<Rightarrow> Some (x, c\<lparr>ch_buf := xs\<rparr>))"

definition chan_wf :: "'a chan \<Rightarrow> bool" where
  "chan_wf c \<longleftrightarrow> length (ch_buf c) \<le> ch_cap c"

text \<open>The contract of a bounded queue.\<close>

locale bounded_fifo =
  fixes elems :: "'q \<Rightarrow> 'a list"
    and capacity :: "'q \<Rightarrow> nat"
    and ready :: "'q \<Rightarrow> bool"
    and put :: "'a \<Rightarrow> 'q \<Rightarrow> 'q"
    and get :: "'q \<Rightarrow> ('a \<times> 'q) option"
    and wf :: "'q \<Rightarrow> bool"
  assumes elems_put: "elems (put x q) = elems q @ [x]"
    and capacity_put: "capacity (put x q) = capacity q"
    and wf_put: "wf q \<Longrightarrow> ready q \<Longrightarrow> wf (put x q)"
    and get_None: "get q = None \<longleftrightarrow> elems q = []"
    and get_Some: "get q = Some (x, q') \<Longrightarrow> elems q = x # elems q'"
    and capacity_get: "get q = Some (x, q') \<Longrightarrow> capacity q' = capacity q"
    and wf_get: "wf q \<Longrightarrow> get q = Some (x, q') \<Longrightarrow> wf q'"
    and wf_bound: "wf q \<Longrightarrow> length (elems q) \<le> capacity q"
    and ready_bound: "ready q \<Longrightarrow> length (elems q) < capacity q"
begin

lemma put_get_empty: "elems q = [] \<Longrightarrow> \<exists>q'. get (put x q) = Some (x, q') \<and> elems q' = []"
proof -
  assume e: "elems q = []"
  then have "get (put x q) \<noteq> None" by (simp add: get_None elems_put)
  then obtain y q' where g: "get (put x q) = Some (y, q')" by auto
  from get_Some [OF g] e show ?thesis using g by (simp add: elems_put)
qed

lemma put_keeps_head: "get q = Some (x, q') \<Longrightarrow> \<exists>q''. get (put y q) = Some (x, q'')"
proof -
  assume g: "get q = Some (x, q')"
  then have "get (put y q) \<noteq> None" by (simp add: get_None elems_put get_Some)
  then obtain z r where r: "get (put y q) = Some (z, r)" by auto
  with get_Some [OF g] get_Some [OF r] show ?thesis by (simp add: elems_put)
qed

lemma ready_has_room: "wf q \<Longrightarrow> ready q \<Longrightarrow> length (elems (put x q)) \<le> capacity q"
  using wf_bound [OF wf_put, of q x] by (simp add: capacity_put)

end

interpretation go_chan: bounded_fifo ch_buf ch_cap chan_send_ready chan_send chan_recv chan_wf
  by unfold_locales
    (auto simp: chan_send_def chan_send_ready_def chan_recv_def chan_wf_def split: list.splits)

text \<open>
  A machine that owns a queue: over a run, what was taken out, followed by what is still
  queued, is what was queued at the start, followed by what was put in, in the same order.
\<close>

locale fifo_machine = machine +
  fixes queue :: "'s \<Rightarrow> 'a list"
    and puts :: "'l \<Rightarrow> 'a list"
    and gets :: "'l \<Rightarrow> 'a list"
  assumes step_fifo: "inv s \<Longrightarrow> step s l t \<Longrightarrow> gets l @ queue t = queue s @ puts l"
begin

lemma run_fifo:
  "run step s ls t \<Longrightarrow> inv s \<Longrightarrow>
     concat (map gets ls) @ queue t = queue s @ concat (map puts ls)"
proof (induction ls arbitrary: s)
  case Nil
  then show ?case by simp
next
  case (Cons l ls)
  then obtain u where u: "step s l u" "run step u ls t" by auto
  with Cons.prems have "inv u" by (blast intro: step_inv)
  with u Cons.IH have IH: "concat (map gets ls) @ queue t = queue u @ concat (map puts ls)"
    by blast
  from u Cons.prems have st: "gets l @ queue u = queue s @ puts l" by (blast intro: step_fifo)
  have "concat (map gets (l # ls)) @ queue t = (gets l @ queue u) @ concat (map puts ls)"
    by (simp add: IH)
  also have "\<dots> = queue s @ concat (map puts (l # ls))"
    by (simp only: st) simp
  finally show ?case .
qed

end

end
