(* ===== verification/Backoff.thy ===== *)
theory Backoff
  imports Complex_Main "HOL-Library.Log_Nat" Prelude
begin

text \<open>
  The delay between two attempts of \<^verbatim>\<open>processWithRetry\<close>
  (\<^verbatim>\<open>internal/tenant/worker_pool.go\<close>): \<open>2^attempt\<close> seconds plus a jitter computed in
  double precision. Floating-point numbers are the rationals they denote and every operation
  rounds to 53 significant bits, half to even, as IEEE 754 prescribes; durations are signed
  64-bit nanoseconds and wrap around.
\<close>

section \<open>Double precision\<close>

definition round_even :: "rat \<Rightarrow> int" where
  "round_even t =
     (let n = \<lfloor>t\<rfloor>; r = t - of_int n
      in if r < 1 / 2 then n else if 1 / 2 < r then n + 1 else if even n then n else n + 1)"

definition binade :: "rat \<Rightarrow> int" where
  "binade x =
     (let p = fst (quotient_of x); q = snd (quotient_of x); e = bitlen p - bitlen q
      in if x < 2 powi e then e - 1 else e)"

definition fl_pos :: "rat \<Rightarrow> rat" where
  "fl_pos x = (let u = 2 powi (binade x - 52) in of_int (round_even (x / u)) * u)"

definition fl :: "rat \<Rightarrow> rat" where
  "fl x = (if x = 0 then 0 else if 0 < x then fl_pos x else - fl_pos (- x))"

text \<open>\<^verbatim>\<open>int64(f)\<close> truncates towards zero.\<close>

definition trunc :: "rat \<Rightarrow> int" where
  "trunc x = (if 0 \<le> x then \<lfloor>x\<rfloor> else \<lceil>x\<rceil>)"

lemma round_even_error: "\<bar>of_int (round_even t) - t\<bar> \<le> 1 / 2"
proof -
  have "of_int \<lfloor>t\<rfloor> \<le> t" "t < of_int \<lfloor>t\<rfloor> + 1" by linarith+
  then show ?thesis by (simp add: round_even_def Let_def abs_le_iff)
qed

lemma binade_le:
  assumes "0 < x" shows "2 powi (binade x) \<le> x"
proof (cases "x < 2 powi (bitlen (fst (quotient_of x)) - bitlen (snd (quotient_of x)))")
  case False
  then show ?thesis by (simp add: binade_def Let_def)
next
  case True
  define p q where "p = fst (quotient_of x)" and "q = snd (quotient_of x)"
  then have pq: "quotient_of x = (p, q)" by simp
  have q: "0 < q" using quotient_of_denom_pos [OF pq] .
  have x: "x = of_int p / of_int q" using quotient_of_div [OF pq] .
  with assms q have p: "0 < p" by (simp add: zero_less_divide_iff)
  have P: "2 ^ nat (bitlen p - 1) \<le> p" and Q: "q < 2 ^ nat (bitlen q)"
    using bitlen_bounds [OF p] bitlen_bounds [OF q] by auto
  have nn: "0 \<le> bitlen p - 1" "0 \<le> bitlen q" using bitlen_ge_iff_power [of 1 p] p bitlen_nonneg by auto
  have "(2::rat) powi (bitlen p - 1) \<le> of_int p"
    using P nn(1) by (metis of_int_le_iff of_int_numeral of_int_power power_int_def)
  moreover have "of_int q \<le> (2::rat) powi (bitlen q)"
    using Q nn(2) by (metis less_imp_le of_int_le_iff of_int_numeral of_int_power power_int_def)
  ultimately have "(2::rat) powi (bitlen p - 1) / 2 powi (bitlen q) \<le> of_int p / of_int q"
    using q p by (intro frac_le) auto
  moreover have "(2::rat) powi (bitlen p - bitlen q - 1) = 2 powi (bitlen p - 1) / 2 powi (bitlen q)"
    by (simp flip: power_int_diff) (simp add: algebra_simps)
  ultimately have "(2::rat) powi (bitlen p - bitlen q - 1) \<le> x" by (simp add: x)
  with True show ?thesis by (simp add: binade_def Let_def p_def q_def)
qed

definition fl_eps :: rat where
  "fl_eps = 1 / 2 ^ 53"

lemma fl_eps: "0 < fl_eps" "fl_eps < 1"
  by (simp_all add: fl_eps_def)

lemma fl_pos_error:
  assumes "0 < x" shows "\<bar>fl_pos x - x\<bar> \<le> x * fl_eps"
proof -
  define u :: rat where "u = 2 powi (binade x - 52)"
  have u: "0 < u" by (simp add: u_def)
  have "fl_pos x - x = (of_int (round_even (x / u)) - x / u) * u"
    using u by (simp add: fl_pos_def Let_def u_def [symmetric] left_diff_distrib)
  then have "\<bar>fl_pos x - x\<bar> = \<bar>of_int (round_even (x / u)) - x / u\<bar> * u"
    using u by (simp add: abs_mult)
  also have "\<dots> \<le> 1 / 2 * u" using u by (intro mult_right_mono round_even_error) simp
  also have "\<dots> \<le> x * fl_eps"
  proof -
    have "u = 2 powi (binade x) / 2 ^ 52"
      by (simp add: u_def power_int_diff)
    with binade_le [OF assms] show ?thesis by (simp add: fl_eps_def)
  qed
  finally show ?thesis .
qed

lemma fl_nonneg: "0 \<le> x \<Longrightarrow> 0 \<le> fl x"
proof -
  assume "0 \<le> x"
  then consider "x = 0" | "0 < x" by linarith
  then show ?thesis
  proof cases
    case 2
    with fl_pos_error [OF 2] have "x - x * fl_eps \<le> fl_pos x" by (simp add: abs_le_iff)
    moreover have "0 \<le> x - x * fl_eps" using 2 fl_eps by simp
    ultimately have "0 \<le> fl_pos x" by linarith
    with 2 show ?thesis by (simp add: fl_def)
  qed (simp add: fl_def)
qed

text \<open>One rounding moves a value by at most a part in \<open>2^53\<close>.\<close>

lemma fl_le: "0 \<le> x \<Longrightarrow> x \<le> y \<Longrightarrow> fl x \<le> y * (1 + fl_eps)"
proof -
  assume x: "0 \<le> x" and xy: "x \<le> y"
  have "fl x \<le> x * (1 + fl_eps)"
  proof (cases "x = 0")
    case False
    with x have "0 < x" by simp
    with fl_pos_error [OF this] show ?thesis by (simp add: fl_def abs_le_iff distrib_left)
  qed (simp add: fl_def)
  also have "\<dots> \<le> y * (1 + fl_eps)" using xy fl_eps by (intro mult_right_mono) auto
  finally show ?thesis .
qed

section \<open>The delay\<close>

text \<open>
  \<^verbatim>\<open>time.Duration(math.Pow(2, float64(attempt))) * time.Second\<close>. The conversion of a float
  that is not representable is implementation-defined: its value is the parameter \<open>ovf\<close>.
\<close>

definition backoff_base :: "int \<Rightarrow> nat \<Rightarrow> int" where
  "backoff_base ovf attempt = int64 ((if attempt < 63 then 2 ^ attempt else ovf) * 10 ^ 9)"

text \<open>
  \<^verbatim>\<open>time.Duration(float64(backoffDuration) * 0.2 * (float64(time.Now().UnixNano()%100) / 100.0))\<close>;
  \<open>nano\<close> is the clock reading, after 1970.
\<close>

definition jitter :: "int \<Rightarrow> nat \<Rightarrow> int" where
  "jitter d nano =
     int64 (trunc (fl (fl (fl (of_int d) * fl (1 / 5)) * fl (fl (of_nat (nano mod 100)) / 100))))"

definition backoffDuration :: "int \<Rightarrow> nat \<Rightarrow> nat \<Rightarrow> int" where
  "backoffDuration ovf attempt nano =
     (let d = backoff_base ovf attempt in int64 (d + jitter d nano))"

lemma backoff_base_small: "attempt \<le> 32 \<Longrightarrow> backoff_base ovf attempt = 2 ^ attempt * 10 ^ 9"
proof -
  assume a: "attempt \<le> 32"
  define n :: int where "n = 2 ^ attempt"
  have "n \<le> 2 ^ 32" unfolding n_def using a by (intro power_increasing) auto
  moreover have "0 < n" by (simp add: n_def)
  ultimately have "int64 (n * 10 ^ 9) = n * 10 ^ 9" by (intro int64_id) simp_all
  with a show ?thesis by (simp add: backoff_base_def n_def)
qed

lemma jitter_float_bounds:
  assumes "0 < (d::rat)" "k \<le> 99"
  defines "j \<equiv> fl (fl (fl d * fl (1 / 5)) * fl (fl (of_nat k) / 100))"
  shows "0 \<le> j" "j < d / 5"
proof -
  define c :: rat where "c = 1 + fl_eps"
  have c: "0 < c" using fl_eps by (simp add: c_def)
  have d: "0 \<le> fl d" "fl d \<le> d * c" unfolding c_def using assms(1) by (auto intro!: fl_nonneg fl_le)
  have f: "0 \<le> fl (1 / 5)" "fl (1 / 5) \<le> 1 / 5 * c"
    unfolding c_def by (rule fl_nonneg, simp) (rule fl_le, simp_all)
  have k: "0 \<le> fl (of_nat k)" "fl (of_nat k) \<le> 99 * c"
    unfolding c_def by (rule fl_nonneg, simp) (rule fl_le, use assms(2) in simp_all)
  have q: "0 \<le> fl (fl (of_nat k) / 100)" "fl (fl (of_nat k) / 100) \<le> (99 * c / 100) * c"
    unfolding c_def
    by (rule fl_nonneg, use k in simp) (rule fl_le, use k in \<open>simp_all add: c_def\<close>)
  from d f have "fl d * fl (1 / 5) \<le> (d * c) * (1 / 5 * c)"
    using c assms(1) by (intro mult_mono) auto
  moreover from d f have "0 \<le> fl d * fl (1 / 5)" by simp
  ultimately have p: "0 \<le> fl (fl d * fl (1 / 5))" "fl (fl d * fl (1 / 5)) \<le> (d * c) * (1 / 5 * c) * c"
    unfolding c_def by (blast intro: fl_nonneg, blast intro: fl_le)
  from p q have "fl (fl d * fl (1 / 5)) * fl (fl (of_nat k) / 100)
      \<le> ((d * c) * (1 / 5 * c) * c) * ((99 * c / 100) * c)"
    using c assms(1) by (intro mult_mono) auto
  moreover from p q have n: "0 \<le> fl (fl d * fl (1 / 5)) * fl (fl (of_nat k) / 100)" by simp
  ultimately have "j \<le> ((d * c) * (1 / 5 * c) * c) * ((99 * c / 100) * c) * c"
    unfolding j_def c_def by (intro fl_le)
  also have "\<dots> = d / 5 * (99 / 100 * c ^ 6)" by (simp add: power_numeral_reduce)
  also have "\<dots> < d / 5 * 1"
    using assms(1) by (intro mult_strict_left_mono) (simp_all add: c_def fl_eps_def power_divide field_simps)
  finally show "j < d / 5" by simp
  from n show "0 \<le> j" unfolding j_def by (rule fl_nonneg)
qed

lemma jitter_bounds:
  assumes "0 < d" "d < 2 ^ 63"
  shows "0 \<le> jitter d nano" "5 * jitter d nano < d"
proof -
  define j where "j = fl (fl (fl (of_int d) * fl (1 / 5)) * fl (fl (of_nat (nano mod 100)) / 100))"
  have "(0::rat) < of_int d" "nano mod 100 \<le> 99" using assms by auto
  from jitter_float_bounds [OF this] have j: "0 \<le> j" "j < of_int d / 5" unfolding j_def by auto
  then have t: "0 \<le> trunc j" "of_int (trunc j) \<le> j" by (auto simp: trunc_def)
  with j have "(of_int (5 * trunc j) :: rat) < of_int d" by simp
  then have lt: "5 * trunc j < d" by (simp only: of_int_less_iff)
  with t assms have "int64 (trunc j) = trunc j" by (intro int64_id) auto
  with t lt show "0 \<le> jitter d nano" "5 * jitter d nano < d" by (simp_all add: jitter_def j_def)
qed

section \<open>Property\<close>

text \<open>
  C39: the pause before the next attempt. Up to attempt 32 it is at least \<open>2^attempt\<close> seconds and
  less than a fifth longer: the jitter only ever lengthens it. At attempt 34 the product with
  \<^verbatim>\<open>time.Second\<close> wraps around to a negative duration, which is no pause.
\<close>

theorem backoffDuration_bounds:
  "(attempt \<le> 32 \<longrightarrow>
      2 ^ attempt * 10 ^ 9 \<le> backoffDuration ovf attempt nano \<and>
      5 * backoffDuration ovf attempt nano < 6 * (2 ^ attempt * 10 ^ 9)) \<and>
   backoff_base ovf 34 < 0"
proof
  show "attempt \<le> 32 \<longrightarrow> 2 ^ attempt * 10 ^ 9 \<le> backoffDuration ovf attempt nano \<and>
      5 * backoffDuration ovf attempt nano < 6 * (2 ^ attempt * 10 ^ 9)"
  proof
    assume a: "attempt \<le> 32"
    define d :: int where "d = 2 ^ attempt * 10 ^ 9"
    have "(2::int) ^ attempt \<le> 2 ^ 32" using a by (intro power_increasing) auto
    then have d: "0 < d" "d \<le> 2 ^ 32 * 10 ^ 9" by (simp_all add: d_def)
    have j: "0 \<le> jitter d nano" "5 * jitter d nano < d" using d by (auto intro!: jitter_bounds)
    then have "int64 (d + jitter d nano) = d + jitter d nano" using d by (intro int64_id) auto
    then have "backoffDuration ovf attempt nano = d + jitter d nano"
      by (simp add: backoffDuration_def backoff_base_small [OF a] d_def Let_def)
    with j show "2 ^ attempt * 10 ^ 9 \<le> backoffDuration ovf attempt nano \<and>
        5 * backoffDuration ovf attempt nano < 6 * (2 ^ attempt * 10 ^ 9)"
      unfolding d_def [symmetric] by simp
  qed
  show "backoff_base ovf 34 < 0"
    by (simp add: backoff_base_def int64_def)
qed

theorem backoffDuration_bounds_witness:
  "8 * 10 ^ 9 \<le> backoffDuration 0 3 57 \<and> 5 * backoffDuration 0 3 57 < 48 * 10 ^ 9"
  using backoffDuration_bounds [of 3 0 57] by simp

end
