(* ===== verification/Database.thy ===== *)
theory Database
  imports Prelude "HOL-Library.List_Lexorder" "HOL-Library.Char_ord" "HOL-Library.Product_Lexorder"
begin

text \<open>
  The PostgreSQL schema of \<^verbatim>\<open>db/migrations\<close> and the SQL statements that the Go code sends,
  each as a state-passing function on the tables. What belongs to the server and the driver
  and not to the statements is a parameter: the record \<open>pg_server\<close> (how text is accepted as
  a UUID, as JSONB, as VARCHAR(n), how a time is stored, the text of an error) and a
  \<open>fault\<close> per statement (the request is lost before it takes effect, or its reply is lost
  after it took effect: a dropped connection, an expired context, a missing partition).
\<close>

section \<open>Tables\<close>

record tenant_row =
  t_id :: string
  t_name :: string
  t_concurrency :: int
  t_created_at :: time
  t_updated_at :: time

record message_row =
  m_id :: string
  m_tenant_id :: string
  m_payload :: string
  m_status :: string
  m_retry_count :: int
  m_created_at :: time
  m_updated_at :: time

record dead_letter_row =
  d_original_message_id :: string
  d_tenant_id :: string
  d_payload :: string
  d_error_reason :: string
  d_retry_count :: int
  d_failed_at :: time

record user_row =
  u_id :: string
  u_username :: string
  u_password_hash :: string
  u_tenant_id :: "string option"
  u_role :: string
  u_created_at :: time
  u_updated_at :: time

record db =
  tenants :: "tenant_row list"
  messages :: "message_row list"
  dead_letter_messages :: "dead_letter_row list"
  users :: "user_row list"

record pg_server =
  uuid_in :: "string \<Rightarrow> string option"
  jsonb_in :: "string \<Rightarrow> string option"
  varchar_in :: "nat \<Rightarrow> string \<Rightarrow> bool"
  timestamptz_in :: "time \<Rightarrow> time"
  pg_text :: "string \<Rightarrow> string"

datatype fault = Delivered | Lost_request go_error | Lost_reply go_error

text \<open>One statement under a fault: every statement is its own transaction.\<close>

fun with_fault :: "fault \<Rightarrow> ('d \<Rightarrow> 'd \<times> 'a res) \<Rightarrow> 'd \<Rightarrow> 'd \<times> 'a res" where
  "with_fault Delivered f d = f d"
| "with_fault (Lost_request e) f d = (d, Inl e)"
| "with_fault (Lost_reply e) f d =
     (case f d of (d', Inl e') \<Rightarrow> (d', Inl e') | (d', Inr _) \<Rightarrow> (d', Inl e))"

text \<open>A fault cannot turn a failure into a success, and a success means the statement ran.\<close>

lemma with_fault_Inr: "with_fault flt f d = (d', Inr x) \<longleftrightarrow> flt = Delivered \<and> f d = (d', Inr x)"
  by (cases flt) (auto split: prod.splits sum.splits)

lemma with_fault_state:
  "with_fault flt f d = (d', r) \<Longrightarrow> d' = d \<or> d' = fst (f d)"
  by (cases flt) (auto split: prod.splits sum.splits)

lemma with_fault_error_state:
  "with_fault flt f d = (d', Inl e) \<Longrightarrow> (\<And>e'. flt \<noteq> Lost_reply e') \<Longrightarrow>
     (\<And>e'. snd (f d) = Inl e' \<Longrightarrow> fst (f d) = d) \<Longrightarrow> d' = d"
  by (cases flt) (auto split: prod.splits sum.splits)

definition invalid_text :: "pg_server \<Rightarrow> go_error" where
  "invalid_text pg = PgError ''22P02'' (pg_text pg ''22P02'')"

definition unique_violation :: "pg_server \<Rightarrow> go_error" where
  "unique_violation pg = PgError ''23505'' (pg_text pg ''23505'')"

definition fk_violation :: "pg_server \<Rightarrow> go_error" where
  "fk_violation pg = PgError ''23503'' (pg_text pg ''23503'')"

definition too_long :: "pg_server \<Rightarrow> go_error" where
  "too_long pg = PgError ''22001'' (pg_text pg ''22001'')"

definition out_of_range :: "pg_server \<Rightarrow> go_error" where
  "out_of_range pg = PgError ''22003'' (pg_text pg ''22003'')"

lemma pg_errors_not_ErrNoRows [simp]:
  "invalid_text pg \<noteq> ErrNoRows" "unique_violation pg \<noteq> ErrNoRows" "fk_violation pg \<noteq> ErrNoRows"
  "too_long pg \<noteq> ErrNoRows" "out_of_range pg \<noteq> ErrNoRows"
  by (simp_all add: invalid_text_def unique_violation_def fk_violation_def too_long_def
      out_of_range_def ErrNoRows_def)

text \<open>An INT column holds a signed 32-bit value.\<close>

definition int4_ok :: "int \<Rightarrow> bool" where
  "int4_ok n \<longleftrightarrow> - (2 ^ 31) \<le> n \<and> n < 2 ^ 31"


section \<open>Rows by key\<close>

definition find_by :: "('r \<Rightarrow> 'k) \<Rightarrow> 'k \<Rightarrow> 'r list \<Rightarrow> 'r option" where
  "find_by key k rs = find (\<lambda>r. key r = k) rs"

definition update_by :: "('r \<Rightarrow> 'k) \<Rightarrow> 'k \<Rightarrow> ('r \<Rightarrow> 'r) \<Rightarrow> 'r list \<Rightarrow> 'r list" where
  "update_by key k f rs = map (\<lambda>r. if key r = k then f r else r) rs"

definition delete_by :: "('r \<Rightarrow> 'k) \<Rightarrow> 'k \<Rightarrow> 'r list \<Rightarrow> 'r list" where
  "delete_by key k rs = filter (\<lambda>r. key r \<noteq> k) rs"

lemma find_by_None [simp]: "find_by key k rs = None \<longleftrightarrow> k \<notin> key ` set rs"
  by (auto simp: find_by_def find_None_iff)

lemma find_by_SomeD: "find_by key k rs = Some r \<Longrightarrow> r \<in> set rs \<and> key r = k"
  by (auto simp: find_by_def find_Some_iff)

lemma find_by_image: "find_by key k rs = Some r \<Longrightarrow> k \<in> key ` set rs"
  by (auto dest: find_by_SomeD)

lemma find_by_exists: "k \<in> key ` set rs \<Longrightarrow> \<exists>r. find_by key k rs = Some r"
  using find_by_None [of key k rs] by (cases "find_by key k rs") auto

lemma find_by_unique:
  "distinct (map key rs) \<Longrightarrow> r \<in> set rs \<Longrightarrow> find_by key (key r) rs = Some r"
proof -
  assume d: "distinct (map key rs)" and r: "r \<in> set rs"
  from r have "key r \<in> key ` set rs" by simp
  from find_by_exists [OF this] obtain r' where r': "find_by key (key r) rs = Some r'" ..
  from find_by_SomeD [OF r'] have r'': "r' \<in> set rs" "key r' = key r" by simp_all
  from d have "inj_on key (set rs)" by (simp add: distinct_map)
  with r'' r have "r' = r" by (simp add: inj_on_eq_iff)
  with r' show ?thesis by simp
qed

lemma find_by_append:
  "find_by key k (rs @ [r]) =
     (case find_by key k rs of Some x \<Rightarrow> Some x | None \<Rightarrow> if key r = k then Some r else None)"
  by (induction rs) (auto simp: find_by_def)

lemma find_by_append_fresh [simp]:
  "k \<notin> key ` set rs \<Longrightarrow> key r = k \<Longrightarrow> find_by key k (rs @ [r]) = Some r"
  using find_by_None [of key k rs] by (simp add: find_by_append del: find_by_None)

lemma find_by_update_by:
  "(\<And>r. key (f r) = key r) \<Longrightarrow>
   find_by key j (update_by key k f rs) =
     (if j = k then map_option f (find_by key k rs) else find_by key j rs)"
  by (induction rs) (auto simp: find_by_def update_by_def)

lemma find_by_delete_by:
  "find_by key j (delete_by key k rs) = (if j = k then None else find_by key j rs)"
  by (induction rs) (auto simp: find_by_def delete_by_def)

lemma keys_update_by [simp]:
  "(\<And>r. key' (f r) = key' r) \<Longrightarrow> map key' (update_by key k f rs) = map key' rs"
  by (auto simp: update_by_def)

lemma keys_delete_by: "key ` set (delete_by key k rs) = key ` set rs - {k}"
  by (auto simp: delete_by_def)

lemma distinct_delete_by: "distinct (map g rs) \<Longrightarrow> distinct (map g (delete_by key k rs))"
  by (auto simp: delete_by_def distinct_map_filter)

lemma set_delete_by: "set (delete_by key k rs) = {r \<in> set rs. key r \<noteq> k}"
  by (auto simp: delete_by_def)

lemma set_update_by:
  "set (update_by key k f rs) = {r \<in> set rs. key r \<noteq> k} \<union> f ` {r \<in> set rs. key r = k}"
  by (auto simp: update_by_def)

section \<open>Statements on tenants\<close>

text \<open>\<^verbatim>\<open>INSERT INTO tenants (id, name, concurrency) VALUES ($1, $2, $3) RETURNING ...\<close>\<close>

definition sql_insert_tenant ::
  "pg_server \<Rightarrow> time \<Rightarrow> string \<Rightarrow> string \<Rightarrow> int \<Rightarrow> db \<Rightarrow> db \<times> tenant_row res" where
  "sql_insert_tenant pg now tid name workers d =
     (case uuid_in pg tid of
        None \<Rightarrow> (d, Inl (invalid_text pg))
      | Some u \<Rightarrow>
          if \<not> varchar_in pg 255 name then (d, Inl (too_long pg))
          else if \<not> int4_ok workers then (d, Inl (out_of_range pg))
          else if u \<in> t_id ` set (tenants d) \<or> name \<in> t_name ` set (tenants d)
          then (d, Inl (unique_violation pg))
          else
            let row = \<lparr>t_id = u, t_name = name, t_concurrency = workers,
                        t_created_at = now, t_updated_at = now\<rparr>
            in (d\<lparr>tenants := tenants d @ [row]\<rparr>, Inr row))"

text \<open>\<^verbatim>\<open>SELECT ... FROM tenants WHERE id = $1\<close>, scanned with \<^verbatim>\<open>QueryRow\<close>.\<close>

definition sql_select_tenant :: "pg_server \<Rightarrow> string \<Rightarrow> db \<Rightarrow> db \<times> tenant_row res" where
  "sql_select_tenant pg tid d =
     (d, case uuid_in pg tid of
           None \<Rightarrow> Inl (invalid_text pg)
         | Some u \<Rightarrow>
             (case find_by t_id u (tenants d) of None \<Rightarrow> Inl ErrNoRows | Some r \<Rightarrow> Inr r))"

text \<open>
  \<^verbatim>\<open>DELETE FROM tenants WHERE id = $1\<close>: the number of rows affected. The foreign key of
  \<^verbatim>\<open>users.tenant_id\<close> is ON DELETE SET NULL, and that update of \<^verbatim>\<open>users\<close> runs the
  trigger \<^verbatim>\<open>update_users_updated_at\<close>.
\<close>

definition sql_delete_tenant :: "pg_server \<Rightarrow> time \<Rightarrow> string \<Rightarrow> db \<Rightarrow> db \<times> nat res" where
  "sql_delete_tenant pg now tid d =
     (case uuid_in pg tid of
        None \<Rightarrow> (d, Inl (invalid_text pg))
      | Some u \<Rightarrow>
          (d\<lparr>tenants := delete_by t_id u (tenants d),
             users := map (\<lambda>r. if u_tenant_id r = Some u
                                then r\<lparr>u_tenant_id := None, u_updated_at := now\<rparr> else r)
                        (users d)\<rparr>,
           Inr (length (filter (\<lambda>r. t_id r = u) (tenants d)))))"

text \<open>\<^verbatim>\<open>UPDATE tenants SET concurrency = $2, updated_at = NOW() WHERE id = $1 RETURNING ...\<close>\<close>

definition sql_update_concurrency ::
  "pg_server \<Rightarrow> time \<Rightarrow> string \<Rightarrow> int \<Rightarrow> db \<Rightarrow> db \<times> tenant_row res" where
  "sql_update_concurrency pg now tid workers d =
     (case uuid_in pg tid of
        None \<Rightarrow> (d, Inl (invalid_text pg))
      | Some u \<Rightarrow>
          if \<not> int4_ok workers then (d, Inl (out_of_range pg))
          else
            let f = (\<lambda>r. r\<lparr>t_concurrency := workers, t_updated_at := now\<rparr>) in
            (d\<lparr>tenants := update_by t_id u f (tenants d)\<rparr>,
             case find_by t_id u (tenants d) of None \<Rightarrow> Inl ErrNoRows | Some r \<Rightarrow> Inr (f r)))"

text \<open>
  \<^verbatim>\<open>SELECT ... FROM tenants ORDER BY created_at DESC LIMIT $1 OFFSET $2\<close>; rows of equal
  time keep an order of the server's choice, here the table's order reversed.
\<close>

definition sql_list_tenants ::
  "pg_server \<Rightarrow> int \<Rightarrow> int \<Rightarrow> db \<Rightarrow> db \<times> tenant_row list res" where
  "sql_list_tenants pg limit offset d =
     (d, if limit < 0 then Inl (PgError ''2201W'' (pg_text pg ''2201W''))
         else if offset < 0 then Inl (PgError ''2201X'' (pg_text pg ''2201X''))
         else Inr (take (nat limit) (drop (nat offset) (rev (sort_key t_created_at (tenants d))))))"

section \<open>Statements on messages\<close>

abbreviation m_key :: "message_row \<Rightarrow> string \<times> string" where
  "m_key r \<equiv> (m_id r, m_tenant_id r)"

text \<open>\<^verbatim>\<open>INSERT INTO messages (...) VALUES ($1, $2, $3, 'pending', 0) RETURNING ...\<close>\<close>

definition sql_insert_message ::
  "pg_server \<Rightarrow> time \<Rightarrow> string \<Rightarrow> string \<Rightarrow> string \<Rightarrow> db \<Rightarrow> db \<times> message_row res" where
  "sql_insert_message pg now mid tid payload d =
     (case (uuid_in pg mid, uuid_in pg tid, jsonb_in pg payload) of
        (Some u, Some t, Some p) \<Rightarrow>
          if (u, t) \<in> m_key ` set (messages d) then (d, Inl (unique_violation pg))
          else
            let row = \<lparr>m_id = u, m_tenant_id = t, m_payload = p, m_status = ''pending'',
                        m_retry_count = 0, m_created_at = now, m_updated_at = now\<rparr>
            in (d\<lparr>messages := messages d @ [row]\<rparr>, Inr row)
      | _ \<Rightarrow> (d, Inl (invalid_text pg)))"

text \<open>\<^verbatim>\<open>SELECT ... FROM messages WHERE id = $1 AND tenant_id = $2\<close>\<close>

definition sql_select_message :: "pg_server \<Rightarrow> string \<Rightarrow> string \<Rightarrow> db \<Rightarrow> db \<times> message_row res" where
  "sql_select_message pg mid tid d =
     (d, case (uuid_in pg mid, uuid_in pg tid) of
           (Some u, Some t) \<Rightarrow>
             (case find_by m_key (u, t) (messages d) of None \<Rightarrow> Inl ErrNoRows | Some r \<Rightarrow> Inr r)
         | _ \<Rightarrow> Inl (invalid_text pg))"

text \<open>
  \<^verbatim>\<open>SELECT ... FROM messages [WHERE ...] ORDER BY created_at DESC, id DESC LIMIT n\<close>. The
  identifiers are the canonical lower-case texts, whose lexicographic order is the order of
  the UUIDs.
\<close>

abbreviation m_order :: "message_row \<Rightarrow> time \<times> string" where
  "m_order r \<equiv> (m_created_at r, m_id r)"

definition newest_first :: "message_row list \<Rightarrow> message_row list" where
  "newest_first rs = rev (sort_key m_order rs)"

definition sql_list_messages ::
  "(message_row \<Rightarrow> bool) \<Rightarrow> int \<Rightarrow> db \<Rightarrow> message_row list" where
  "sql_list_messages p n d = take (nat n) (newest_first (filter p (messages d)))"

text \<open>
  The worker's upsert: \<^verbatim>\<open>INSERT INTO messages ... VALUES ($1, $2, $3, 'processing', $4, NOW())
  ON CONFLICT (id, tenant_id) DO UPDATE SET status = 'processing', retry_count = $4,
  updated_at = NOW() WHERE messages.tenant_id = $2\<close>.
\<close>

definition sql_upsert_processing ::
  "pg_server \<Rightarrow> time \<Rightarrow> string \<Rightarrow> string \<Rightarrow> string \<Rightarrow> int \<Rightarrow> db \<Rightarrow> db \<times> unit res" where
  "sql_upsert_processing pg now mid tid payload n d =
     (case (uuid_in pg mid, uuid_in pg tid, jsonb_in pg payload) of
        (Some u, Some t, Some p) \<Rightarrow>
          if \<not> int4_ok n then (d, Inl (out_of_range pg))
          else if (u, t) \<in> m_key ` set (messages d)
          then (d\<lparr>messages := update_by m_key (u, t)
                    (\<lambda>r. r\<lparr>m_status := ''processing'', m_retry_count := n, m_updated_at := now\<rparr>)
                    (messages d)\<rparr>, Inr ())
          else (d\<lparr>messages := messages d @
                   [\<lparr>m_id = u, m_tenant_id = t, m_payload = p, m_status = ''processing'',
                     m_retry_count = n, m_created_at = now, m_updated_at = now\<rparr>]\<rparr>, Inr ())
      | _ \<Rightarrow> (d, Inl (invalid_text pg)))"

text \<open>\<^verbatim>\<open>UPDATE messages SET status = '...', updated_at = NOW() WHERE id = $1 AND tenant_id = $2\<close>\<close>

definition sql_set_status ::
  "pg_server \<Rightarrow> time \<Rightarrow> string \<Rightarrow> string \<Rightarrow> string \<Rightarrow> db \<Rightarrow> db \<times> unit res" where
  "sql_set_status pg now st mid tid d =
     (case (uuid_in pg mid, uuid_in pg tid) of
        (Some u, Some t) \<Rightarrow>
          (d\<lparr>messages := update_by m_key (u, t)
                (\<lambda>r. r\<lparr>m_status := st, m_updated_at := now\<rparr>) (messages d)\<rparr>, Inr ())
      | _ \<Rightarrow> (d, Inl (invalid_text pg)))"

text \<open>\<^verbatim>\<open>INSERT INTO dead_letter_messages (...) VALUES ($1, $2, $3, $4, $5)\<close>\<close>

definition sql_insert_dead_letter ::
  "pg_server \<Rightarrow> time \<Rightarrow> string \<Rightarrow> string \<Rightarrow> string \<Rightarrow> string \<Rightarrow> int \<Rightarrow> db \<Rightarrow> db \<times> unit res" where
  "sql_insert_dead_letter pg now mid tid payload reason n d =
     (case (uuid_in pg mid, uuid_in pg tid, jsonb_in pg payload) of
        (Some u, Some t, Some p) \<Rightarrow>
          if \<not> int4_ok n then (d, Inl (out_of_range pg))
          else (d\<lparr>dead_letter_messages := dead_letter_messages d @
                   [\<lparr>d_original_message_id = u, d_tenant_id = t, d_payload = p,
                     d_error_reason = reason, d_retry_count = n, d_failed_at = now\<rparr>]\<rparr>, Inr ())
      | _ \<Rightarrow> (d, Inl (invalid_text pg)))"

section \<open>Statements on users\<close>

text \<open>
  \<^verbatim>\<open>INSERT INTO users (id, username, password_hash, tenant_id, role, created_at, updated_at)
  VALUES ($1, $2, $3, $4, $5, $6, $6) RETURNING ...\<close>; \<^verbatim>\<open>tenant_id\<close> is a UUID column with a
  foreign key to \<^verbatim>\<open>tenants\<close>, and the code always passes it a string.
\<close>

definition sql_insert_user ::
  "pg_server \<Rightarrow> time \<Rightarrow> string \<Rightarrow> string \<Rightarrow> string \<Rightarrow> string \<Rightarrow> string \<Rightarrow> db \<Rightarrow> db \<times> user_row res" where
  "sql_insert_user pg at uid username hash tid role d =
     (case (uuid_in pg uid, uuid_in pg tid) of
        (Some u, Some t) \<Rightarrow>
          if \<not> varchar_in pg 255 username \<or> \<not> varchar_in pg 255 hash \<or> \<not> varchar_in pg 50 role
          then (d, Inl (too_long pg))
          else if u \<in> u_id ` set (users d) \<or> username \<in> u_username ` set (users d)
          then (d, Inl (unique_violation pg))
          else if t \<notin> t_id ` set (tenants d) then (d, Inl (fk_violation pg))
          else
            let row = \<lparr>u_id = u, u_username = username, u_password_hash = hash,
                        u_tenant_id = Some t, u_role = role,
                        u_created_at = timestamptz_in pg at,
                        u_updated_at = timestamptz_in pg at\<rparr>
            in (d\<lparr>users := users d @ [row]\<rparr>, Inr row)
      | _ \<Rightarrow> (d, Inl (invalid_text pg)))"

text \<open>\<^verbatim>\<open>SELECT ... FROM users WHERE username = $1\<close>, and the same by \<^verbatim>\<open>id\<close>.\<close>

definition sql_select_user_by_username :: "string \<Rightarrow> db \<Rightarrow> db \<times> user_row res" where
  "sql_select_user_by_username username d =
     (d, case find_by u_username username (users d) of None \<Rightarrow> Inl ErrNoRows | Some r \<Rightarrow> Inr r)"

definition sql_select_user_by_id :: "pg_server \<Rightarrow> string \<Rightarrow> db \<Rightarrow> db \<times> user_row res" where
  "sql_select_user_by_id pg uid d =
     (d, case uuid_in pg uid of
           None \<Rightarrow> Inl (invalid_text pg)
         | Some u \<Rightarrow>
             (case find_by u_id u (users d) of None \<Rightarrow> Inl ErrNoRows | Some r \<Rightarrow> Inr r))"

section \<open>The schema's constraints\<close>

text \<open>
  What the migrations promise of the tables: primary keys and UNIQUE columns, the foreign key
  of \<^verbatim>\<open>users\<close>, UUID columns that hold canonical values, and the four statuses the code
  writes. The server's UUID parser is only assumed to accept the canonical text it produces.
\<close>

definition uuid_lawful :: "pg_server \<Rightarrow> bool" where
  "uuid_lawful pg \<longleftrightarrow> (\<forall>s u. uuid_in pg s = Some u \<longrightarrow> uuid_in pg u = Some u)"

definition message_statuses :: "string list" where
  "message_statuses = [''pending'', ''processing'', ''completed'', ''failed'']"

definition tenants_ok :: "pg_server \<Rightarrow> tenant_row list \<Rightarrow> bool" where
  "tenants_ok pg rs \<longleftrightarrow> distinct (map t_id rs) \<and> distinct (map t_name rs) \<and>
     (\<forall>r \<in> set rs. uuid_in pg (t_id r) = Some (t_id r))"

definition messages_ok :: "pg_server \<Rightarrow> message_row list \<Rightarrow> bool" where
  "messages_ok pg rs \<longleftrightarrow> distinct (map m_key rs) \<and>
     (\<forall>r \<in> set rs. uuid_in pg (m_id r) = Some (m_id r) \<and>
        uuid_in pg (m_tenant_id r) = Some (m_tenant_id r) \<and> m_status r \<in> set message_statuses)"

definition users_ok :: "tenant_row list \<Rightarrow> user_row list \<Rightarrow> bool" where
  "users_ok ts rs \<longleftrightarrow> distinct (map u_id rs) \<and> distinct (map u_username rs) \<and>
     (\<forall>r \<in> set rs. \<forall>t. u_tenant_id r = Some t \<longrightarrow> t \<in> t_id ` set ts)"

definition db_ok :: "pg_server \<Rightarrow> db \<Rightarrow> bool" where
  "db_ok pg d \<longleftrightarrow> tenants_ok pg (tenants d) \<and> messages_ok pg (messages d) \<and>
     users_ok (tenants d) (users d)"

definition db_empty :: db where
  "db_empty = \<lparr>tenants = [], messages = [], dead_letter_messages = [], users = []\<rparr>"

lemma db_ok_empty [simp]: "db_ok pg db_empty"
  by (simp add: db_ok_def db_empty_def tenants_ok_def messages_ok_def users_ok_def)

lemma uuid_lawfulD: "uuid_lawful pg \<Longrightarrow> uuid_in pg s = Some u \<Longrightarrow> uuid_in pg u = Some u"
  by (auto simp: uuid_lawful_def)

lemma with_fault_keeps:
  "(P d \<Longrightarrow> P (fst (f d))) \<Longrightarrow> P d \<Longrightarrow> P (fst (with_fault flt f d))"
  by (cases flt) (auto split: prod.splits sum.splits)

lemma tenants_ok_update:
  "tenants_ok pg rs \<Longrightarrow> (\<And>r. t_id (f r) = t_id r) \<Longrightarrow> (\<And>r. t_name (f r) = t_name r) \<Longrightarrow>
     tenants_ok pg (update_by t_id u f rs)"
  by (auto simp: tenants_ok_def set_update_by)

lemma messages_ok_update:
  "messages_ok pg rs \<Longrightarrow> (\<And>r. m_key (f r) = m_key r) \<Longrightarrow>
     (\<And>r. m_status (f r) \<in> set message_statuses) \<Longrightarrow> messages_ok pg (update_by m_key k f rs)"
  by (fastforce simp: messages_ok_def set_update_by)

lemma tenants_ok_append:
  "tenants_ok pg rs \<Longrightarrow> t_id r \<notin> t_id ` set rs \<Longrightarrow> t_name r \<notin> t_name ` set rs \<Longrightarrow>
     uuid_in pg (t_id r) = Some (t_id r) \<Longrightarrow> tenants_ok pg (rs @ [r])"
  by (auto simp: tenants_ok_def)

lemma messages_ok_append:
  "messages_ok pg rs \<Longrightarrow> m_key r \<notin> m_key ` set rs \<Longrightarrow> uuid_in pg (m_id r) = Some (m_id r) \<Longrightarrow>
     uuid_in pg (m_tenant_id r) = Some (m_tenant_id r) \<Longrightarrow> m_status r \<in> set message_statuses \<Longrightarrow>
     messages_ok pg (rs @ [r])"
  by (auto simp: messages_ok_def)

lemma tenants_ok_delete: "tenants_ok pg rs \<Longrightarrow> tenants_ok pg (delete_by t_id u rs)"
  by (auto simp: tenants_ok_def distinct_delete_by set_delete_by)

lemma users_ok_mono: "users_ok ts rs \<Longrightarrow> t_id ` set ts \<subseteq> t_id ` set ts' \<Longrightarrow> users_ok ts' rs"
  by (fastforce simp: users_ok_def)

lemma users_ok_set_null:
  assumes "users_ok ts rs"
  shows "users_ok (delete_by t_id u ts)
    (map (\<lambda>r. if u_tenant_id r = Some u then r\<lparr>u_tenant_id := None, u_updated_at := now\<rparr> else r) rs)"
    (is "users_ok _ (map ?f rs)")
proof -
  have "map u_id (map ?f rs) = map u_id rs" "map u_username (map ?f rs) = map u_username rs"
    by simp_all
  with assms show ?thesis
    by (auto simp: users_ok_def keys_delete_by simp del: map_map split: if_splits)
qed

lemma users_ok_append:
  "users_ok ts rs \<Longrightarrow> u_id r \<notin> u_id ` set rs \<Longrightarrow> u_username r \<notin> u_username ` set rs \<Longrightarrow>
     (\<And>t. u_tenant_id r = Some t \<Longrightarrow> t \<in> t_id ` set ts) \<Longrightarrow> users_ok ts (rs @ [r])"
  by (auto simp: users_ok_def)

lemma image_t_id_update_by [simp]:
  "(\<And>r. t_id (f r) = t_id r) \<Longrightarrow> t_id ` set (update_by t_id u f rs) = t_id ` set rs"
  by (simp flip: set_map)

text \<open>Every statement keeps the constraints, whatever it returns.\<close>

lemma sql_insert_tenant_ok:
  "uuid_lawful pg \<Longrightarrow> db_ok pg d \<Longrightarrow> db_ok pg (fst (sql_insert_tenant pg now tid name w d))"
  by (auto simp: sql_insert_tenant_def db_ok_def Let_def uuid_lawfulD
      intro!: tenants_ok_append elim!: users_ok_mono split: option.splits)

lemma sql_delete_tenant_ok:
  "db_ok pg d \<Longrightarrow> db_ok pg (fst (sql_delete_tenant pg now tid d))"
  by (auto simp: sql_delete_tenant_def db_ok_def tenants_ok_delete users_ok_set_null
      split: option.splits)

lemma sql_update_concurrency_ok:
  "db_ok pg d \<Longrightarrow> db_ok pg (fst (sql_update_concurrency pg now tid w d))"
  by (auto simp: sql_update_concurrency_def db_ok_def Let_def
      intro!: tenants_ok_update elim!: users_ok_mono split: option.splits)

lemma sql_insert_message_ok:
  "uuid_lawful pg \<Longrightarrow> db_ok pg d \<Longrightarrow> db_ok pg (fst (sql_insert_message pg now mid tid p d))"
  by (auto simp: sql_insert_message_def db_ok_def Let_def uuid_lawfulD message_statuses_def
      intro!: messages_ok_append split: option.splits)

lemma sql_upsert_processing_ok:
  "uuid_lawful pg \<Longrightarrow> db_ok pg d \<Longrightarrow> db_ok pg (fst (sql_upsert_processing pg now mid tid p n d))"
  by (auto simp: sql_upsert_processing_def db_ok_def uuid_lawfulD message_statuses_def
      intro!: messages_ok_append messages_ok_update split: option.splits)

lemma sql_set_status_ok:
  "st \<in> set message_statuses \<Longrightarrow> db_ok pg d \<Longrightarrow> db_ok pg (fst (sql_set_status pg now st mid tid d))"
  by (auto simp: sql_set_status_def db_ok_def intro!: messages_ok_update split: option.splits)

lemma sql_insert_dead_letter_ok:
  "db_ok pg d \<Longrightarrow> db_ok pg (fst (sql_insert_dead_letter pg now mid tid p why n d))"
  by (auto simp: sql_insert_dead_letter_def db_ok_def split: option.splits)

lemma sql_insert_user_ok:
  "uuid_lawful pg \<Longrightarrow> db_ok pg d \<Longrightarrow> db_ok pg (fst (sql_insert_user pg at uid nm h tid rl d))"
  by (auto simp: sql_insert_user_def db_ok_def Let_def intro!: users_ok_append split: option.splits)

lemmas sql_ok =
  sql_insert_tenant_ok sql_delete_tenant_ok sql_update_concurrency_ok sql_insert_message_ok
  sql_upsert_processing_ok sql_set_status_ok sql_insert_dead_letter_ok sql_insert_user_ok

end
