(* ===== verification/Go_Json.thy ===== *)
theory Go_Json
  imports Prelude
begin

text \<open>
  What the program uses of \<^verbatim>\<open>encoding/json\<close>: decoding a payload into
  \<^verbatim>\<open>map[string]interface{}\<close> and into \<^verbatim>\<open>interface{}\<close>, encoding a decoded value, and both
  directions for the queue's \<^verbatim>\<open>Message\<close> struct. The codec is a parameter, the record
  \<open>go_json\<close>; what the properties rely on is stated where they use it.
\<close>

datatype json =
    JNull
  | JBool bool
  | JNumber string
  | JString string
  | JArray "json list"
  | JObject "(string \<times> json) list"

text \<open>\<^verbatim>\<open>Message\<close> of \<^verbatim>\<open>internal/tenant/manager.go\<close>; the payload is the raw bytes.\<close>

record Message =
  msg_ID :: string
  msg_TenantID :: string
  msg_Payload :: string
  msg_Timestamp :: int

record go_json =
  marshal_value :: "json \<Rightarrow> string res"
  unmarshal_value :: "string \<Rightarrow> json res"
  marshal_Message :: "Message \<Rightarrow> string res"
  unmarshal_Message :: "string \<Rightarrow> Message res"

text \<open>
  \<^verbatim>\<open>var payload map[string]interface{}; json.Unmarshal(b, &payload)\<close>: an object, or
  \<^verbatim>\<open>null\<close>, which leaves the map nil; any other value is an error.
\<close>

definition unmarshal_object :: "go_json \<Rightarrow> string \<Rightarrow> (string \<times> json) list res" where
  "unmarshal_object js b =
     (case unmarshal_value js b of
        Inl e \<Rightarrow> Inl e
      | Inr JNull \<Rightarrow> Inr []
      | Inr (JObject kvs) \<Rightarrow> Inr kvs
      | Inr _ \<Rightarrow> Inl (ErrorNew ''json: cannot unmarshal into Go value of type map[string]interface {}''))"

text \<open>
  \<^verbatim>\<open>json.Unmarshal(b, &v)\<close> into an interface with the error ignored: \<^verbatim>\<open>v\<close> stays nil, which
  is JSON's null, when the bytes do not decode.
\<close>

definition unmarshal_or_nil :: "go_json \<Rightarrow> string \<Rightarrow> json" where
  "unmarshal_or_nil js b = (case unmarshal_value js b of Inl _ \<Rightarrow> JNull | Inr v \<Rightarrow> v)"

end
