(* ===== verification/Samples.thy ===== *)
theory Samples
  imports Database Go_Json
begin

text \<open>
  Concrete values for the parameters that stand for the database server and the JSON codec,
  with the laws the properties assume of them. The properties' witnesses are evaluated on these.
\<close>

section \<open>A server\<close>

definition hex_digit :: "char \<Rightarrow> bool" where
  "hex_digit c =
     (let n = of_char c :: nat in (48 \<le> n \<and> n \<le> 57) \<or> (97 \<le> n \<and> n \<le> 102) \<or> (65 \<le> n \<and> n \<le> 70))"

definition uuid_shape :: "string \<Rightarrow> bool" where
  "uuid_shape s \<longleftrightarrow> length s = 36 \<and>
     (\<forall>i < 36. if i \<in> {8, 13, 18, 23} then s ! i = CHR ''-'' else hex_digit (s ! i))"

definition sample_uuid_in :: "string \<Rightarrow> string option" where
  "sample_uuid_in s = (if uuid_shape s then Some (ToLower s) else None)"

definition sample_pg :: pg_server where
  "sample_pg =
     \<lparr>uuid_in = sample_uuid_in,
      jsonb_in = (\<lambda>s. if s = [] then None else Some s),
      varchar_in = (\<lambda>n s. length s \<le> n),
      timestamptz_in = (\<lambda>t. t div 1000 * 1000),
      pg_text = (\<lambda>code. ''SQLSTATE '' @ code)\<rparr>"

lemma hex_digit_to_lower [simp]: "hex_digit (to_lower c) = hex_digit c"
  by (auto simp: hex_digit_def of_char_to_lower Let_def)

lemma to_lower_hyphen [simp]: "to_lower (CHR ''-'') = CHR ''-''"
  by (simp add: to_lower_def)

lemma uuid_shape_ToLower: "uuid_shape s \<Longrightarrow> uuid_shape (ToLower s)"
  by (auto simp: uuid_shape_def ToLower_def)

lemma sample_uuid_lawful: "uuid_lawful sample_pg"
  by (auto simp: uuid_lawful_def sample_pg_def sample_uuid_in_def uuid_shape_ToLower split: if_splits)

abbreviation uuid_a :: string where
  "uuid_a \<equiv> ''11111111-1111-4111-8111-11111111111a''"

abbreviation uuid_b :: string where
  "uuid_b \<equiv> ''22222222-2222-4222-8222-22222222222b''"

abbreviation uuid_c :: string where
  "uuid_c \<equiv> ''33333333-3333-4333-8333-33333333333c''"

abbreviation uuid_A_upper :: string where
  "uuid_A_upper \<equiv> ''11111111-1111-4111-8111-11111111111A''"

lemma sample_uuid_in_abc [simp]:
  "uuid_in sample_pg uuid_a = Some uuid_a" "uuid_in sample_pg uuid_b = Some uuid_b"
  "uuid_in sample_pg uuid_c = Some uuid_c" "uuid_in sample_pg uuid_A_upper = Some uuid_a"
  "uuid_in sample_pg [] = None"
  by code_simp+

section \<open>A codec\<close>

text \<open>A codec for the empty object, null and strings that need no escape.\<close>

definition sample_marshal :: "json \<Rightarrow> string res" where
  "sample_marshal v =
     (case v of JObject [] \<Rightarrow> Inr ''{}'' | JNull \<Rightarrow> Inr ''null''
      | JString s \<Rightarrow> Inr (CHR 0x22 # s @ [CHR 0x22])
      | _ \<Rightarrow> Inl (ErrorNew ''json: unsupported value''))"

definition sample_unmarshal :: "string \<Rightarrow> json res" where
  "sample_unmarshal s =
     (if s = ''{}'' then Inr (JObject [])
      else if s = ''null'' then Inr JNull
      else if s \<noteq> [] \<and> hd s = CHR 0x22 \<and> last s = CHR 0x22 then Inr (JString (butlast (tl s)))
      else Inl (ErrorNew ''invalid character''))"

definition sample_js :: go_json where
  "sample_js =
     \<lparr>marshal_value = sample_marshal, unmarshal_value = sample_unmarshal,
      marshal_Message = (\<lambda>m. Inr (msg_ID m @ CHR 0x0A # msg_TenantID m @ CHR 0x0A # msg_Payload m)),
      unmarshal_Message = (\<lambda>s.
        let a = takeWhile (\<lambda>c. c \<noteq> CHR 0x0A) s; s1 = tl (dropWhile (\<lambda>c. c \<noteq> CHR 0x0A) s);
            b = takeWhile (\<lambda>c. c \<noteq> CHR 0x0A) s1; s2 = tl (dropWhile (\<lambda>c. c \<noteq> CHR 0x0A) s1)
        in if s = [] then Inl (ErrorNew ''unexpected end of JSON input'')
           else Inr \<lparr>msg_ID = a, msg_TenantID = b, msg_Payload = s2, msg_Timestamp = 0\<rparr>)\<rparr>"

end
