(* ===== verification/Amqp.thy ===== *)
theory Amqp
  imports Samples
begin

text \<open>
  The AMQP client library (\<^verbatim>\<open>github.com/streadway/amqp\<close>) and the broker behind it, as a
  parameter: a record of the calls the program makes, over a type \<open>'w\<close> of broker states, with
  connections and channels as numbers. What the properties rely on is the predicate
  \<open>broker_lawful\<close>: the documented effect of the calls on the topology (exchanges, queues,
  bindings), seen through a function \<open>view\<close>. The two functions of
  \<^verbatim>\<open>internal/rabbitmq/connection.go\<close> that declare and delete a tenant's queues are here too.
\<close>

datatype header_value = HInt32 int | HString string | HOther

type_synonym table = "string \<rightharpoonup> header_value"

record Publishing =
  pb_ContentType :: string
  pb_Body :: string
  pb_MessageId :: string
  pb_Headers :: table

record 'w amqp =
  am_Dial :: "string \<Rightarrow> 'w \<Rightarrow> 'w \<times> nat res"
  am_IsClosed :: "nat \<Rightarrow> 'w \<Rightarrow> bool"
  am_ConnClose :: "nat \<Rightarrow> 'w \<Rightarrow> 'w \<times> unit res"
  am_Channel :: "nat \<Rightarrow> 'w \<Rightarrow> 'w \<times> nat res"
  am_Close :: "nat \<Rightarrow> 'w \<Rightarrow> 'w"
  am_ExchangeDeclare :: "nat \<Rightarrow> string \<Rightarrow> string \<Rightarrow> bool \<Rightarrow> bool \<Rightarrow> bool \<Rightarrow> bool \<Rightarrow> 'w \<Rightarrow> 'w \<times> unit res"
  am_QueueDeclare :: "nat \<Rightarrow> string \<Rightarrow> bool \<Rightarrow> bool \<Rightarrow> bool \<Rightarrow> bool \<Rightarrow> table \<Rightarrow> 'w \<Rightarrow> 'w \<times> unit res"
  am_QueueBind :: "nat \<Rightarrow> string \<Rightarrow> string \<Rightarrow> string \<Rightarrow> bool \<Rightarrow> 'w \<Rightarrow> 'w \<times> unit res"
  am_QueueDelete :: "nat \<Rightarrow> string \<Rightarrow> bool \<Rightarrow> bool \<Rightarrow> bool \<Rightarrow> 'w \<Rightarrow> 'w \<times> unit res"
  am_ExchangeDelete :: "nat \<Rightarrow> string \<Rightarrow> bool \<Rightarrow> bool \<Rightarrow> 'w \<Rightarrow> 'w \<times> unit res"
  am_Publish :: "nat \<Rightarrow> string \<Rightarrow> string \<Rightarrow> bool \<Rightarrow> bool \<Rightarrow> Publishing \<Rightarrow> 'w \<Rightarrow> 'w \<times> unit res"
  am_Tx :: "nat \<Rightarrow> 'w \<Rightarrow> 'w \<times> unit res"
  am_TxCommit :: "nat \<Rightarrow> 'w \<Rightarrow> 'w \<times> unit res"
  am_TxRollback :: "nat \<Rightarrow> 'w \<Rightarrow> 'w"

section \<open>Topology\<close>

record topology =
  exchanges :: "string \<rightharpoonup> string"
  queues :: "string \<rightharpoonup> table"
  bindings :: "(string \<times> string \<times> string) set" \<comment> \<open>queue, key, exchange\<close>

text \<open>
  A call that reports success has its effect and no other; a call that fails, opening or closing
  a channel, and the transaction calls leave the topology alone.
\<close>

definition takes_effect ::
  "('w \<Rightarrow> topology) \<Rightarrow> (topology \<Rightarrow> topology) \<Rightarrow> 'w \<Rightarrow> 'w \<times> 'a res \<Rightarrow> bool" where
  "takes_effect view f w p \<longleftrightarrow> view (fst p) = (if isl (snd p) then view w else f (view w))"

definition add_exchange :: "string \<Rightarrow> string \<Rightarrow> topology \<Rightarrow> topology" where
  "add_exchange n k t = t\<lparr>exchanges := (exchanges t)(n \<mapsto> k)\<rparr>"

definition add_queue :: "string \<Rightarrow> table \<Rightarrow> topology \<Rightarrow> topology" where
  "add_queue n args t = t\<lparr>queues := (queues t)(n \<mapsto> args)\<rparr>"

definition add_binding :: "string \<Rightarrow> string \<Rightarrow> string \<Rightarrow> topology \<Rightarrow> topology" where
  "add_binding q k x t = t\<lparr>bindings := insert (q, k, x) (bindings t)\<rparr>"

definition del_queue :: "string \<Rightarrow> topology \<Rightarrow> topology" where
  "del_queue n t =
     t\<lparr>queues := (queues t)(n := None), bindings := {z \<in> bindings t. fst z \<noteq> n}\<rparr>"

definition del_exchange :: "string \<Rightarrow> topology \<Rightarrow> topology" where
  "del_exchange n t =
     t\<lparr>exchanges := (exchanges t)(n := None), bindings := {z \<in> bindings t. snd (snd z) \<noteq> n}\<rparr>"

definition broker_lawful :: "'w amqp \<Rightarrow> ('w \<Rightarrow> topology) \<Rightarrow> bool" where
  "broker_lawful am view \<longleftrightarrow>
     (\<forall>cn w. view (fst (am_Channel am cn w)) = view w) \<and>
     (\<forall>ch w. view (am_Close am ch w) = view w) \<and>
     (\<forall>ch n k a b c e w. takes_effect view (add_exchange n k) w (am_ExchangeDeclare am ch n k a b c e w)) \<and>
     (\<forall>ch n a b c e t w. takes_effect view (add_queue n t) w (am_QueueDeclare am ch n a b c e t w)) \<and>
     (\<forall>ch q k x a w. takes_effect view (add_binding q k x) w (am_QueueBind am ch q k x a w)) \<and>
     (\<forall>ch n a b c w. takes_effect view (del_queue n) w (am_QueueDelete am ch n a b c w)) \<and>
     (\<forall>ch n a b w. takes_effect view (del_exchange n) w (am_ExchangeDelete am ch n a b w))"

lemma takes_effectD:
  "takes_effect view f w (w', Inl e) \<Longrightarrow> view w' = view w"
  "takes_effect view f w (w', Inr x) \<Longrightarrow> view w' = f (view w)"
  by (simp_all add: takes_effect_def)

lemma broker_lawfulD:
  assumes "broker_lawful am view"
  shows "view (fst (am_Channel am cn w)) = view w"
    and "view (am_Close am ch w) = view w"
    and "takes_effect view (add_exchange n k) w (am_ExchangeDeclare am ch n k a b c e w)"
    and "takes_effect view (add_queue n t) w (am_QueueDeclare am ch n a b c e t w)"
    and "takes_effect view (add_binding q k x) w (am_QueueBind am ch q k x a w)"
    and "takes_effect view (del_queue n) w (am_QueueDelete am ch n a b c w)"
    and "takes_effect view (del_exchange n) w (am_ExchangeDelete am ch n a b w)"
  using assms by (simp_all add: broker_lawful_def)

lemma call_effect:
  assumes "broker_lawful am view"
  shows "am_ExchangeDeclare am ch n k a b c e w = (w', Inl er) \<Longrightarrow> view w' = view w"
    and "am_ExchangeDeclare am ch n k a b c e w = (w', Inr u) \<Longrightarrow> view w' = add_exchange n k (view w)"
    and "am_QueueDeclare am ch n a b c e t w = (w', Inl er) \<Longrightarrow> view w' = view w"
    and "am_QueueDeclare am ch n a b c e t w = (w', Inr u) \<Longrightarrow> view w' = add_queue n t (view w)"
    and "am_QueueBind am ch q key x a w = (w', Inl er) \<Longrightarrow> view w' = view w"
    and "am_QueueBind am ch q key x a w = (w', Inr u) \<Longrightarrow> view w' = add_binding q key x (view w)"
    and "am_QueueDelete am ch n a b c w = (w', Inl er) \<Longrightarrow> view w' = view w"
    and "am_QueueDelete am ch n a b c w = (w', Inr u) \<Longrightarrow> view w' = del_queue n (view w)"
    and "am_ExchangeDelete am ch n a b w = (w', Inl er) \<Longrightarrow> view w' = view w"
    and "am_ExchangeDelete am ch n a b w = (w', Inr u) \<Longrightarrow> view w' = del_exchange n (view w)"
  using broker_lawfulD(3-) [OF assms] by (metis takes_effectD)+

text \<open>
  What the queues have received, seen through \<open>got\<close>: opening and closing a channel and declaring
  put no message into any queue.
\<close>

definition quiet :: "'w amqp \<Rightarrow> ('w \<Rightarrow> string \<Rightarrow> Publishing list) \<Rightarrow> bool" where
  "quiet am got \<longleftrightarrow>
     (\<forall>cn w. got (fst (am_Channel am cn w)) = got w) \<and>
     (\<forall>ch w. got (am_Close am ch w) = got w) \<and>
     (\<forall>ch n k a b c e w. got (fst (am_ExchangeDeclare am ch n k a b c e w)) = got w) \<and>
     (\<forall>ch n a b c e t w. got (fst (am_QueueDeclare am ch n a b c e t w)) = got w) \<and>
     (\<forall>ch q k x a w. got (fst (am_QueueBind am ch q k x a w)) = got w)"

lemma quietD:
  assumes "quiet am got"
  shows "am_Channel am cn w = (w', rn) \<Longrightarrow> got w' = got w"
    and "got (am_Close am ch w) = got w"
    and "am_ExchangeDeclare am ch n k a b c e w = (w', r) \<Longrightarrow> got w' = got w"
    and "am_QueueDeclare am ch n a b c e t w = (w', r) \<Longrightarrow> got w' = got w"
    and "am_QueueBind am ch q k x a w = (w', r) \<Longrightarrow> got w' = got w"
  using assms unfolding quiet_def by (metis fst_conv)+

lemmas topology_defs = add_exchange_def add_queue_def add_binding_def del_queue_def del_exchange_def

section \<open>Declaring and deleting a tenant's queues\<close>

text \<open>\<^verbatim>\<open>Duration.Milliseconds\<close> truncates towards zero.\<close>

definition Milliseconds :: "int \<Rightarrow> int" where
  "Milliseconds d = sgn d * (\<bar>d\<bar> div 10 ^ 6)"

definition main_queue_args :: "int \<Rightarrow> string \<Rightarrow> table" where
  "main_queue_args ttl exchangeName =
     (let args = [''x-dead-letter-exchange'' \<mapsto> HString exchangeName]
      in if 0 < ttl then args(''x-message-ttl'' \<mapsto> HInt32 (int32 (Milliseconds ttl))) else args)"

text \<open>
  \<^verbatim>\<open>DeclareTenantQueue\<close> of \<^verbatim>\<open>internal/rabbitmq/connection.go\<close>: the names of the main queue and
  of the dead letter queue, or the first error.
\<close>

definition DeclareTenantQueue ::
  "'w amqp \<Rightarrow> nat \<Rightarrow> string \<Rightarrow> int \<Rightarrow> 'w \<Rightarrow> 'w \<times> (string \<times> string) res" where
  "DeclareTenantQueue am ch tenantID ttl w =
     (let mainQueue = main_queue_name tenantID; exchangeName = dlx_name tenantID;
          dlQueue = dlq_name tenantID in
      case am_ExchangeDeclare am ch exchangeName ''fanout'' True False False False w of
        (w1, Inl e) \<Rightarrow> (w1, Inl (Wrapf ''failed to declare DLX: '' e))
      | (w1, Inr _) \<Rightarrow>
      (case am_QueueDeclare am ch dlQueue True False False False Map.empty w1 of
        (w2, Inl e) \<Rightarrow> (w2, Inl (Wrapf ''failed to declare DLQ: '' e))
      | (w2, Inr _) \<Rightarrow>
      (case am_QueueBind am ch dlQueue [] exchangeName False w2 of
        (w3, Inl e) \<Rightarrow> (w3, Inl (Wrapf ''failed to bind DLQ: '' e))
      | (w3, Inr _) \<Rightarrow>
      (case am_QueueDeclare am ch mainQueue True False False False
              (main_queue_args ttl exchangeName) w3 of
        (w4, Inl e) \<Rightarrow> (w4, Inl (Wrapf ''failed to declare main queue: '' e))
      | (w4, Inr _) \<Rightarrow> (w4, Inr (mainQueue, dlQueue))))))"

definition DeleteTenantQueue ::
  "'w amqp \<Rightarrow> nat \<Rightarrow> string \<Rightarrow> 'w \<Rightarrow> 'w \<times> unit res" where
  "DeleteTenantQueue am ch tenantID w =
     (let mainQueue = main_queue_name tenantID; exchangeName = dlx_name tenantID;
          dlQueue = dlq_name tenantID in
      case am_QueueDelete am ch mainQueue False False False w of
        (w1, Inl e) \<Rightarrow> (w1, Inl (Wrapf ''failed to delete main queue: '' e))
      | (w1, Inr _) \<Rightarrow>
      (case am_QueueDelete am ch dlQueue False False False w1 of
        (w2, Inl e) \<Rightarrow> (w2, Inl (Wrapf ''failed to delete DLQ: '' e))
      | (w2, Inr _) \<Rightarrow>
      (case am_ExchangeDelete am ch exchangeName False False w2 of
        (w3, Inl e) \<Rightarrow> (w3, Inl (Wrapf ''failed to delete DLX: '' e))
      | (w3, Inr _) \<Rightarrow> (w3, Inr ()))))"

text \<open>The part of a topology that belongs to no name of a tenant.\<close>

definition others :: "string \<Rightarrow> topology \<Rightarrow> topology" where
  "others tid t =
     \<lparr>exchanges = (exchanges t)(dlx_name tid := None),
      queues = (queues t)(main_queue_name tid := None, dlq_name tid := None),
      bindings = {z \<in> bindings t. fst z \<noteq> main_queue_name tid \<and> fst z \<noteq> dlq_name tid \<and>
                    snd (snd z) \<noteq> dlx_name tid}\<rparr>"

lemma DeclareTenantQueue_others:
  assumes "broker_lawful am view" "DeclareTenantQueue am ch tid ttl w = (w', r)"
  shows "others tid (view w') = others tid (view w)"
  using assms(2)
  by (auto simp: DeclareTenantQueue_def others_def topology_defs Let_def fun_upd_twist
      dest!: call_effect [OF assms(1)] split: prod.splits sum.splits)

lemma DeclareTenantQueue_success:
  assumes "broker_lawful am view" "DeclareTenantQueue am ch tid ttl w = (w', Inr (main, dlq))"
  shows "main = main_queue_name tid \<and> dlq = dlq_name tid \<and>
    exchanges (view w') (dlx_name tid) = Some ''fanout'' \<and>
    queues (view w') dlq = Some Map.empty \<and> (dlq, [], dlx_name tid) \<in> bindings (view w') \<and>
    queues (view w') main = Some (main_queue_args ttl (dlx_name tid))"
  using assms(2)
  by (auto simp: DeclareTenantQueue_def topology_defs Let_def
      dest!: call_effect [OF assms(1)] split: prod.splits sum.splits)

lemma DeclareTenantQueue_quiet:
  assumes "quiet am got" "DeclareTenantQueue am ch tid ttl w = (w', r)"
  shows "got w' = got w"
  using assms(2)
  by (auto simp: DeclareTenantQueue_def Let_def dest!: quietD(3-5) [OF assms(1)] split: prod.splits sum.splits)

section \<open>A broker in memory\<close>

text \<open>
  A broker that accepts everything, to evaluate the witnesses on: a topology, the messages of
  each queue, the buffer of the open transaction, and the next channel number.
\<close>

record mem_broker =
  mb_topology :: topology
  mb_messages :: "string \<Rightarrow> Publishing list"
  mb_tx :: "(string \<times> Publishing) list option"
  mb_next :: nat

definition mem_deliver :: "string \<Rightarrow> Publishing \<Rightarrow> mem_broker \<Rightarrow> mem_broker" where
  "mem_deliver q p b =
     (if queues (mb_topology b) q = None then b
      else b\<lparr>mb_messages := (mb_messages b)(q := mb_messages b q @ [p])\<rparr>)"

definition mem_amqp :: "mem_broker amqp" where
  "mem_amqp =
     \<lparr>am_Dial = (\<lambda>url b. (b, Inr 0)),
      am_IsClosed = (\<lambda>cn b. False),
      am_ConnClose = (\<lambda>cn b. (b, Inr ())),
      am_Channel = (\<lambda>cn b. (b\<lparr>mb_next := Suc (mb_next b)\<rparr>, Inr (mb_next b))),
      am_Close = (\<lambda>ch b. b\<lparr>mb_tx := None\<rparr>),
      am_ExchangeDeclare = (\<lambda>ch n k _ _ _ _ b. (b\<lparr>mb_topology := (mb_topology b)
         \<lparr>exchanges := (exchanges (mb_topology b))(n \<mapsto> k)\<rparr>\<rparr>, Inr ())),
      am_QueueDeclare = (\<lambda>ch n _ _ _ _ t b. (b\<lparr>mb_topology := (mb_topology b)
         \<lparr>queues := (queues (mb_topology b))(n \<mapsto> t)\<rparr>\<rparr>, Inr ())),
      am_QueueBind = (\<lambda>ch q k x _ b. (b\<lparr>mb_topology := (mb_topology b)
         \<lparr>bindings := insert (q, k, x) (bindings (mb_topology b))\<rparr>\<rparr>, Inr ())),
      am_QueueDelete = (\<lambda>ch n _ _ _ b. (b\<lparr>mb_topology := (mb_topology b)
         \<lparr>queues := (queues (mb_topology b))(n := None),
          bindings := {z \<in> bindings (mb_topology b). fst z \<noteq> n}\<rparr>\<rparr>, Inr ())),
      am_ExchangeDelete = (\<lambda>ch n _ _ b. (b\<lparr>mb_topology := (mb_topology b)
         \<lparr>exchanges := (exchanges (mb_topology b))(n := None),
          bindings := {z \<in> bindings (mb_topology b). snd (snd z) \<noteq> n}\<rparr>\<rparr>, Inr ())),
      am_Publish = (\<lambda>ch x k _ _ p b.
         (case mb_tx b of Some ps \<Rightarrow> b\<lparr>mb_tx := Some (ps @ [(k, p)])\<rparr> | None \<Rightarrow> mem_deliver k p b, Inr ())),
      am_Tx = (\<lambda>ch b. (b\<lparr>mb_tx := Some []\<rparr>, Inr ())),
      am_TxCommit = (\<lambda>ch b.
         (case mb_tx b of None \<Rightarrow> b
          | Some ps \<Rightarrow> (fold (\<lambda>(k, p). mem_deliver k p) ps b)\<lparr>mb_tx := Some []\<rparr>, Inr ())),
      am_TxRollback = (\<lambda>ch b. b\<lparr>mb_tx := Some []\<rparr>)\<rparr>"

definition mem_empty :: mem_broker where
  "mem_empty =
     \<lparr>mb_topology = \<lparr>exchanges = Map.empty, queues = Map.empty, bindings = {}\<rparr>,
      mb_messages = (\<lambda>q. []), mb_tx = None, mb_next = 0\<rparr>"

lemma mem_amqp_lawful: "broker_lawful mem_amqp mb_topology"
  by (auto simp: broker_lawful_def takes_effect_def topology_defs mem_amqp_def)

lemma mem_amqp_quiet: "quiet mem_amqp mb_messages"
  by (simp add: quiet_def mem_amqp_def)

lemma mem_declare: "\<exists>w'. DeclareTenantQueue mem_amqp ch tid ttl w = (w', Inr (main_queue_name tid, dlq_name tid))"
  by (simp add: DeclareTenantQueue_def mem_amqp_def Let_def)

lemma mem_delete: "\<exists>w'. DeleteTenantQueue mem_amqp ch tid w = (w', Inr ())"
  by (simp add: DeleteTenantQueue_def mem_amqp_def Let_def)

section \<open>Properties\<close>

text \<open>
  Deleting a tenant's queues. On success neither queue, nor the exchange, nor any binding of
  theirs is left, and what belongs to other names is as before: after a declaration, deleting
  brings the topology back to what it was without the tenant.
\<close>

lemma DeleteTenantQueue_topology:
  assumes "broker_lawful am view" "DeclareTenantQueue am ch tid ttl w = (w1, r)"
    "DeleteTenantQueue am ch' tid w1 = (w2, Inr ())"
  shows "view w2 = others tid (view w)"
proof -
  have "others tid (view w1) = others tid (view w)"
    by (rule DeclareTenantQueue_others [OF assms(1,2)])
  moreover have "view w2 = others tid (view w1)"
    using assms(3)
    by (auto simp: DeleteTenantQueue_def others_def topology_defs Let_def fun_upd_twist
        dest!: call_effect [OF assms(1)] split: prod.splits sum.splits)
  ultimately show ?thesis by simp
qed

text \<open>
  The queue's time to live. A configured duration below \<open>2^31\<close> milliseconds reaches the
  broker in milliseconds; from \<open>2^31\<close> to just below \<open>2^32\<close> milliseconds the conversion to
  \<^verbatim>\<open>int32\<close> makes it negative.
\<close>

lemma main_queue_ttl:
  assumes "0 < ms" "ms < 2 ^ 32"
  shows "main_queue_args (ms * 10 ^ 6) x ''x-message-ttl'' =
    Some (HInt32 (if ms < 2 ^ 31 then ms else ms - 2 ^ 32))"
proof -
  have m: "Milliseconds (ms * 10 ^ 6) = ms" using assms by (simp add: Milliseconds_def sgn_mult)
  have "int32 ms = (if ms < 2 ^ 31 then ms else ms - 2 ^ 32)"
  proof (cases "ms < 2 ^ 31")
    case False
    have "(ms - 2 ^ 32) mod 2 ^ 32 = ms mod 2 ^ 32" by (rule minus_mod_self2)
    then have "(word_of_int (ms - 2 ^ 32) :: 32 word) = word_of_int ms"
      by (simp only: word_of_int_eq_iff take_bit_eq_mod) simp
    then have "int32 ms = int32 (ms - 2 ^ 32)" by (simp only: int32_def)
    also have "\<dots> = ms - 2 ^ 32" using False assms by (intro int32_id) auto
    finally show ?thesis using False by simp
  qed (use assms in \<open>auto intro!: int32_id\<close>)
  with m assms show ?thesis by (simp add: main_queue_args_def Let_def del: mult.commute)
qed

end
