(* ===== verification/Worker_Pool.thy ===== *)
theory Worker_Pool
  imports "HOL-Library.Multiset" Go_Chan Backoff Samples Amqp
begin

text \<open>
  \<^verbatim>\<open>internal/tenant/worker_pool.go\<close>. First what one worker does with one item
  (\<open>handleMessage\<close>, \<open>processWithRetry\<close>, \<open>processWork\<close>, \<open>moveToDeadLetter\<close>), as
  state-passing functions on the database; then the pool itself, whose goroutines are an
  explicit list of states, with one function per method and a step relation for their
  interleavings.
\<close>

section \<open>One item\<close>

record WorkItem =
  wi_MessageID :: string
  wi_TenantID :: string
  wi_Payload :: string
  wi_RetryCount :: int

text \<open>
  What the environment decides in one attempt: the fate of the two statements, the server's
  clock at each, and the two readings of the process clock.
\<close>

record attempt_env =
  ae_upsert :: fault
  ae_upsert_now :: time
  ae_nano :: nat
  ae_complete :: fault
  ae_complete_now :: time
  ae_jitter_nano :: nat

definition handleMessage ::
  "go_json \<Rightarrow> pg_server \<Rightarrow> attempt_env \<Rightarrow> WorkItem \<Rightarrow> db \<Rightarrow> db \<times> go_error option" where
  "handleMessage js pg ae item d =
     (case unmarshal_object js (wi_Payload item) of
        Inl e \<Rightarrow> (d, Some (Wrapf ''failed to unmarshal payload: '' e))
      | Inr _ \<Rightarrow>
          (case with_fault (ae_upsert ae)
                  (sql_upsert_processing pg (ae_upsert_now ae) (wi_MessageID item)
                    (wi_TenantID item) (wi_Payload item) (wi_RetryCount item)) d of
             (d1, Inl e) \<Rightarrow> (d1, Some (Wrapf ''failed to update message status: '' e))
           | (d1, Inr _) \<Rightarrow>
               if ae_nano ae mod 10 = 0
               then (d1, Some (ErrorNew ''simulated processing failure''))
               else
                 (case with_fault (ae_complete ae)
                         (sql_set_status pg (ae_complete_now ae) ''completed''
                           (wi_MessageID item) (wi_TenantID item)) d1 of
                    (d2, Inl e) \<Rightarrow> (d2, Some (Wrapf ''failed to mark message as completed: '' e))
                  | (d2, Inr _) \<Rightarrow> (d2, None))))"

text \<open>
  The loop of \<^verbatim>\<open>processWithRetry\<close> from a given attempt on. The item is the callee's own
  copy: \<^verbatim>\<open>item.RetryCount = attempt + 1\<close> is seen by the next attempt and not by the caller.
  The list is the durations slept.
\<close>

function retry_loop ::
  "go_json \<Rightarrow> pg_server \<Rightarrow> int \<Rightarrow> (nat \<Rightarrow> attempt_env) \<Rightarrow> int \<Rightarrow> nat \<Rightarrow> WorkItem \<Rightarrow> db
     \<Rightarrow> db \<times> go_error option \<times> int list" where
  "retry_loop js pg ovf env maxRetry attempt item d =
     (if maxRetry < int attempt then (d, Some (ErrorNew ''max retries exceeded''), [])
      else
        (case handleMessage js pg (env attempt) item d of
           (d1, None) \<Rightarrow> (d1, None, [])
         | (d1, Some e) \<Rightarrow>
             let item' = item\<lparr>wi_RetryCount := int attempt + 1\<rparr> in
             if maxRetry < wi_RetryCount item' then (d1, Some e, [])
             else
               let pause = backoffDuration ovf attempt (ae_jitter_nano (env attempt));
                   (d2, r, ps) = retry_loop js pg ovf env maxRetry (Suc attempt) item' d1
               in (d2, r, pause # ps)))"
  by pat_completeness auto
termination
  by (relation "measure (\<lambda>(js, pg, ovf, env, maxRetry, attempt, item, d).
        nat (maxRetry + 1 - int attempt))") auto

declare retry_loop.simps [simp del]

definition processWithRetry ::
  "go_json \<Rightarrow> pg_server \<Rightarrow> int \<Rightarrow> (nat \<Rightarrow> attempt_env) \<Rightarrow> int \<Rightarrow> WorkItem \<Rightarrow> db
     \<Rightarrow> db \<times> go_error option \<times> int list" where
  "processWithRetry js pg ovf env maxRetry item d = retry_loop js pg ovf env maxRetry 0 item d"

text \<open>The fate of the two statements of \<^verbatim>\<open>moveToDeadLetter\<close>; both errors are only logged.\<close>

record dl_env =
  dl_insert :: fault
  dl_insert_now :: time
  dl_update :: fault
  dl_update_now :: time

definition moveToDeadLetter ::
  "pg_server \<Rightarrow> dl_env \<Rightarrow> WorkItem \<Rightarrow> go_error \<Rightarrow> db \<Rightarrow> db" where
  "moveToDeadLetter pg de item processErr d =
     (let d1 = fst (with_fault (dl_insert de)
                 (sql_insert_dead_letter pg (dl_insert_now de) (wi_MessageID item)
                   (wi_TenantID item) (wi_Payload item) (Error processErr) (wi_RetryCount item)) d)
      in fst (with_fault (dl_update de)
           (sql_set_status pg (dl_update_now de) ''failed'' (wi_MessageID item)
             (wi_TenantID item)) d1))"

definition processWork ::
  "go_json \<Rightarrow> pg_server \<Rightarrow> int \<Rightarrow> (nat \<Rightarrow> attempt_env) \<Rightarrow> dl_env \<Rightarrow> int \<Rightarrow> WorkItem \<Rightarrow> db
     \<Rightarrow> db \<times> go_error option \<times> int list" where
  "processWork js pg ovf env de maxRetry item d =
     (case processWithRetry js pg ovf env maxRetry item d of
        (d1, None, ps) \<Rightarrow> (d1, None, ps)
      | (d1, Some e, ps) \<Rightarrow>
          if maxRetry \<le> wi_RetryCount item
          then (moveToDeadLetter pg de item e d1, Some e, ps)
          else (d1, Some e, ps))"

section \<open>What one item may touch\<close>

text \<open>The key of the row that the server makes of an item's two identifiers.\<close>

definition row_key :: "pg_server \<Rightarrow> string \<Rightarrow> string \<Rightarrow> string \<times> string" where
  "row_key pg mid tid = (the (uuid_in pg mid), the (uuid_in pg tid))"

definition touches_only :: "string \<times> string \<Rightarrow> db \<Rightarrow> db \<Rightarrow> bool" where
  "touches_only k d d' \<longleftrightarrow> tenants d' = tenants d \<and> users d' = users d \<and>
     delete_by m_key k (messages d') = delete_by m_key k (messages d)"

lemma touches_only_refl [simp]: "touches_only k d d"
  by (simp add: touches_only_def)

lemma touches_only_trans: "touches_only k d e \<Longrightarrow> touches_only k e f \<Longrightarrow> touches_only k d f"
  by (simp add: touches_only_def)

lemma filter_other_tenants:
  "filter (\<lambda>r. m_tenant_id r \<noteq> snd k) (delete_by m_key k rs) = filter (\<lambda>r. m_tenant_id r \<noteq> snd k) rs"
  by (induction rs) (auto simp: delete_by_def)

lemma touches_only_other_tenants:
  assumes "touches_only k d d'"
  shows "filter (\<lambda>r. m_tenant_id r \<noteq> snd k) (messages d') = filter (\<lambda>r. m_tenant_id r \<noteq> snd k) (messages d)"
  using assms filter_other_tenants [of k "messages d"] filter_other_tenants [of k "messages d'"]
  by (simp add: touches_only_def)

lemma delete_by_update_by:
  "(\<And>r. key (f r) = key r) \<Longrightarrow> delete_by key k (update_by key k f rs) = delete_by key k rs"
  by (induction rs) (auto simp: delete_by_def update_by_def)

lemma delete_by_append_same: "key r = k \<Longrightarrow> delete_by key k (rs @ [r]) = delete_by key k rs"
  by (simp add: delete_by_def)

lemma upsert_touches:
  "touches_only (row_key pg mid tid) d (fst (sql_upsert_processing pg now mid tid p n d))"
  by (auto simp: sql_upsert_processing_def touches_only_def row_key_def delete_by_update_by
      delete_by_append_same split: option.splits)

lemma set_status_touches:
  "touches_only (row_key pg mid tid) d (fst (sql_set_status pg now st mid tid d))"
  by (auto simp: sql_set_status_def touches_only_def row_key_def delete_by_update_by
      split: option.splits)

lemma dead_letter_touches:
  "touches_only k d (fst (sql_insert_dead_letter pg now mid tid p why n d))"
  by (auto simp: sql_insert_dead_letter_def touches_only_def split: option.splits)

lemma set_status_dead_letters [frame_simps]:
  "dead_letter_messages (fst (sql_set_status pg now st mid tid d)) = dead_letter_messages d"
  by (auto simp: sql_set_status_def split: option.splits)

lemma upsert_dead_letters [frame_simps]:
  "dead_letter_messages (fst (sql_upsert_processing pg now mid tid p n d)) = dead_letter_messages d"
  by (auto simp: sql_upsert_processing_def split: option.splits)

lemma with_fault_touches:
  "touches_only k d (fst (f d)) \<Longrightarrow> touches_only k d (fst (with_fault flt f d))"
  by (cases flt) (auto split: prod.splits sum.splits)

lemma with_fault_dead_letters:
  "dead_letter_messages (fst (f d)) = dead_letter_messages d \<Longrightarrow>
   dead_letter_messages (fst (with_fault flt f d)) = dead_letter_messages d"
  by (cases flt) (auto split: prod.splits sum.splits)

text \<open>
  An induction over the statements an attempt runs: a property of databases that both of its
  statements keep is kept by \<open>handleMessage\<close>, by the retry loop and by \<open>processWithRetry\<close>.
\<close>

definition attempt_keeps :: "pg_server \<Rightarrow> WorkItem \<Rightarrow> (db \<Rightarrow> bool) \<Rightarrow> bool" where
  "attempt_keeps pg item P \<longleftrightarrow>
     (\<forall>flt now n d. P d \<longrightarrow> P (fst (with_fault flt (sql_upsert_processing pg now
        (wi_MessageID item) (wi_TenantID item) (wi_Payload item) n) d))) \<and>
     (\<forall>flt now d. P d \<longrightarrow> P (fst (with_fault flt (sql_set_status pg now ''completed''
        (wi_MessageID item) (wi_TenantID item)) d)))"

lemma attempt_keeps_RetryCount [simp]:
  "attempt_keeps pg (item\<lparr>wi_RetryCount := n\<rparr>) P = attempt_keeps pg item P"
  by (simp add: attempt_keeps_def)

lemma handleMessage_keeps:
  assumes "attempt_keeps pg item P" "P d"
  shows "P (fst (handleMessage js pg ae item d))"
proof -
  define up where "up = with_fault (ae_upsert ae) (sql_upsert_processing pg (ae_upsert_now ae)
    (wi_MessageID item) (wi_TenantID item) (wi_Payload item) (wi_RetryCount item)) d"
  from assms have up: "P (fst up)" by (auto simp: attempt_keeps_def up_def)
  then have co: "P (fst (with_fault flt (sql_set_status pg now ''completed''
      (wi_MessageID item) (wi_TenantID item)) (fst up)))" for flt now
    using assms(1) by (auto simp: attempt_keeps_def)
  show ?thesis
    using assms(2) up co [of "ae_complete ae" "ae_complete_now ae"]
    by (auto simp: handleMessage_def up_def [symmetric] split: sum.splits prod.splits)
qed

lemma retry_loop_keeps:
  "attempt_keeps pg item P \<Longrightarrow> P d \<Longrightarrow>
     P (fst (retry_loop js pg ovf env maxRetry attempt item d))"
proof (induction js pg ovf env maxRetry attempt item d rule: retry_loop.induct)
  case (1 js pg ovf env maxRetry attempt item d)
  have h: "P (fst (handleMessage js pg (env attempt) item d))"
    using "1.prems" by (rule handleMessage_keeps)
  show ?case
  proof (cases "maxRetry < int attempt")
    case True
    with "1.prems" show ?thesis by (simp add: retry_loop.simps [of js pg ovf env maxRetry attempt])
  next
    case False
    show ?thesis
      using "1.IH" [OF False] "1.prems" h
      by (fastforce simp: retry_loop.simps [of js pg ovf env maxRetry attempt] False Let_def
          split: prod.splits option.splits)
  qed
qed

lemma processWithRetry_keeps:
  "attempt_keeps pg item P \<Longrightarrow> P d \<Longrightarrow> P (fst (processWithRetry js pg ovf env maxRetry item d))"
  by (simp add: processWithRetry_def retry_loop_keeps)

lemma attempt_keeps_touches:
  "attempt_keeps pg item (touches_only (row_key pg (wi_MessageID item) (wi_TenantID item)) d0)"
  unfolding attempt_keeps_def
  by (blast intro: touches_only_trans with_fault_touches upsert_touches set_status_touches)

lemma attempt_keeps_dead_letters:
  "attempt_keeps pg item (\<lambda>d. dead_letter_messages d = dead_letter_messages d0)"
  unfolding attempt_keeps_def by (simp add: with_fault_dead_letters frame_simps)

lemma attempt_keeps_db_ok: "uuid_lawful pg \<Longrightarrow> attempt_keeps pg item (db_ok pg)"
  unfolding attempt_keeps_def
  by (intro conjI allI impI; rule with_fault_keeps)
    (auto intro!: sql_ok simp: message_statuses_def)

lemma moveToDeadLetter_touches:
  "touches_only (row_key pg (wi_MessageID item) (wi_TenantID item)) d
     (moveToDeadLetter pg de item e d)"
  unfolding moveToDeadLetter_def Let_def
  by (rule touches_only_trans; rule with_fault_touches) (rule dead_letter_touches set_status_touches)+

lemma moveToDeadLetter_ok: "db_ok pg d \<Longrightarrow> db_ok pg (moveToDeadLetter pg de item e d)"
  unfolding moveToDeadLetter_def Let_def
  by (rule with_fault_keeps; (rule with_fault_keeps)?)
    (auto intro!: sql_ok simp: message_statuses_def)

lemma processWork_cases:
  "fst (processWork js pg ovf env de maxRetry item d) =
     (let (d1, r, ps) = processWithRetry js pg ovf env maxRetry item d in
      case r of None \<Rightarrow> d1
      | Some e \<Rightarrow> if maxRetry \<le> wi_RetryCount item then moveToDeadLetter pg de item e d1 else d1)"
  by (auto simp: processWork_def split: prod.splits option.splits)

section \<open>Retrying\<close>

text \<open>An item the server can store, and an attempt in which nothing goes wrong.\<close>

definition item_ok :: "go_json \<Rightarrow> pg_server \<Rightarrow> WorkItem \<Rightarrow> bool" where
  "item_ok js pg item \<longleftrightarrow> uuid_in pg (wi_MessageID item) \<noteq> None \<and>
     uuid_in pg (wi_TenantID item) \<noteq> None \<and> jsonb_in pg (wi_Payload item) \<noteq> None \<and>
     \<not> isl (unmarshal_object js (wi_Payload item)) \<and> int4_ok (wi_RetryCount item)"

definition good_attempt :: "attempt_env \<Rightarrow> bool" where
  "good_attempt ae \<longleftrightarrow> ae_upsert ae = Delivered \<and> ae_nano ae mod 10 \<noteq> 0 \<and> ae_complete ae = Delivered"

abbreviation item_row :: "pg_server \<Rightarrow> WorkItem \<Rightarrow> db \<Rightarrow> message_row option" where
  "item_row pg item d \<equiv> find_by m_key (row_key pg (wi_MessageID item) (wi_TenantID item)) (messages d)"

lemma upsert_row:
  "sql_upsert_processing pg now mid tid p n d = (d', Inr ()) \<Longrightarrow>
     \<exists>r. find_by m_key (row_key pg mid tid) (messages d') = Some r \<and>
       m_status r = ''processing'' \<and> m_retry_count r = n"
  by (auto simp: sql_upsert_processing_def row_key_def find_by_update_by
      dest!: find_by_exists [of _ m_key] split: option.splits if_splits)

lemma set_status_row:
  "sql_set_status pg now st mid tid d = (d', Inr ()) \<Longrightarrow>
   find_by m_key (row_key pg mid tid) (messages d) = Some r \<Longrightarrow>
   find_by m_key (row_key pg mid tid) (messages d') = Some (r\<lparr>m_status := st, m_updated_at := now\<rparr>)"
  by (auto simp: sql_set_status_def row_key_def find_by_update_by split: option.splits)

lemma handleMessage_success:
  assumes "handleMessage js pg ae item d = (d', None)"
  shows "\<exists>r. item_row pg item d' = Some r \<and> m_status r = ''completed'' \<and>
    m_retry_count r = wi_RetryCount item"
proof -
  from assms obtain d1 where
    up: "sql_upsert_processing pg (ae_upsert_now ae) (wi_MessageID item) (wi_TenantID item)
           (wi_Payload item) (wi_RetryCount item) d = (d1, Inr ())" and
    co: "sql_set_status pg (ae_complete_now ae) ''completed'' (wi_MessageID item)
           (wi_TenantID item) d1 = (d', Inr ())"
    by (auto simp: handleMessage_def with_fault_Inr split: sum.splits prod.splits if_splits)
  from upsert_row [OF up] obtain r where "item_row pg item d1 = Some r"
    "m_retry_count r = wi_RetryCount item" by blast
  with set_status_row [OF co] show ?thesis by simp
qed

lemma handleMessage_good:
  assumes "item_ok js pg item" "good_attempt ae"
  shows "\<exists>d'. handleMessage js pg ae item d = (d', None)"
  using assms
  by (auto simp: handleMessage_def item_ok_def good_attempt_def sql_upsert_processing_def
      sql_set_status_def split: sum.splits option.splits)

lemma retry_loop_pauses:
  "retry_loop js pg ovf env maxRetry attempt item d = (d', r, ps) \<Longrightarrow>
     ps = map (\<lambda>i. backoffDuration ovf i (ae_jitter_nano (env i))) [attempt ..< attempt + length ps] \<and>
     (int attempt \<le> maxRetry \<longrightarrow> int (attempt + length ps) \<le> maxRetry \<and>
        (r \<noteq> None \<longrightarrow> int (attempt + length ps) = maxRetry))"
proof (induction js pg ovf env maxRetry attempt item d arbitrary: d' r ps rule: retry_loop.induct)
  case (1 js pg ovf env maxRetry attempt item d)
  obtain d1 h where h: "handleMessage js pg (env attempt) item d = (d1, h)" by force
  define item' where "item' = item\<lparr>wi_RetryCount := int attempt + 1\<rparr>"
  consider "maxRetry < int attempt" | "int attempt \<le> maxRetry" "h = None"
    | e where "int attempt = maxRetry" "h = Some e"
    | e where "int attempt < maxRetry" "h = Some e" by (cases h) fastforce+
  then show ?case
  proof cases
    case 4
    obtain d2 r2 ps2 where rec:
      "retry_loop js pg ovf env maxRetry (Suc attempt) item' d1 = (d2, r2, ps2)"
      by (rule prod_cases3)
    from "1.prems" 4 h rec
    have eq: "d' = d2" "r = r2" "ps = backoffDuration ovf attempt (ae_jitter_nano (env attempt)) # ps2"
      by (auto simp: retry_loop.simps [of js pg ovf env maxRetry attempt] item'_def Let_def)
    from "1.IH" [OF _ h [symmetric] _ item'_def _ refl, of _ d2 r2 ps2] 4 rec
    have IH: "ps2 = map (\<lambda>i. backoffDuration ovf i (ae_jitter_nano (env i)))
        [Suc attempt ..< Suc attempt + length ps2]"
      "int (Suc attempt + length ps2) \<le> maxRetry"
      "r2 \<noteq> None \<longrightarrow> int (Suc attempt + length ps2) = maxRetry"
      by (auto simp: item'_def)
    have "[attempt ..< attempt + length ps] = attempt # [Suc attempt ..< Suc attempt + length ps2]"
      by (simp add: eq upt_conv_Cons del: upt_Suc)
    with IH(1) have "map (\<lambda>i. backoffDuration ovf i (ae_jitter_nano (env i)))
        [attempt ..< attempt + length ps] = ps"
      by (simp add: eq del: upt_Suc)
    with IH(2,3) eq show ?thesis by simp
  qed (use "1.prems" h in
      \<open>auto simp: retry_loop.simps [of js pg ovf env maxRetry attempt] Let_def\<close>)
qed

lemma retry_loop_unfold:
  "int attempt \<le> maxRetry \<Longrightarrow> handleMessage js pg (env attempt) item d = (d1, None) \<Longrightarrow>
     retry_loop js pg ovf env maxRetry attempt item d = (d1, None, [])"
  "int attempt < maxRetry \<Longrightarrow> handleMessage js pg (env attempt) item d = (d1, Some e) \<Longrightarrow>
     retry_loop js pg ovf env maxRetry attempt item d =
       (let (d2, r, ps) = retry_loop js pg ovf env maxRetry (Suc attempt)
              (item\<lparr>wi_RetryCount := int attempt + 1\<rparr>) d1
        in (d2, r, backoffDuration ovf attempt (ae_jitter_nano (env attempt)) # ps))"
  "int attempt = maxRetry \<Longrightarrow> handleMessage js pg (env attempt) item d = (d1, Some e) \<Longrightarrow>
     retry_loop js pg ovf env maxRetry attempt item d = (d1, Some e, [])"
  by (simp_all add: retry_loop.simps [of js pg ovf env maxRetry attempt] Let_def)

text \<open>
  One attempt that works is enough: the loop reaches it, whatever happened before.
\<close>

lemma retry_loop_reaches:
  assumes "item_ok js pg item" "good_attempt (env n)" "int n \<le> maxRetry" "maxRetry < 2 ^ 31"
    "attempt \<le> n"
  shows "\<exists>d' ps. retry_loop js pg ovf env maxRetry attempt item d = (d', None, ps) \<and>
    length ps \<le> n - attempt"
  using assms
proof (induction "n - attempt" arbitrary: attempt item d)
  case 0
  then have "attempt = n" by simp
  with 0 obtain d' where "handleMessage js pg (env attempt) item d = (d', None)"
    using handleMessage_good by blast
  with 0 \<open>attempt = n\<close> show ?case by (simp add: retry_loop_unfold(1))
next
  case (Suc m)
  then have lt: "attempt < n" by simp
  obtain d1 h where h: "handleMessage js pg (env attempt) item d = (d1, h)" by force
  show ?case
  proof (cases h)
    case None
    with h Suc.prems lt show ?thesis by (simp add: retry_loop_unfold(1))
  next
    case (Some e)
    let ?item = "item\<lparr>wi_RetryCount := int attempt + 1\<rparr>"
    from Suc.prems lt have "item_ok js pg ?item" by (simp add: item_ok_def int4_ok_def)
    with Suc.hyps Suc.prems lt obtain d' ps where
      "retry_loop js pg ovf env maxRetry (Suc attempt) ?item d1 = (d', None, ps)"
      "length ps \<le> n - Suc attempt"
      by (metis Suc_leI diff_Suc_Suc diff_diff_left nat.inject plus_1_eq_Suc Suc_diff_Suc)
    with h Some Suc.prems lt show ?thesis by (simp add: retry_loop_unfold(2))
  qed
qed

lemma retry_loop_success_row:
  "retry_loop js pg ovf env maxRetry attempt item d = (d', None, ps) \<Longrightarrow>
     \<exists>r. item_row pg item d' = Some r \<and> m_status r = ''completed'' \<and>
       m_retry_count r = (if ps = [] then wi_RetryCount item else int (attempt + length ps))"
proof (induction ps arbitrary: attempt item d)
  case Nil
  then have "handleMessage js pg (env attempt) item d = (d', None)"
    by (auto simp: retry_loop.simps [of js pg ovf env maxRetry attempt] Let_def
        split: if_splits prod.splits option.splits)
  then show ?case using handleMessage_success by fastforce
next
  case (Cons x xs)
  let ?item = "item\<lparr>wi_RetryCount := int attempt + 1\<rparr>"
  from Cons.prems obtain d1 where
    "retry_loop js pg ovf env maxRetry (Suc attempt) ?item d1 = (d', None, xs)"
    by (auto simp: retry_loop.simps [of js pg ovf env maxRetry attempt] Let_def
        split: if_splits prod.splits option.splits)
  from Cons.IH [OF this] show ?case by auto
qed

lemma upsert_accepts:
  assumes "item_ok js pg item"
  shows "\<exists>d'. sql_upsert_processing pg now (wi_MessageID item) (wi_TenantID item)
    (wi_Payload item) (wi_RetryCount item) d = (d', Inr ())"
  using assms by (auto simp: item_ok_def sql_upsert_processing_def)

lemma handleMessage_simulated_failure:
  assumes "item_ok js pg item" "ae_upsert ae = Delivered" "ae_nano ae mod 10 = 0"
  shows "\<exists>d' r. handleMessage js pg ae item d = (d', Some (ErrorNew ''simulated processing failure'')) \<and>
    item_row pg item d' = Some r \<and> m_status r = ''processing'' \<and> m_retry_count r = wi_RetryCount item"
proof -
  from assms(1) obtain d1 where up:
    "sql_upsert_processing pg (ae_upsert_now ae) (wi_MessageID item) (wi_TenantID item)
       (wi_Payload item) (wi_RetryCount item) d = (d1, Inr ())"
    using upsert_accepts by blast
  from upsert_row [OF up] assms up show ?thesis
    by (auto simp: handleMessage_def item_ok_def split: sum.splits)
qed

lemma retry_loop_simulated_failure:
  assumes "item_ok js pg item" "attempt \<le> m" "int m < 2 ^ 31"
    "\<And>i. i \<le> m \<Longrightarrow> ae_upsert (env i) = Delivered \<and> ae_nano (env i) mod 10 = 0"
  shows "\<exists>d' r ps. retry_loop js pg ovf env (int m) attempt item d =
      (d', Some (ErrorNew ''simulated processing failure''), ps) \<and>
    item_row pg item d' = Some r \<and> m_status r = ''processing'' \<and>
    m_retry_count r = (if attempt = m then wi_RetryCount item else int m)"
  using assms(1,2)
proof (induction "m - attempt" arbitrary: attempt item d)
  case 0
  then have "attempt = m" by simp
  with handleMessage_simulated_failure [OF 0(2), of "env attempt" d] assms(4) [of m] show ?case
    by (auto simp: retry_loop_unfold(3))
next
  case (Suc k)
  then have lt: "attempt < m" by simp
  let ?item = "item\<lparr>wi_RetryCount := int attempt + 1\<rparr>"
  from lt Suc.prems have ok: "item_ok js pg ?item"
    using assms(3) by (simp add: item_ok_def int4_ok_def)
  from handleMessage_simulated_failure [OF Suc.prems(1), of "env attempt" d] assms(4) [of attempt] lt
  obtain d1 where h:
    "handleMessage js pg (env attempt) item d = (d1, Some (ErrorNew ''simulated processing failure''))"
    by auto
  have k: "k = m - Suc attempt" using Suc.hyps(2) by simp
  from Suc.hyps(1) [OF k ok, of d1] lt
  obtain d' r ps where rec: "retry_loop js pg ovf env (int m) (Suc attempt) ?item d1 =
      (d', Some (ErrorNew ''simulated processing failure''), ps)"
    "item_row pg item d' = Some r" "m_status r = ''processing''"
    "m_retry_count r = (if Suc attempt = m then int attempt + 1 else int m)" by auto
  with h lt show ?case by (auto simp: retry_loop_unfold(2))
qed

section \<open>Properties of one item\<close>

text \<open>Concrete inputs for the witnesses.\<close>

definition sample_item :: "int \<Rightarrow> WorkItem" where
  "sample_item n =
     \<lparr>wi_MessageID = uuid_a, wi_TenantID = uuid_b, wi_Payload = ''{}'', wi_RetryCount = n\<rparr>"

definition sample_attempt :: "nat \<Rightarrow> attempt_env" where
  "sample_attempt nano =
     \<lparr>ae_upsert = Delivered, ae_upsert_now = 1000, ae_nano = nano, ae_complete = Delivered,
      ae_complete_now = 2000, ae_jitter_nano = 57\<rparr>"

definition sample_dl :: dl_env where
  "sample_dl = \<lparr>dl_insert = Delivered, dl_insert_now = 3000, dl_update = Delivered, dl_update_now = 4000\<rparr>"

lemma sample_item_ok [simp]: "item_ok sample_js sample_pg (sample_item 0)" "item_ok sample_js sample_pg (sample_item 3)"
  by code_simp+

lemma sample_attempt_good [simp]: "good_attempt (sample_attempt (Suc 0))"
  by code_simp

text \<open>
  Tenant isolation of the workers. Whatever the payload, the faults and the number of
  retries, processing an item changes no row of another tenant and no other message of its own
  tenant, and neither the tenants nor the users.
\<close>

lemma processWork_isolation:
  "touches_only (row_key pg (wi_MessageID item) (wi_TenantID item)) d
     (fst (processWork js pg ovf env de maxRetry item d)) \<and>
   filter (\<lambda>r. m_tenant_id r \<noteq> the (uuid_in pg (wi_TenantID item)))
     (messages (fst (processWork js pg ovf env de maxRetry item d))) =
   filter (\<lambda>r. m_tenant_id r \<noteq> the (uuid_in pg (wi_TenantID item))) (messages d)"
proof -
  let ?k = "row_key pg (wi_MessageID item) (wi_TenantID item)"
  let ?d' = "fst (processWork js pg ovf env de maxRetry item d)"
  obtain d1 r ps where p: "processWithRetry js pg ovf env maxRetry item d = (d1, r, ps)"
    by (rule prod_cases3)
  have "touches_only ?k d d1"
    using processWithRetry_keeps [OF attempt_keeps_touches touches_only_refl] p by (metis fst_conv)
  moreover have "touches_only ?k d1 (moveToDeadLetter pg de item e d1)" for e
    by (rule moveToDeadLetter_touches)
  ultimately have t: "touches_only ?k d ?d'"
    by (auto simp: processWork_cases p Let_def intro: touches_only_trans split: option.splits)
  with touches_only_other_tenants [OF t] show ?thesis by (simp add: row_key_def)
qed

text \<open>
  Processing an item keeps every constraint of the schema (unique keys, the foreign key of
  the users, canonical identifiers, known statuses), on every path, with any faults.
\<close>

lemma processWork_db_ok:
  assumes "uuid_lawful pg" "db_ok pg d"
  shows "db_ok pg (fst (processWork js pg ovf env de maxRetry item d))"
proof -
  obtain d1 r ps where p: "processWithRetry js pg ovf env maxRetry item d = (d1, r, ps)"
    by (rule prod_cases3)
  then have "db_ok pg d1"
    using processWithRetry_keeps [OF attempt_keeps_db_ok [OF assms(1)] assms(2)] by (metis fst_conv)
  then show ?thesis
    by (auto simp: processWork_cases p Let_def intro: moveToDeadLetter_ok split: option.splits)
qed

text \<open>
  The retry schedule. The pauses are the back-off durations of attempts 0, 1, 2, \<dots> in
  order, at most \<open>maxRetry\<close> of them, and a failure is only reported after all
  \<open>maxRetry + 1\<close> attempts were made.
\<close>

lemma processWithRetry_schedule:
  assumes "processWithRetry js pg ovf env maxRetry item d = (d', r, ps)" "0 \<le> maxRetry"
  shows "ps = map (\<lambda>i. backoffDuration ovf i (ae_jitter_nano (env i))) [0 ..< length ps] \<and>
    int (length ps) \<le> maxRetry \<and> (r \<noteq> None \<longrightarrow> int (length ps) = maxRetry)"
  using retry_loop_pauses [of js pg ovf env maxRetry 0 item d d' r ps] assms
  by (simp add: processWithRetry_def)

text \<open>
  C5: retrying succeeds. If one of the \<open>maxRetry + 1\<close> attempts meets no fault, a storable
  item is processed: no error is reported, at most that many pauses are made, and the
  message's row is completed.
\<close>

theorem processWork_completes:
  assumes "item_ok js pg item" "good_attempt (env n)" "int n \<le> maxRetry" "maxRetry < 2 ^ 31"
  shows "\<exists>d' ps r. processWork js pg ovf env de maxRetry item d = (d', None, ps) \<and>
    length ps \<le> n \<and> item_row pg item d' = Some r \<and> m_status r = ''completed''"
proof -
  from retry_loop_reaches [where env = env and attempt = 0 and ovf = ovf and d = d, OF assms] obtain d' ps where
    r: "retry_loop js pg ovf env maxRetry 0 item d = (d', None, ps)" and "length ps \<le> n" by auto
  with retry_loop_success_row [OF r] show ?thesis
    by (auto simp: processWork_def processWithRetry_def)
qed

theorem processWork_completes_witness:
  "\<exists>d' ps r. processWork sample_js sample_pg 0 (\<lambda>i. sample_attempt (if i = 2 then 1 else 10)) sample_dl 3
       (sample_item 0) db_empty = (d', None, ps) \<and>
     length ps \<le> 2 \<and> item_row sample_pg (sample_item 0) d' = Some r \<and> m_status r = ''completed''"
  by (rule processWork_completes [of _ _ _ _ 2]) simp_all

text \<open>
  C30: the dead letter path is not taken. \<^verbatim>\<open>processWork\<close> tests its own copy of the item,
  whose retry count the loop never changes, so an item that arrives with a count below
  \<^verbatim>\<open>maxRetry\<close> (every message taken from the broker arrives with 0) writes no dead letter, no
  matter how often it fails.
\<close>

theorem processWork_no_dead_letter:
  assumes "wi_RetryCount item < maxRetry"
  shows "dead_letter_messages (fst (processWork js pg ovf env de maxRetry item d)) =
    dead_letter_messages d"
proof -
  obtain d1 r ps where p: "processWithRetry js pg ovf env maxRetry item d = (d1, r, ps)"
    by (rule prod_cases3)
  then have "dead_letter_messages d1 = dead_letter_messages d"
    using processWithRetry_keeps [OF attempt_keeps_dead_letters refl] by (metis fst_conv)
  with assms show ?thesis by (auto simp: processWork_cases p Let_def split: option.splits)
qed

theorem processWork_no_dead_letter_witness:
  "wi_RetryCount (sample_item 0) < 3 \<and>
   dead_letter_messages (fst (processWork sample_js sample_pg 0 (\<lambda>_. sample_attempt 10) sample_dl 3
     (sample_item 0) db_empty)) = []"
  using processWork_no_dead_letter [of "sample_item 0" 3 sample_js sample_pg 0 "\<lambda>_. sample_attempt 10"
      sample_dl db_empty]
  by (simp add: sample_item_def db_empty_def)

text \<open>
  Where a message ends that fails every attempt. With a positive \<^verbatim>\<open>maxRetry\<close> it is left
  in status \<^verbatim>\<open>processing\<close> with \<^verbatim>\<open>maxRetry\<close> retries recorded; it reaches neither
  \<^verbatim>\<open>failed\<close> nor the dead letters.
\<close>

lemma processWork_exhausted_is_stuck:
  assumes "item_ok js pg item" "wi_RetryCount item = 0" "0 < m" "int m < 2 ^ 31"
    "\<And>i. i \<le> m \<Longrightarrow> ae_upsert (env i) = Delivered \<and> ae_nano (env i) mod 10 = 0"
  shows "\<exists>d' r ps. processWork js pg ovf env de (int m) item d =
      (d', Some (ErrorNew ''simulated processing failure''), ps) \<and>
    item_row pg item d' = Some r \<and> m_status r = ''processing'' \<and> m_retry_count r = int m"
  using retry_loop_simulated_failure [where env = env and attempt = 0 and m = m and d = d and ovf = ovf,
      OF assms(1) _ assms(4,5)] assms(2,3)
  by (auto simp: processWork_def processWithRetry_def)

text \<open>
  The dead letter path where it is taken. An item that arrives with at least
  \<^verbatim>\<open>maxRetry\<close> retries and fails again is appended to the dead letters with the error's text,
  and its message, if stored, becomes \<^verbatim>\<open>failed\<close>.
\<close>

lemma processWork_dead_letters:
  assumes "item_ok js pg item" "maxRetry \<le> wi_RetryCount item"
    "processWithRetry js pg ovf env maxRetry item d = (d1, Some e, ps)"
    "dl_insert de = Delivered" "dl_update de = Delivered"
  shows "\<exists>d' row. processWork js pg ovf env de maxRetry item d = (d', Some e, ps) \<and>
    dead_letter_messages d' = dead_letter_messages d @ [row] \<and>
    d_original_message_id row = the (uuid_in pg (wi_MessageID item)) \<and>
    d_tenant_id row = the (uuid_in pg (wi_TenantID item)) \<and>
    d_error_reason row = Error e \<and> d_retry_count row = wi_RetryCount item \<and>
    (\<forall>r. item_row pg item d1 = Some r \<longrightarrow>
       item_row pg item d' = Some (r\<lparr>m_status := ''failed'', m_updated_at := dl_update_now de\<rparr>))"
proof -
  have "dead_letter_messages d1 = dead_letter_messages d"
    using processWithRetry_keeps [where pg = pg and item = item, OF attempt_keeps_dead_letters refl]
      assms(3) by (metis fst_conv)
  with assms show ?thesis
    by (auto simp: processWork_def moveToDeadLetter_def item_ok_def sql_insert_dead_letter_def
        sql_set_status_def row_key_def find_by_update_by)
qed

end
