(* ===== verification/Pool.thy ===== *)
theory Pool
  imports Worker_Pool
begin

text \<open>
  The \<^verbatim>\<open>WorkerPool\<close> of \<^verbatim>\<open>internal/tenant/worker_pool.go\<close>: its fields, one function per
  method, and the interleavings of its goroutines as a labelled step relation. A goroutine
  started with \<^verbatim>\<open>go wp.worker()\<close> is an entry of \<open>wp_goroutines\<close>: waiting in its
  \<^verbatim>\<open>select\<close>, busy with an item, or returned. The wait group counts those that have not
  returned, since \<^verbatim>\<open>wg.Add(1)\<close> comes before each \<^verbatim>\<open>go\<close> and \<^verbatim>\<open>wg.Done\<close> is deferred.
\<close>

datatype goroutine = Idle | Busy WorkItem | Exited

record WorkerPool =
  wp_tenantID :: string
  wp_workers :: int
  wp_workChan :: "WorkItem chan"
  wp_doneChan :: "unit chan"
  wp_maxRetry :: int
  wp_goroutines :: "goroutine list"

section \<open>Methods\<close>

definition Start :: "int \<Rightarrow> WorkerPool \<Rightarrow> WorkerPool" where
  "Start workers wp =
     (let n = (if workers \<le> 0 then 1 else workers)
      in wp\<lparr>wp_workers := int32 n,
            wp_goroutines := wp_goroutines wp @ replicate (nat n) Idle\<rparr>)"

definition NewWorkerPool :: "string \<Rightarrow> int \<Rightarrow> int \<Rightarrow> WorkerPool outcome" where
  "NewWorkerPool tenantID workers maxRetry =
     bind_outcome (make_chan (int64 (workers * 10))) (\<lambda>workChan.
     bind_outcome (make_chan 0) (\<lambda>doneChan.
       Returns (Start workers
         \<lparr>wp_tenantID = tenantID, wp_workers = 0, wp_workChan = workChan,
          wp_doneChan = doneChan, wp_maxRetry = maxRetry, wp_goroutines = []\<rparr>)))"

definition Resize :: "int \<Rightarrow> WorkerPool \<Rightarrow> WorkerPool" where
  "Resize newCount wp =
     (let n = (if newCount \<le> 0 then 1 else newCount);
          diff = int64 (n - wp_workers wp)
      in if 0 < diff
         then wp\<lparr>wp_goroutines := wp_goroutines wp @ replicate (nat diff) Idle,
                 wp_workers := int32 (wp_workers wp + int32 diff)\<rparr>
         else if diff < 0 then wp\<lparr>wp_workers := int32 n\<rparr>
         else wp)"

definition GetWorkerCount :: "WorkerPool \<Rightarrow> int" where
  "GetWorkerCount wp = wp_workers wp"

text \<open>
  Sending on the work channel: into the buffer, or, on an unbuffered channel, straight to a
  goroutine that waits in its \<^verbatim>\<open>select\<close>.
\<close>

fun hand_over :: "WorkItem \<Rightarrow> goroutine list \<Rightarrow> goroutine list" where
  "hand_over x [] = []"
| "hand_over x (Idle # gs) = Busy x # gs"
| "hand_over x (g # gs) = g # hand_over x gs"

definition work_send_ready :: "WorkerPool \<Rightarrow> bool" where
  "work_send_ready wp \<longleftrightarrow> chan_send_ready (wp_workChan wp) \<or>
     ch_cap (wp_workChan wp) = 0 \<and> Idle \<in> set (wp_goroutines wp)"

definition work_send :: "WorkItem \<Rightarrow> WorkerPool \<Rightarrow> WorkerPool" where
  "work_send x wp =
     (if chan_send_ready (wp_workChan wp)
      then wp\<lparr>wp_workChan := chan_send x (wp_workChan wp)\<rparr>
      else wp\<lparr>wp_goroutines := hand_over x (wp_goroutines wp)\<rparr>)"

text \<open>
  \<^verbatim>\<open>Submit\<close>: a \<^verbatim>\<open>select\<close> of the send, the shutdown signal and a default. When both cases are
  ready the runtime picks one at random: \<open>pick\<close> is that choice.
\<close>

definition err_shutting_down :: go_error where
  "err_shutting_down = ErrorNew ''worker pool is shutting down''"

definition err_queue_full :: go_error where
  "err_queue_full = ErrorNew ''worker pool queue is full''"

definition Submit :: "bool \<Rightarrow> WorkItem \<Rightarrow> WorkerPool \<Rightarrow> WorkerPool \<times> go_error option" where
  "Submit pick item wp =
     (if work_send_ready wp \<and> (pick \<or> \<not> ch_closed (wp_doneChan wp))
      then (work_send item wp, None)
      else if ch_closed (wp_doneChan wp) then (wp, Some err_shutting_down)
      else (wp, Some err_queue_full))"

text \<open>\<^verbatim>\<open>Stop\<close> closes the done channel and then waits for the goroutines.\<close>

definition Stop_signal :: "WorkerPool \<Rightarrow> WorkerPool outcome" where
  "Stop_signal wp = bind_outcome (chan_close (wp_doneChan wp))
     (\<lambda>c. Returns (wp\<lparr>wp_doneChan := c\<rparr>))"

definition Stop_returns :: "WorkerPool \<Rightarrow> bool" where
  "Stop_returns wp \<longleftrightarrow> set (wp_goroutines wp) \<subseteq> {Exited}"

text \<open>
  \<^verbatim>\<open>SubmitRabbitMQMessage\<close>: the item of a delivery; the header is only used when it is an
  \<^verbatim>\<open>int32\<close>.
\<close>

record Delivery =
  dv_Body :: string
  dv_MessageId :: string
  dv_Headers :: table

definition SubmitRabbitMQMessage ::
  "bool \<Rightarrow> Delivery \<Rightarrow> WorkerPool \<Rightarrow> WorkerPool \<times> go_error option" where
  "SubmitRabbitMQMessage pick delivery wp =
     Submit pick
       \<lparr>wi_MessageID = dv_MessageId delivery, wi_TenantID = wp_tenantID wp,
        wi_Payload = dv_Body delivery,
        wi_RetryCount = (case dv_Headers delivery ''x-retry-count'' of
                           Some (HInt32 n) \<Rightarrow> n | _ \<Rightarrow> 0)\<rparr> wp"

section \<open>Interleavings\<close>

text \<open>
  The labels: a submitted item was buffered, handed over or refused; a goroutine took an item
  from the channel, finished it, or returned; the pool was told to stop, or resized.
\<close>

datatype pool_label =
    Accepted WorkItem
  | Handed WorkItem
  | Refused WorkItem go_error
  | Took nat WorkItem
  | Finished nat WorkItem
  | Returned nat
  | StopSignalled
  | Resized int

inductive pool_step :: "WorkerPool \<Rightarrow> pool_label \<Rightarrow> WorkerPool \<Rightarrow> bool" where
  accept: "Submit pick item wp = (wp', None) \<Longrightarrow> 0 < ch_cap (wp_workChan wp) \<Longrightarrow>
     pool_step wp (Accepted item) wp'"
| hand: "Submit pick item wp = (wp', None) \<Longrightarrow> ch_cap (wp_workChan wp) = 0 \<Longrightarrow>
     pool_step wp (Handed item) wp'"
| refuse: "Submit pick item wp = (wp', Some e) \<Longrightarrow> pool_step wp (Refused item e) wp'"
| take: "i < length (wp_goroutines wp) \<Longrightarrow> wp_goroutines wp ! i = Idle \<Longrightarrow>
     chan_recv (wp_workChan wp) = Some (item, c) \<Longrightarrow>
     pool_step wp (Took i item)
       (wp\<lparr>wp_workChan := c, wp_goroutines := (wp_goroutines wp)[i := Busy item]\<rparr>)"
| finish: "i < length (wp_goroutines wp) \<Longrightarrow> wp_goroutines wp ! i = Busy item \<Longrightarrow>
     pool_step wp (Finished i item) (wp\<lparr>wp_goroutines := (wp_goroutines wp)[i := Idle]\<rparr>)"
| exit: "i < length (wp_goroutines wp) \<Longrightarrow> wp_goroutines wp ! i = Idle \<Longrightarrow>
     ch_closed (wp_doneChan wp) \<Longrightarrow>
     pool_step wp (Returned i) (wp\<lparr>wp_goroutines := (wp_goroutines wp)[i := Exited]\<rparr>)"
| stop: "Stop_signal wp = Returns wp' \<Longrightarrow> pool_step wp StopSignalled wp'"
| resize: "pool_step wp (Resized n) (Resize n wp)"

inductive_cases pool_stepE [elim]: "pool_step wp l wp'"

text \<open>The steps of the goroutines themselves.\<close>

fun worker_label :: "pool_label \<Rightarrow> bool" where
  "worker_label (Took i x) = True"
| "worker_label (Finished i x) = True"
| "worker_label (Returned i) = True"
| "worker_label _ = False"

fun entered :: "pool_label \<Rightarrow> WorkItem list" where
  "entered (Accepted x) = [x]"
| "entered (Handed x) = [x]"
| "entered _ = []"

fun begun :: "pool_label \<Rightarrow> WorkItem list" where
  "begun (Took i x) = [x]"
| "begun (Handed x) = [x]"
| "begun _ = []"

fun finished :: "pool_label \<Rightarrow> WorkItem list" where
  "finished (Finished i x) = [x]"
| "finished _ = []"

fun busy_item :: "goroutine \<Rightarrow> WorkItem list" where
  "busy_item (Busy x) = [x]"
| "busy_item _ = []"

definition in_hand :: "WorkerPool \<Rightarrow> WorkItem list" where
  "in_hand wp = concat (map busy_item (wp_goroutines wp))"

abbreviation queued :: "WorkerPool \<Rightarrow> WorkItem list" where
  "queued wp \<equiv> ch_buf (wp_workChan wp)"

definition pool_ok :: "WorkerPool \<Rightarrow> bool" where
  "pool_ok wp \<longleftrightarrow> chan_wf (wp_workChan wp) \<and> \<not> ch_closed (wp_workChan wp)"

section \<open>Steps and items\<close>

lemma in_hand_update:
  "i < length gs \<Longrightarrow>
   mset (concat (map busy_item (gs[i := g]))) + mset (busy_item (gs ! i)) =
   mset (concat (map busy_item gs)) + mset (busy_item g)"
proof -
  assume i: "i < length gs"
  have "mset (concat (map busy_item gs)) =
      mset (concat (map busy_item (take i gs))) + mset (busy_item (gs ! i)) +
      mset (concat (map busy_item (drop (Suc i) gs)))"
    by (subst id_take_nth_drop [OF i]) (simp add: ac_simps)
  then show ?thesis using i by (simp add: upd_conv_take_nth_drop ac_simps)
qed

lemma in_hand_hand_over:
  "Idle \<in> set gs \<Longrightarrow>
   mset (concat (map busy_item (hand_over x gs))) = add_mset x (mset (concat (map busy_item gs)))"
  by (induction x gs rule: hand_over.induct) auto

lemma in_hand_replicate_Idle [simp]: "concat (map busy_item (replicate n Idle)) = []"
  by (induction n) auto

lemma Submit_cases:
  assumes "Submit pick item wp = (wp', r)"
  obtains (buffered) "r = None" "chan_send_ready (wp_workChan wp)"
      "wp' = wp\<lparr>wp_workChan := chan_send item (wp_workChan wp)\<rparr>"
  | (handed) "r = None" "\<not> chan_send_ready (wp_workChan wp)" "ch_cap (wp_workChan wp) = 0"
      "Idle \<in> set (wp_goroutines wp)"
      "wp' = wp\<lparr>wp_goroutines := hand_over item (wp_goroutines wp)\<rparr>"
  | (refused) e where "r = Some e" "wp' = wp"
proof (cases "work_send_ready wp \<and> (pick \<or> \<not> ch_closed (wp_doneChan wp))")
  case True
  show thesis
  proof (cases "chan_send_ready (wp_workChan wp)")
    case True
    with \<open>work_send_ready wp \<and> _\<close> assms show thesis
      by (intro buffered) (simp_all add: Submit_def work_send_def)
  next
    case False
    with \<open>work_send_ready wp \<and> _\<close> assms show thesis
      by (intro handed) (simp_all add: Submit_def work_send_def work_send_ready_def)
  qed
next
  case False
  with assms have "wp' = wp" "r \<noteq> None"
    by (auto simp: Submit_def split: if_splits)
  then show thesis using refused by blast
qed

lemma chan_send_ready_cap: "chan_send_ready c \<Longrightarrow> 0 < ch_cap c"
  using go_chan.ready_bound [of c] by (rule le_less_trans [rotated]) simp_all

lemma Resize_frame [frame_simps, simp]:
  "wp_workChan (Resize n wp) = wp_workChan wp" "wp_doneChan (Resize n wp) = wp_doneChan wp"
  "wp_tenantID (Resize n wp) = wp_tenantID wp" "wp_maxRetry (Resize n wp) = wp_maxRetry wp"
  by (simp_all add: Resize_def Let_def)

lemma in_hand_Resize [simp]: "in_hand (Resize n wp) = in_hand wp"
  by (auto simp: Resize_def Let_def in_hand_def)

lemma in_hand_doneChan [simp]: "in_hand (wp\<lparr>wp_doneChan := c\<rparr>) = in_hand wp"
  by (simp add: in_hand_def)

lemma Stop_signal_Returns:
  "Stop_signal wp = Returns wp' \<longleftrightarrow> \<not> ch_closed (wp_doneChan wp) \<and>
     wp' = wp\<lparr>wp_doneChan := (wp_doneChan wp)\<lparr>ch_closed := True\<rparr>\<rparr>"
  by (auto simp: Stop_signal_def chan_close_def)

lemma chan_send_frame [simp]:
  "ch_closed (chan_send x c) = ch_closed c" "ch_cap (chan_send x c) = ch_cap c"
  by (simp_all add: chan_send_def)

lemma chan_recv_frame:
  "chan_recv c = Some (x, c') \<Longrightarrow> ch_closed c' = ch_closed c \<and> ch_cap c' = ch_cap c"
  by (auto simp: chan_recv_def split: list.splits)

lemma Submit_ok:
  assumes "pool_ok wp" "Submit pick item wp = (wp', r)"
  shows "pool_ok wp'"
  using assms(2) by (cases rule: Submit_cases) (use assms(1) in \<open>auto simp: pool_ok_def go_chan.wf_put\<close>)

lemma pool_step_ok: "pool_ok wp \<Longrightarrow> pool_step wp l wp' \<Longrightarrow> pool_ok wp'"
  by (erule pool_stepE)
    (auto simp: pool_ok_def Stop_signal_Returns dest: Submit_ok go_chan.wf_get chan_recv_frame
      dest!: Submit_ok [unfolded pool_ok_def, rotated])

text \<open>Items enter the channel at one end and leave it at the other.\<close>

lemma Submit_queued:
  assumes "Submit pick item wp = (wp', None)"
  shows "0 < ch_cap (wp_workChan wp) \<Longrightarrow> queued wp' = queued wp @ [item] \<and> in_hand wp' = in_hand wp"
    and "ch_cap (wp_workChan wp) = 0 \<Longrightarrow> queued wp' = queued wp \<and>
      mset (in_hand wp') = add_mset item (mset (in_hand wp))"
  using assms
  by (cases rule: Submit_cases;
      auto simp: go_chan.elems_put in_hand_def in_hand_hand_over dest: chan_send_ready_cap)+

lemma pool_step_fifo:
  assumes "pool_ok wp" "pool_step wp l wp'"
  shows "begun l @ queued wp' = queued wp @ entered l"
  using assms(2)
proof cases
  case (hand pick item)
  moreover have "queued wp = []"
    using assms(1) hand(3) go_chan.wf_bound [of "wp_workChan wp"] by (simp add: pool_ok_def)
  ultimately show ?thesis using Submit_queued(2) by simp
next
  case (take i item c)
  then show ?thesis using go_chan.get_Some [OF take(5)] by simp
qed (auto simp: Submit_queued Stop_signal_Returns elim: Submit_cases)

lemma pool_step_balance:
  assumes "pool_step wp l wp'"
  shows "(mset (queued wp') + mset (in_hand wp')) + mset (finished l) =
    (mset (queued wp) + mset (in_hand wp)) + mset (entered l)"
  using assms
proof cases
  case (take i item c)
  then show ?thesis
    using go_chan.get_Some [OF take(5)] in_hand_update [OF take(3), of "Busy item"]
    by (simp add: in_hand_def)
next
  case (finish i item)
  then show ?thesis using in_hand_update [OF finish(3), of Idle] by (simp add: in_hand_def)
next
  case (exit i)
  then show ?thesis using in_hand_update [OF exit(3), of Exited] by (simp add: in_hand_def)
qed (auto simp: Submit_queued Stop_signal_Returns elim: Submit_cases)

lemma pool_step_cap: "pool_step wp l wp' \<Longrightarrow> ch_cap (wp_workChan wp') = ch_cap (wp_workChan wp)"
  by (erule pool_stepE) (auto simp: Stop_signal_Returns dest: chan_recv_frame elim: Submit_cases)

interpretation pool: fifo_machine pool_step pool_ok queued entered begun
  by unfold_locales (auto intro: pool_step_ok pool_step_fifo)

interpretation pool_items: accounted_machine pool_step pool_ok
    "\<lambda>wp. mset (queued wp) + mset (in_hand wp)" "\<lambda>l. mset (entered l)" "\<lambda>l. mset (finished l)"
  by unfold_locales (rule pool_step_balance)

interpretation pool_cap: machine pool_step "\<lambda>wp. pool_ok wp \<and> ch_cap (wp_workChan wp) = c" for c
  by unfold_locales (auto simp: pool_step_cap intro: pool_step_ok)

lemma NewWorkerPool_Returns:
  assumes "NewWorkerPool tid workers maxRetry = Returns wp"
  shows "pool_ok wp" "queued wp = []" "in_hand wp = []"
    "ch_cap (wp_workChan wp) = nat (int64 (workers * 10))" "\<not> ch_closed (wp_doneChan wp)"
    "wp_goroutines wp = replicate (nat (if workers \<le> 0 then 1 else workers)) Idle"
    "wp_workers wp = int32 (if workers \<le> 0 then 1 else workers)"
    "wp_tenantID wp = tid" "wp_maxRetry wp = maxRetry"
  using assms
  by (auto simp: NewWorkerPool_def make_chan_def Start_def pool_ok_def chan_wf_def in_hand_def Let_def
      split: if_splits)

lemma NewWorkerPool_total:
  "0 \<le> workers \<Longrightarrow> workers < 2 ^ 59 \<Longrightarrow> \<exists>wp. NewWorkerPool tid workers maxRetry = Returns wp"
  by (simp add: NewWorkerPool_def make_chan_def int64_id)

lemma mset_concat_map: "mset (concat (map f xs)) = sum_list (map (\<lambda>x. mset (f x)) xs)"
  by (simp add: mset_concat comp_def)

section \<open>Properties of the pool\<close>

text \<open>A pool of one worker, and two of its runs, for the witnesses.\<close>

definition sample_pool :: "bool \<Rightarrow> WorkItem list \<Rightarrow> goroutine \<Rightarrow> WorkerPool" where
  "sample_pool b items g =
     \<lparr>wp_tenantID = uuid_b, wp_workers = 1,
      wp_workChan = \<lparr>ch_buf = items, ch_cap = 10, ch_closed = False\<rparr>,
      wp_doneChan = \<lparr>ch_buf = [], ch_cap = 0, ch_closed = b\<rparr>,
      wp_maxRetry = 3, wp_goroutines = [g]\<rparr>"

lemma sample_pool_new: "NewWorkerPool uuid_b 1 3 = Returns (sample_pool False [] Idle)"
  by (simp add: NewWorkerPool_def make_chan_def Start_def sample_pool_def int64_id int32_id)

lemma sample_pool_steps:
  "length items < 10 \<Longrightarrow>
     pool_step (sample_pool b items g) (Accepted x) (sample_pool b (items @ [x]) g)"
  "pool_step (sample_pool b (x # items) Idle) (Took 0 x) (sample_pool b items (Busy x))"
  "pool_step (sample_pool b items (Busy x)) (Finished 0 x) (sample_pool b items Idle)"
  "pool_step (sample_pool False items g) StopSignalled (sample_pool True items g)"
  "pool_step (sample_pool True items Idle) (Returned 0) (sample_pool True items Exited)"
proof -
  let ?wp = "sample_pool b items g"
  assume "length items < 10"
  then have "Submit True x ?wp = (sample_pool b (items @ [x]) g, None)"
    by (simp add: Submit_def work_send_ready_def work_send_def chan_send_ready_def chan_send_def
        sample_pool_def)
  then show "pool_step ?wp (Accepted x) (sample_pool b (items @ [x]) g)"
    by (rule pool_step.accept) (simp add: sample_pool_def)
next
  show "pool_step (sample_pool b (x # items) Idle) (Took 0 x) (sample_pool b items (Busy x))"
    using pool_step.take [of 0 "sample_pool b (x # items) Idle" x]
    by (simp add: sample_pool_def chan_recv_def)
next
  show "pool_step (sample_pool b items (Busy x)) (Finished 0 x) (sample_pool b items Idle)"
    using pool_step.finish [of 0 "sample_pool b items (Busy x)" x] by (simp add: sample_pool_def)
next
  show "pool_step (sample_pool False items g) StopSignalled (sample_pool True items g)"
    by (rule pool_step.stop) (simp add: Stop_signal_Returns sample_pool_def)
next
  show "pool_step (sample_pool True items Idle) (Returned 0) (sample_pool True items Exited)"
    using pool_step.exit [of 0 "sample_pool True items Idle"] by (simp add: sample_pool_def)
qed

definition sample_run :: "pool_label list" where
  "sample_run = [Accepted (sample_item 0), Took 0 (sample_item 0), Accepted (sample_item 3),
     StopSignalled, Finished 0 (sample_item 0), Returned 0]"

lemmas sample_pool_accept = sample_pool_steps(1) [of "[]", simplified]

lemma sample_run: "run pool_step (sample_pool False [] Idle) sample_run (sample_pool True [sample_item 3] Exited)"
  unfolding sample_run_def
  by (rule run_ConsI run_NilI sample_pool_accept sample_pool_steps(2-5))+

lemma sample_pool_sel [simp]:
  "queued (sample_pool b items g) = items" "in_hand (sample_pool b items g) = busy_item g"
  "ch_closed (wp_doneChan (sample_pool b items g)) = b" "Stop_returns (sample_pool b items Exited)"
  by (simp_all add: sample_pool_def in_hand_def Stop_returns_def)

text \<open>
  C3: no item is lost or duplicated while the pool runs. In every interleaving of submitters,
  workers, resizes and the stop signal, the items that were accepted are exactly those
  finished, those being worked on and those still in the channel.
\<close>

theorem pool_conserves_items:
  assumes "NewWorkerPool tid workers maxRetry = Returns wp" "run pool_step wp ls wp'"
  shows "mset (concat (map entered ls)) =
    mset (concat (map finished ls)) + mset (in_hand wp') + mset (queued wp')"
  using pool_items.run_balance [OF assms(2) NewWorkerPool_Returns(1) [OF assms(1)]]
    NewWorkerPool_Returns(2,3) [OF assms(1)]
  by (simp add: mset_concat_map ac_simps)

theorem pool_conserves_items_witness:
  "mset (concat (map entered sample_run)) = mset (concat (map finished sample_run)) + {#sample_item 3#}"
  using pool_conserves_items [OF sample_pool_new sample_run] by simp

text \<open>
  Workers begin items in the order in which they were accepted: what was begun, followed
  by what is queued, is what was accepted.
\<close>

lemma pool_fifo:
  assumes "NewWorkerPool tid workers maxRetry = Returns wp" "run pool_step wp ls wp'"
  shows "concat (map begun ls) @ queued wp' = concat (map entered ls)"
  using pool.run_fifo [OF assms(2) NewWorkerPool_Returns(1) [OF assms(1)]]
    NewWorkerPool_Returns(2) [OF assms(1)]
  by simp

text \<open>
  The channel never holds more than ten items per worker the pool was created with, and
  resizing does not change that bound.
\<close>

lemma pool_queue_bounded:
  assumes "NewWorkerPool tid workers maxRetry = Returns wp" "run pool_step wp ls wp'"
    "0 \<le> workers" "workers < 2 ^ 59"
  shows "int (length (queued wp')) \<le> 10 * workers \<and> ch_cap (wp_workChan wp') = nat (10 * workers)"
proof -
  have c: "ch_cap (wp_workChan wp) = nat (10 * workers)"
    using NewWorkerPool_Returns(4) [OF assms(1)] assms(3,4) by (simp add: int64_id mult.commute)
  have "pool_ok wp' \<and> ch_cap (wp_workChan wp') = nat (10 * workers)"
    using pool_cap.run_inv [OF assms(2)] NewWorkerPool_Returns(1) [OF assms(1)] c by blast
  with go_chan.wf_bound [of "wp_workChan wp'"] assms(3) show ?thesis by (auto simp: pool_ok_def)
qed

section \<open>Stopping\<close>

text \<open>
  What the goroutines have left to do once nothing more is submitted: each queued item is
  taken and finished, each goroutine finishes its item and returns.
\<close>

fun goroutine_work :: "goroutine \<Rightarrow> nat" where
  "goroutine_work Idle = 1"
| "goroutine_work (Busy x) = 2"
| "goroutine_work Exited = 0"

definition pool_work :: "WorkerPool \<Rightarrow> nat" where
  "pool_work wp = 2 * length (queued wp) + sum_list (map goroutine_work (wp_goroutines wp))"

lemma sum_list_goroutine_update:
  "i < length gs \<Longrightarrow>
   sum_list (map goroutine_work (gs[i := g])) + goroutine_work (gs ! i) =
   sum_list (map goroutine_work gs) + goroutine_work g"
  by (induction gs arbitrary: i) (auto simp: nth_Cons split: nat.splits)

lemma worker_step_work:
  assumes "pool_step wp l wp'" "worker_label l"
  shows "Suc (pool_work wp') = pool_work wp"
  using assms(1)
proof cases
  case (take i item c)
  then show ?thesis
    using go_chan.get_Some [OF take(5)] sum_list_goroutine_update [OF take(3), of "Busy item"]
    by (simp add: pool_work_def)
next
  case (finish i item)
  then show ?thesis using sum_list_goroutine_update [OF finish(3), of Idle] by (simp add: pool_work_def)
next
  case (exit i)
  then show ?thesis using sum_list_goroutine_update [OF exit(3), of Exited] by (simp add: pool_work_def)
qed (use assms(2) in simp_all)

lemma worker_run_work:
  "run pool_step wp ls wp' \<Longrightarrow> list_all worker_label ls \<Longrightarrow> length ls + pool_work wp' = pool_work wp"
  by (induction ls arbitrary: wp) (auto dest: worker_step_work)

lemma worker_step_done: "pool_step wp l wp' \<Longrightarrow> worker_label l \<Longrightarrow> wp_doneChan wp' = wp_doneChan wp"
  by (erule pool_stepE) auto

lemma worker_run_done:
  "run pool_step wp ls wp' \<Longrightarrow> list_all worker_label ls \<Longrightarrow> wp_doneChan wp' = wp_doneChan wp"
  by (induction ls arbitrary: wp) (auto dest: worker_step_done)

lemma stopping_progress:
  assumes "ch_closed (wp_doneChan wp)" "\<not> Stop_returns wp"
  shows "\<exists>l wp'. worker_label l \<and> pool_step wp l wp'"
proof -
  from assms(2) obtain i where i: "i < length (wp_goroutines wp)" "wp_goroutines wp ! i \<noteq> Exited"
    by (auto simp: Stop_returns_def subset_iff in_set_conv_nth)
  then show ?thesis
  proof (cases "wp_goroutines wp ! i")
    case Idle
    with i assms(1) show ?thesis using pool_step.exit worker_label.simps(3) by blast
  next
    case (Busy item)
    with i show ?thesis using pool_step.finish worker_label.simps(2) by blast
  qed simp
qed

text \<open>
  C32: \<^verbatim>\<open>Stop\<close> returns. Once the done channel is closed, the goroutines can make only
  boundedly many steps without new submissions, and as long as the wait group is not empty one
  of them can make a step: \<^verbatim>\<open>wg.Wait\<close> cannot wait for ever.
\<close>

theorem Stop_terminates:
  assumes "ch_closed (wp_doneChan wp)" "run pool_step wp ls wp'" "list_all worker_label ls"
  shows "length ls \<le> pool_work wp \<and>
    (Stop_returns wp' \<or> (\<exists>l wp''. worker_label l \<and> pool_step wp' l wp''))"
  using worker_run_work [OF assms(2,3)] worker_run_done [OF assms(2,3)] stopping_progress [of wp'] assms(1)
  by auto

theorem Stop_terminates_witness:
  "length [Finished 0 (sample_item 0), Returned 0]
     \<le> pool_work (sample_pool True [sample_item 3] (Busy (sample_item 0))) \<and>
   Stop_returns (sample_pool True [sample_item 3] Exited)"
proof -
  have r: "run pool_step (sample_pool True [sample_item 3] (Busy (sample_item 0)))
      [Finished 0 (sample_item 0), Returned 0] (sample_pool True [sample_item 3] Exited)"
    by (rule run_ConsI run_NilI sample_pool_steps(2-5))+
  show ?thesis using Stop_terminates [OF _ r] by simp
qed

lemma in_hand_Stop_returns: "Stop_returns wp \<Longrightarrow> in_hand wp = []"
  by (auto simp: Stop_returns_def in_hand_def concat_eq_Nil_conv subset_iff)

text \<open>
  C33: what \<^verbatim>\<open>Stop\<close> leaves behind. When it returns, every item a worker began is finished,
  and the accepted items that are not finished are exactly those still in the channel, which
  nothing reads any more.
\<close>

theorem Stop_drops_queue:
  assumes "NewWorkerPool tid workers maxRetry = Returns wp" "run pool_step wp ls wp'" "Stop_returns wp'"
  shows "mset (concat (map entered ls)) = mset (concat (map finished ls)) + mset (queued wp') \<and>
    mset (concat (map begun ls)) = mset (concat (map finished ls))"
proof -
  have e: "mset (concat (map entered ls)) = mset (concat (map finished ls)) + mset (queued wp')"
    using pool_items.run_balance [OF assms(2) NewWorkerPool_Returns(1) [OF assms(1)]]
      NewWorkerPool_Returns(2,3) [OF assms(1)] in_hand_Stop_returns [OF assms(3)]
    by (simp add: mset_concat_map ac_simps)
  moreover have "concat (map entered ls) = concat (map begun ls) @ queued wp'"
    using pool.run_fifo [OF assms(2) NewWorkerPool_Returns(1) [OF assms(1)]]
      NewWorkerPool_Returns(2) [OF assms(1)] by simp
  ultimately show ?thesis by (simp del: map_append)
qed

theorem Stop_drops_queue_witness:
  "mset (concat (map entered sample_run)) = mset (concat (map finished sample_run)) + {#sample_item 3#} \<and>
   sample_item 3 \<notin> set (concat (map finished sample_run))"
  using Stop_drops_queue [OF sample_pool_new sample_run]
  by (simp, simp add: sample_run_def sample_item_def)

section \<open>Running\<close>

text \<open>A pool that was not stopped: its goroutines never return, and whatever is queued or in hand can be worked on.\<close>

definition alive :: "WorkerPool \<Rightarrow> bool" where
  "alive wp \<longleftrightarrow> \<not> ch_closed (wp_doneChan wp) \<and> (\<exists>g \<in> set (wp_goroutines wp). g \<noteq> Exited)"

lemma list_update_alive:
  "i < length gs \<Longrightarrow> g \<noteq> Exited \<Longrightarrow> \<exists>h \<in> set (gs[i := g]). h \<noteq> Exited"
  using set_update_memI by fast

lemma worker_step_alive:
  assumes "pool_step wp l wp'" "worker_label l" "alive wp"
  shows "alive wp'"
  using assms(1)
  by cases (use assms(2,3) in \<open>auto simp: alive_def intro: list_update_alive\<close>)

lemma worker_run_alive:
  "run pool_step wp ls wp' \<Longrightarrow> list_all worker_label ls \<Longrightarrow> alive wp \<Longrightarrow> alive wp'"
  by (induction ls arbitrary: wp) (auto dest: worker_step_alive)

lemma running_progress:
  assumes "alive wp" "queued wp \<noteq> [] \<or> in_hand wp \<noteq> []"
  shows "\<exists>l wp'. worker_label l \<and> pool_step wp l wp'"
proof (cases "in_hand wp = []")
  case False
  then obtain g where g: "g \<in> set (wp_goroutines wp)" "busy_item g \<noteq> []" by (auto simp: in_hand_def)
  from g(2) obtain x where "g = Busy x" by (cases g) simp_all
  with g(1) obtain i where "i < length (wp_goroutines wp)" "wp_goroutines wp ! i = Busy x" by (metis in_set_conv_nth)
  then show ?thesis using pool_step.finish worker_label.simps(2) by blast
next
  case True
  from assms(1) obtain i where i: "i < length (wp_goroutines wp)" "wp_goroutines wp ! i \<noteq> Exited"
    by (auto simp: alive_def in_set_conv_nth)
  then have "busy_item (wp_goroutines wp ! i) = []" using True by (auto simp: in_hand_def concat_eq_Nil_conv)
  with i have "wp_goroutines wp ! i = Idle" by (cases "wp_goroutines wp ! i") simp_all
  moreover obtain x xs where "queued wp = x # xs" using True assms(2) by (cases "queued wp") auto
  then have "chan_recv (wp_workChan wp) = Some (x, (wp_workChan wp)\<lparr>ch_buf := xs\<rparr>)" by (simp add: chan_recv_def)
  ultimately show ?thesis using pool_step.take [OF i(1)] worker_label.simps(1) by blast
qed

text \<open>
  C6: the pool gets done. While it is not stopped and nothing more is submitted, its goroutines can make
  only boundedly many steps, and as long as an item is queued or in hand one of them can make a step; when none can, all the
  items that were queued or in hand are finished, each once.
\<close>

theorem pool_drains:
  assumes "pool_ok wp" "alive wp" "run pool_step wp ls wp'" "list_all worker_label ls"
  shows "length ls \<le> pool_work wp \<and>
    ((\<exists>l wp''. worker_label l \<and> pool_step wp' l wp'') \<or>
     mset (concat (map finished ls)) = mset (queued wp) + mset (in_hand wp))"
proof -
  have "concat (map entered ls) = []"
  proof -
    have "entered l = []" if "worker_label l" for l using that by (cases l) simp_all
    then show ?thesis using assms(4) by (auto simp: list_all_iff concat_eq_Nil_conv)
  qed
  then have e: "sum_list (map (\<lambda>l. mset (entered l)) ls) = {#}" by (simp add: mset_concat_map [of entered, symmetric])
  have b: "mset (queued wp') + mset (in_hand wp') + mset (concat (map finished ls)) = mset (queued wp) + mset (in_hand wp)"
    using pool_items.run_balance [OF assms(3,1)] by (simp add: mset_concat_map e)
  have "length ls \<le> pool_work wp" using worker_run_work [OF assms(3,4)] by simp
  moreover have "(\<exists>l wp''. worker_label l \<and> pool_step wp' l wp'') \<or> queued wp' = [] \<and> in_hand wp' = []"
    using running_progress [OF worker_run_alive [OF assms(3,4,2)]] by blast
  ultimately show ?thesis using b by auto
qed

theorem pool_drains_witness:
  "length [Took 0 (sample_item 0), Finished 0 (sample_item 0)] \<le> pool_work (sample_pool False [sample_item 0] Idle)"
proof -
  have r: "run pool_step (sample_pool False [sample_item 0] Idle) [Took 0 (sample_item 0), Finished 0 (sample_item 0)]
      (sample_pool False [] Idle)"
    by (rule run_ConsI run_NilI sample_pool_steps(2,3))+
  have "pool_ok (sample_pool False [sample_item 0] Idle)" "alive (sample_pool False [sample_item 0] Idle)"
    by (simp_all add: pool_ok_def sample_pool_def chan_wf_def alive_def)
  from pool_drains [OF this r] show ?thesis by simp
qed

text \<open>
  A submission can be accepted after the stop signal, whenever the channel has room and the
  runtime's \<^verbatim>\<open>select\<close> prefers it, and is then never processed: there is a run of a fresh pool
  in which \<^verbatim>\<open>Stop\<close> returns with the item in the channel.
\<close>

lemma Submit_after_stop_may_be_lost:
  "(\<forall>wp item. ch_closed (wp_doneChan wp) \<and> chan_send_ready (wp_workChan wp) \<longrightarrow>
      (\<exists>wp'. Submit True item wp = (wp', None)) \<and>
      Submit False item wp = (wp, Some err_shutting_down)) \<and>
   (\<exists>wp wp'. NewWorkerPool uuid_b 1 3 = Returns wp \<and>
      run pool_step wp [StopSignalled, Accepted (sample_item 0), Returned 0] wp' \<and>
      Stop_returns wp' \<and> queued wp' = [sample_item 0])"
proof (intro conjI allI impI exI)
  show "run pool_step (sample_pool False [] Idle) [StopSignalled, Accepted (sample_item 0), Returned 0]
      (sample_pool True [sample_item 0] Exited)"
    by (rule run_ConsI run_NilI sample_pool_accept sample_pool_steps(2-5))+
qed (auto simp: Submit_def work_send_ready_def sample_pool_new)

section \<open>Resizing\<close>

definition live :: "WorkerPool \<Rightarrow> nat" where
  "live wp = length (filter (\<lambda>g. g \<noteq> Exited) (wp_goroutines wp))"

lemma Resize_counts:
  assumes "1 \<le> n" "n < 2 ^ 31" "0 \<le> wp_workers wp" "wp_workers wp < 2 ^ 31"
  shows "GetWorkerCount (Resize n wp) = n"
    "live (Resize n wp) = live wp + nat (n - wp_workers wp)"
proof -
  have d: "int64 (n - wp_workers wp) = n - wp_workers wp"
    using assms by (intro int64_id) auto
  have e: "int32 (n - wp_workers wp) = n - wp_workers wp" "int32 n = n"
    using assms by (auto intro!: int32_id)
  show "GetWorkerCount (Resize n wp) = n" "live (Resize n wp) = live wp + nat (n - wp_workers wp)"
    using assms by (auto simp: Resize_def GetWorkerCount_def live_def Let_def d e)
qed

text \<open>
  Scaling up. Growing a pool starts exactly the missing goroutines and sets the count.
\<close>

lemma Resize_up:
  assumes "1 \<le> wp_workers wp" "wp_workers wp \<le> n" "n < 2 ^ 31" "live wp = nat (wp_workers wp)"
  shows "GetWorkerCount (Resize n wp) = n \<and> live (Resize n wp) = nat n"
  using Resize_counts [of n wp] assms by auto

text \<open>
  Scaling down stops nothing. After a resize from \<open>w\<close> workers down to \<open>m\<close> and up
  again to \<open>n\<close>, the count reads \<open>n\<close> while \<open>w + (n - m)\<close> goroutines run: the log line
  "scaled down" describes the counter only, and the excess is permanent.
\<close>

lemma Resize_down_up_overshoots:
  assumes "NewWorkerPool tid w maxRetry = Returns wp" "1 \<le> m" "m \<le> w" "m \<le> n" "w < 2 ^ 31" "n < 2 ^ 31"
  shows "GetWorkerCount (Resize m wp) = m \<and> live (Resize m wp) = nat w \<and>
    GetWorkerCount (Resize n (Resize m wp)) = n \<and>
    live (Resize n (Resize m wp)) = nat (w + (n - m))"
proof -
  have w: "wp_workers wp = w" "live wp = nat w"
    using NewWorkerPool_Returns(6,7) [OF assms(1)] assms(2,3,5) by (auto simp: live_def int32_id)
  have m: "GetWorkerCount (Resize m wp) = m" "live (Resize m wp) = nat w"
    using Resize_counts [of m wp] assms w by auto
  moreover have "GetWorkerCount (Resize n (Resize m wp)) = n"
    "live (Resize n (Resize m wp)) = nat w + nat (n - m)"
    using Resize_counts [of n "Resize m wp"] assms m by (auto simp: GetWorkerCount_def)
  ultimately show ?thesis using assms by auto
qed

end
