(* ===== verification/Tenant_Manager.thy ===== *)
theory Tenant_Manager
  imports Pool
begin

text \<open>
  \<^verbatim>\<open>internal/tenant/manager.go\<close>: the registry of tenant consumers. The Go map is an association
  list with distinct keys, its order standing for Go's arbitrary iteration order. Every method
  that holds the mutex is one atomic function. A consumer that was stopped is returned by the
  function that removed it, with its channels closed: waiting for its goroutines is the subject
  of \<open>Stop_terminates\<close> in the pool's theory.
\<close>

section \<open>State\<close>

record TenantConsumer =
  tc_TenantID :: string
  tc_QueueName :: string
  tc_WorkerPool :: WorkerPool
  tc_Channel :: nat
  tc_Done :: "unit chan"

record Manager =
  mg_consumers :: "(string \<times> TenantConsumer) list"
  mg_rmConn :: nat
  mg_defaultWorkers :: int
  mg_maxWorkers :: int
  mg_maxRetry :: int
  mg_messageTTL :: int

definition NewManager :: "nat \<Rightarrow> int \<Rightarrow> int \<Rightarrow> int \<Rightarrow> int \<Rightarrow> Manager" where
  "NewManager rmConn defaultWorkers maxWorkers maxRetry messageTTL =
     \<lparr>mg_consumers = [], mg_rmConn = rmConn, mg_defaultWorkers = defaultWorkers,
      mg_maxWorkers = maxWorkers, mg_maxRetry = maxRetry, mg_messageTTL = messageTTL\<rparr>"

section \<open>Queues of a tenant\<close>

definition declareTenantQueues ::
  "'w amqp \<Rightarrow> Manager \<Rightarrow> nat \<Rightarrow> string \<Rightarrow> 'w \<Rightarrow> 'w \<times> (string \<times> string) res" where
  "declareTenantQueues am mg ch tenantID w =
     (let mainQueue = main_queue_name tenantID; exchangeName = dlx_name tenantID;
          dlQueue = dlq_name tenantID in
      case am_ExchangeDeclare am ch exchangeName ''fanout'' True False False False w of
        (w1, Inl e) \<Rightarrow> (w1, Inl (Wrapf ''failed to declare DLX: '' e))
      | (w1, Inr _) \<Rightarrow>
      (case am_QueueDeclare am ch dlQueue True False False False Map.empty w1 of
        (w2, Inl e) \<Rightarrow> (w2, Inl (Wrapf ''failed to declare DLQ: '' e))
      | (w2, Inr _) \<Rightarrow>
      (case am_QueueBind am ch dlQueue [] exchangeName False w2 of
        (w3, Inl e) \<Rightarrow> (w3, Inl (Wrapf ''failed to bind DLQ: '' e))
      | (w3, Inr _) \<Rightarrow>
      (case am_QueueDeclare am ch mainQueue True False False False
              (main_queue_args (mg_messageTTL mg) exchangeName) w3 of
        (w4, Inl e) \<Rightarrow> (w4, Inl (Wrapf ''failed to declare main queue: '' e))
      | (w4, Inr _) \<Rightarrow> (w4, Inr (mainQueue, dlQueue))))))"

lemma declareTenantQueues_eq:
  "declareTenantQueues am mg ch tid w = DeclareTenantQueue am ch tid (mg_messageTTL mg) w"
  by (simp add: declareTenantQueues_def DeclareTenantQueue_def)

definition DeleteTenantQueues ::
  "'w amqp \<Rightarrow> Manager \<Rightarrow> string \<Rightarrow> 'w \<Rightarrow> 'w \<times> unit res" where
  "DeleteTenantQueues am mg tenantID w =
     (case am_Channel am (mg_rmConn mg) w of
        (w0, Inl e) \<Rightarrow> (w0, Inl (Wrapf ''failed to create channel: '' e))
      | (w0, Inr ch) \<Rightarrow>
          (let mainQueue = main_queue_name tenantID; exchangeName = dlx_name tenantID;
               dlQueue = dlq_name tenantID;
               (w', r) =
                 (case am_QueueDelete am ch mainQueue False False False w0 of
                    (w1, Inl e) \<Rightarrow> (w1, Inl (Wrapf ''failed to delete main queue: '' e))
                  | (w1, Inr _) \<Rightarrow>
                  (case am_QueueDelete am ch dlQueue False False False w1 of
                    (w2, Inl e) \<Rightarrow> (w2, Inl (Wrapf ''failed to delete DLQ: '' e))
                  | (w2, Inr _) \<Rightarrow>
                  (case am_ExchangeDelete am ch exchangeName False False w2 of
                    (w3, Inl e) \<Rightarrow> (w3, Inl (Wrapf ''failed to delete DLX: '' e))
                  | (w3, Inr _) \<Rightarrow> (w3, Inr ()))))
           in (am_Close am ch w', r)))"

section \<open>Consumers\<close>

definition clamp_spawn :: "Manager \<Rightarrow> int \<Rightarrow> int" where
  "clamp_spawn mg concurrency =
     (let c = (if concurrency \<le> 0 then mg_defaultWorkers mg else concurrency)
      in if mg_maxWorkers mg < c then mg_maxWorkers mg else c)"

definition err_exists :: "string \<Rightarrow> go_error" where
  "err_exists tid = ErrorNew (''consumer already exists for tenant '' @ tid)"

definition err_not_found :: "string \<Rightarrow> go_error" where
  "err_not_found tid = ErrorNew (''consumer not found for tenant '' @ tid)"

definition SpawnConsumer ::
  "'w amqp \<Rightarrow> string \<Rightarrow> int \<Rightarrow> 'w \<times> Manager \<Rightarrow> (('w \<times> Manager) \<times> unit res) outcome" where
  "SpawnConsumer am tenantID concurrency s =
     (let (w, mg) = s in
      if map_of (mg_consumers mg) tenantID \<noteq> None then Returns (s, Inl (err_exists tenantID))
      else
        (case am_Channel am (mg_rmConn mg) w of
           (w1, Inl e) \<Rightarrow> Returns ((w1, mg), Inl (Wrapf ''failed to create channel: '' e))
         | (w1, Inr ch) \<Rightarrow>
             (case declareTenantQueues am mg ch tenantID w1 of
                (w2, Inl e) \<Rightarrow>
                  Returns ((am_Close am ch w2, mg), Inl (Wrapf ''failed to declare queues: '' e))
              | (w2, Inr (queueName, _)) \<Rightarrow>
                  bind_outcome (make_chan 0) (\<lambda>done.
                  bind_outcome (NewWorkerPool tenantID (clamp_spawn mg concurrency) (mg_maxRetry mg))
                    (\<lambda>wp.
                  Returns ((w2, mg\<lparr>mg_consumers := mg_consumers mg @
                      [(tenantID, \<lparr>tc_TenantID = tenantID, tc_QueueName = queueName,
                                    tc_WorkerPool = wp, tc_Channel = ch, tc_Done = done\<rparr>)]\<rparr>),
                    Inr ()))))))"

text \<open>
  Shutting one consumer down: close \<^verbatim>\<open>Done\<close>, stop the pool, close the channel.
\<close>

definition shutdown_consumer ::
  "'w amqp \<Rightarrow> TenantConsumer \<Rightarrow> 'w \<Rightarrow> ('w \<times> TenantConsumer) outcome" where
  "shutdown_consumer am c w =
     bind_outcome (chan_close (tc_Done c)) (\<lambda>done.
     bind_outcome (Stop_signal (tc_WorkerPool c)) (\<lambda>wp.
       Returns (am_Close am (tc_Channel c) w, c\<lparr>tc_Done := done, tc_WorkerPool := wp\<rparr>)))"

definition remove_consumer :: "string \<Rightarrow> Manager \<Rightarrow> Manager" where
  "remove_consumer tid mg = mg\<lparr>mg_consumers := filter (\<lambda>kc. fst kc \<noteq> tid) (mg_consumers mg)\<rparr>"

definition StopConsumer ::
  "'w amqp \<Rightarrow> string \<Rightarrow> 'w \<times> Manager \<Rightarrow> (('w \<times> Manager) \<times> unit res) outcome" where
  "StopConsumer am tenantID s =
     (let (w, mg) = s in
      case map_of (mg_consumers mg) tenantID of
        None \<Rightarrow> Returns (s, Inl (err_not_found tenantID))
      | Some consumer \<Rightarrow>
          bind_outcome (shutdown_consumer am consumer w) (\<lambda>(w', _).
            Returns ((w', remove_consumer tenantID mg), Inr ())))"

definition clamp_update :: "Manager \<Rightarrow> int \<Rightarrow> int" where
  "clamp_update mg workers =
     (let n = (if workers \<le> 0 then 1 else workers)
      in if mg_maxWorkers mg < n then mg_maxWorkers mg else n)"

definition update_consumer :: "string \<Rightarrow> (TenantConsumer \<Rightarrow> TenantConsumer) \<Rightarrow> Manager \<Rightarrow> Manager" where
  "update_consumer tid f mg =
     mg\<lparr>mg_consumers := map (\<lambda>kc. if fst kc = tid then (fst kc, f (snd kc)) else kc) (mg_consumers mg)\<rparr>"

definition UpdateConcurrency ::
  "string \<Rightarrow> int \<Rightarrow> 'w \<times> Manager \<Rightarrow> (('w \<times> Manager) \<times> unit res) outcome" where
  "UpdateConcurrency tenantID workers s =
     (let (w, mg) = s in
      case map_of (mg_consumers mg) tenantID of
        None \<Rightarrow> Returns (s, Inl (err_not_found tenantID))
      | Some _ \<Rightarrow>
          Returns ((w, update_consumer tenantID
              (\<lambda>c. c\<lparr>tc_WorkerPool := Resize (clamp_update mg workers) (tc_WorkerPool c)\<rparr>) mg),
            Inr ()))"

definition GetConsumer :: "string \<Rightarrow> Manager \<Rightarrow> TenantConsumer option" where
  "GetConsumer tenantID mg = map_of (mg_consumers mg) tenantID"

definition GetConsumerCount :: "Manager \<Rightarrow> nat" where
  "GetConsumerCount mg = length (mg_consumers mg)"

definition ListConsumers :: "Manager \<Rightarrow> string list" where
  "ListConsumers mg = map fst (mg_consumers mg)"

text \<open>
  \<^verbatim>\<open>ShutdownAll\<close>: the map is emptied under the mutex, then every consumer is shut down; the
  goroutines that do so are independent of each other, here in the order of the map.
\<close>

fun shutdown_list ::
  "'w amqp \<Rightarrow> TenantConsumer list \<Rightarrow> 'w \<Rightarrow> ('w \<times> TenantConsumer list) outcome" where
  "shutdown_list am [] w = Returns (w, [])"
| "shutdown_list am (c # cs) w =
     bind_outcome (shutdown_consumer am c w) (\<lambda>(w1, c').
     bind_outcome (shutdown_list am cs w1) (\<lambda>(w2, cs'). Returns (w2, c' # cs')))"

definition ShutdownAll ::
  "'w amqp \<Rightarrow> 'w \<times> Manager \<Rightarrow> (('w \<times> Manager) \<times> TenantConsumer list) outcome" where
  "ShutdownAll am s =
     (let (w, mg) = s in
      bind_outcome (shutdown_list am (map snd (mg_consumers mg)) w) (\<lambda>(w', cs).
        Returns ((w', mg\<lparr>mg_consumers := []\<rparr>), cs)))"

section \<open>Messages\<close>

text \<open>The acknowledgement calls a delivery receives: \<^verbatim>\<open>Ack(false)\<close>, \<^verbatim>\<open>Nack(false, requeue)\<close>.\<close>

datatype ack_call = Ack | Nack bool

text \<open>
  \<^verbatim>\<open>processMessage\<close>: \<open>pick\<close> is the choice of \<^verbatim>\<open>Submit\<close>'s select, \<open>ack\<close> the result of the
  library's \<^verbatim>\<open>Ack\<close>; the results of \<^verbatim>\<open>Nack\<close> are ignored.
\<close>

definition processMessage ::
  "go_json \<Rightarrow> bool \<Rightarrow> unit res \<Rightarrow> TenantConsumer \<Rightarrow> Delivery
     \<Rightarrow> TenantConsumer \<times> ack_call list \<times> unit res" where
  "processMessage js pick ack consumer msg =
     (case unmarshal_Message js (dv_Body msg) of
        Inl e \<Rightarrow> (consumer, [Nack False], Inl (Wrapf ''failed to unmarshal message: '' e))
      | Inr message \<Rightarrow>
          let item = \<lparr>wi_MessageID = msg_ID message, wi_TenantID = tc_TenantID consumer,
                       wi_Payload = msg_Payload message, wi_RetryCount = 0\<rparr> in
          (case Submit pick item (tc_WorkerPool consumer) of
             (wp, Some e) \<Rightarrow>
               (consumer\<lparr>tc_WorkerPool := wp\<rparr>, [Nack True],
                Inl (Wrapf ''failed to submit to worker pool: '' e))
           | (wp, None) \<Rightarrow>
               (case ack of
                  Inl e \<Rightarrow> (consumer\<lparr>tc_WorkerPool := wp\<rparr>, [Ack], Inl (Wrapf ''failed to ack message: '' e))
                | Inr _ \<Rightarrow> (consumer\<lparr>tc_WorkerPool := wp\<rparr>, [Ack], Inr ()))))"

text \<open>
  The goroutine of \<^verbatim>\<open>consumeMessages\<close> beside the others that share its consumer. It runs until
  its \<^verbatim>\<open>select\<close> sees \<^verbatim>\<open>Done\<close> closed or the delivery channel closed; a failed
  \<^verbatim>\<open>Channel.Consume\<close> ends it at once. Meanwhile the pool's workers step, and \<^verbatim>\<open>StopConsumer\<close>
  closes \<^verbatim>\<open>Done\<close> and stops the pool.
\<close>

datatype consume_label =
    ConsumeFailed go_error
  | Answered Delivery ack_call
  | SawDone
  | SawClosed
  | DoneClosed
  | PoolStep pool_label

datatype consume_pc = Starting | Looping | Ended

fun others_step :: "pool_label \<Rightarrow> bool" where
  "others_step (Accepted i) = False"
| "others_step (Handed i) = False"
| "others_step _ = True"

inductive consumeMessages ::
  "go_json \<Rightarrow> consume_pc \<times> TenantConsumer \<Rightarrow> consume_label \<Rightarrow> consume_pc \<times> TenantConsumer \<Rightarrow> bool"
  for js where
  consume_err: "consumeMessages js (Starting, c) (ConsumeFailed e) (Ended, c)"
| deliver: "pc = Starting \<or> pc = Looping \<Longrightarrow> processMessage js pick ack c d = (c', [a], r) \<Longrightarrow>
     consumeMessages js (pc, c) (Answered d a) (Looping, c')"
| saw_done: "pc = Starting \<or> pc = Looping \<Longrightarrow> ch_closed (tc_Done c) \<Longrightarrow>
     consumeMessages js (pc, c) SawDone (Ended, c)"
| saw_closed: "pc = Starting \<or> pc = Looping \<Longrightarrow> consumeMessages js (pc, c) SawClosed (Ended, c)"
| close_done: "chan_close (tc_Done c) = Returns d \<Longrightarrow>
     consumeMessages js (pc, c) DoneClosed (pc, c\<lparr>tc_Done := d\<rparr>)"
| pool: "pool_step (tc_WorkerPool c) l wp \<Longrightarrow> others_step l \<Longrightarrow>
     consumeMessages js (pc, c) (PoolStep l) (pc, c\<lparr>tc_WorkerPool := wp\<rparr>)"

inductive_cases consumeMessagesE: "consumeMessages js s l s'"

definition PublishMessage ::
  "go_json \<Rightarrow> 'w amqp \<Rightarrow> Manager \<Rightarrow> string \<Rightarrow> Message \<Rightarrow> 'w \<Rightarrow> 'w \<times> unit res" where
  "PublishMessage js am mg tenantID message w =
     (case am_Channel am (mg_rmConn mg) w of
        (w1, Inl e) \<Rightarrow> (w1, Inl (Wrapf ''failed to create channel: '' e))
      | (w1, Inr ch) \<Rightarrow>
          (case marshal_Message js message of
             Inl e \<Rightarrow> (am_Close am ch w1, Inl (Wrapf ''failed to marshal message: '' e))
           | Inr body \<Rightarrow>
               (case am_Publish am ch [] (main_queue_name tenantID) False False
                       \<lparr>pb_ContentType = ''application/json'', pb_Body = body,
                        pb_MessageId = msg_ID message,
                        pb_Headers = [''x-tenant-id'' \<mapsto> HString tenantID]\<rparr> w1 of
                  (w2, Inl e) \<Rightarrow> (am_Close am ch w2, Inl (Wrapf ''failed to publish message: '' e))
                | (w2, Inr _) \<Rightarrow> (am_Close am ch w2, Inr ()))))"

section \<open>Invariant\<close>

text \<open>Worker limits under which a pool can be created, as the configuration's defaults are.\<close>

definition limits_ok :: "Manager \<Rightarrow> bool" where
  "limits_ok mg \<longleftrightarrow> 1 \<le> mg_defaultWorkers mg \<and> 1 \<le> mg_maxWorkers mg \<and> mg_maxWorkers mg < 2 ^ 31"

text \<open>
  A registered consumer: it carries its own key and queue, neither of its channels is closed, and
  its worker count is within the limits.
\<close>

definition consumer_ok :: "Manager \<Rightarrow> string \<Rightarrow> TenantConsumer \<Rightarrow> bool" where
  "consumer_ok mg tid c \<longleftrightarrow> tc_TenantID c = tid \<and> tc_QueueName c = main_queue_name tid \<and>
     \<not> ch_closed (tc_Done c) \<and> \<not> ch_closed (wp_doneChan (tc_WorkerPool c)) \<and>
     pool_ok (tc_WorkerPool c) \<and> wp_tenantID (tc_WorkerPool c) = tid \<and>
     1 \<le> GetWorkerCount (tc_WorkerPool c) \<and> GetWorkerCount (tc_WorkerPool c) \<le> mg_maxWorkers mg"

definition mgr_ok :: "Manager \<Rightarrow> bool" where
  "mgr_ok mg \<longleftrightarrow> limits_ok mg \<and> distinct (map fst (mg_consumers mg)) \<and>
     (\<forall>kc \<in> set (mg_consumers mg). consumer_ok mg (fst kc) (snd kc))"

definition registered :: "'w \<times> Manager \<Rightarrow> string set" where
  "registered s = set (ListConsumers (snd s))"

lemma mgr_ok_New: "limits_ok (NewManager cn dw mw mr ttl) \<Longrightarrow> mgr_ok (NewManager cn dw mw mr ttl)"
  by (simp add: mgr_ok_def NewManager_def)

lemma registered_iff: "t \<in> registered s \<longleftrightarrow> map_of (mg_consumers (snd s)) t \<noteq> None"
  by (auto simp: registered_def ListConsumers_def map_of_eq_None_iff)

lemma clamp_spawn_range:
  "limits_ok mg \<Longrightarrow> 1 \<le> clamp_spawn mg n \<and> clamp_spawn mg n \<le> mg_maxWorkers mg"
  by (auto simp: limits_ok_def clamp_spawn_def Let_def)

lemma clamp_update_range:
  "limits_ok mg \<Longrightarrow> 1 \<le> clamp_update mg n \<and> clamp_update mg n \<le> mg_maxWorkers mg"
  by (auto simp: limits_ok_def clamp_update_def Let_def)

lemma consumer_ok_mono:
  "mg_maxWorkers mg' = mg_maxWorkers mg \<Longrightarrow> consumer_ok mg' tid c = consumer_ok mg tid c"
  by (simp add: consumer_ok_def)

lemma mgr_okD: "mgr_ok mg \<Longrightarrow> map_of (mg_consumers mg) t = Some c \<Longrightarrow> consumer_ok mg t c"
  by (fastforce simp: mgr_ok_def dest: map_of_SomeD)

section \<open>What each call does\<close>

lemma NewWorkerPool_in_limits:
  assumes "1 \<le> n" "n < 2 ^ 31"
  obtains wp where "NewWorkerPool tid n mr = Returns wp" "GetWorkerCount wp = n"
proof -
  from assms obtain wp where wp: "NewWorkerPool tid n mr = Returns wp"
    using NewWorkerPool_total [of n tid mr] by auto
  moreover have "GetWorkerCount wp = n"
    using NewWorkerPool_Returns(7) [OF wp] assms by (simp add: GetWorkerCount_def int32_id)
  ultimately show thesis by (rule that)
qed

lemma NewWorkerPool_consumer_ok:
  assumes "limits_ok mg" "NewWorkerPool tid (clamp_spawn mg n) mr = Returns wp" "\<not> ch_closed d"
  shows "consumer_ok mg tid \<lparr>tc_TenantID = tid, tc_QueueName = main_queue_name tid,
    tc_WorkerPool = wp, tc_Channel = ch, tc_Done = d\<rparr>"
  using NewWorkerPool_Returns [OF assms(2)] clamp_spawn_range [OF assms(1), of n] assms(1,3)
  by (auto simp: consumer_ok_def GetWorkerCount_def int32_id limits_ok_def)

lemma declareTenantQueues_name:
  "declareTenantQueues am mg ch tid w = (w', Inr (q, dlq)) \<Longrightarrow> q = main_queue_name tid"
  by (auto simp: declareTenantQueues_def Let_def split: prod.splits sum.splits)

lemma SpawnConsumer_cases:
  assumes "limits_ok mg"
  obtains (dup) "map_of (mg_consumers mg) tid \<noteq> None"
      "SpawnConsumer am tid n (w, mg) = Returns ((w, mg), Inl (err_exists tid))"
  | (failed) w' e where "map_of (mg_consumers mg) tid = None"
      "SpawnConsumer am tid n (w, mg) = Returns ((w', mg), Inl e)"
  | (spawned) w0 w' ch dlq c where "map_of (mg_consumers mg) tid = None"
      "am_Channel am (mg_rmConn mg) w = (w0, Inr ch)"
      "declareTenantQueues am mg ch tid w0 = (w', Inr (main_queue_name tid, dlq))"
      "SpawnConsumer am tid n (w, mg) =
        Returns ((w', mg\<lparr>mg_consumers := mg_consumers mg @ [(tid, c)]\<rparr>), Inr ())"
      "consumer_ok mg tid c" "GetWorkerCount (tc_WorkerPool c) = clamp_spawn mg n"
proof (cases "map_of (mg_consumers mg) tid")
  case (Some x)
  then show thesis by (intro dup) (simp_all add: SpawnConsumer_def)
next
  case None
  note fresh = None
  obtain w0 rc where ch: "am_Channel am (mg_rmConn mg) w = (w0, rc)" by force
  show thesis
  proof (cases rc)
    case (Inl e)
    with fresh ch show thesis by (intro failed) (simp_all add: SpawnConsumer_def)
  next
    case (Inr ch')
    obtain w1 rd where d: "declareTenantQueues am mg ch' tid w0 = (w1, rd)" by force
    show thesis
    proof (cases rd)
      case (Inl e)
      with fresh ch Inr d show thesis by (intro failed) (simp_all add: SpawnConsumer_def)
    next
      case (Inr qs)
      then obtain q dlq where q: "rd = Inr (q, dlq)" by (cases qs) auto
      have qn: "q = main_queue_name tid"
        using declareTenantQueues_name [of am mg ch' tid w0 w1 q dlq] d q by simp
      have "1 \<le> clamp_spawn mg n" "clamp_spawn mg n < 2 ^ 31"
        using clamp_spawn_range [OF assms, of n] assms by (auto simp: limits_ok_def)
      then obtain wp where wp: "NewWorkerPool tid (clamp_spawn mg n) (mg_maxRetry mg) = Returns wp"
        "GetWorkerCount wp = clamp_spawn mg n"
        by (rule NewWorkerPool_in_limits)
      let ?c = "\<lparr>tc_TenantID = tid, tc_QueueName = main_queue_name tid, tc_WorkerPool = wp,
        tc_Channel = ch', tc_Done = \<lparr>ch_buf = [], ch_cap = 0, ch_closed = False\<rparr>\<rparr>"
      from fresh ch \<open>rc = Inr ch'\<close> d q qn wp(1) have "SpawnConsumer am tid n (w, mg) =
          Returns ((w1, mg\<lparr>mg_consumers := mg_consumers mg @ [(tid, ?c)]\<rparr>), Inr ())"
        by (simp add: SpawnConsumer_def make_chan_def)
      moreover have "consumer_ok mg tid ?c"
        by (rule NewWorkerPool_consumer_ok [OF assms wp(1)]) simp
      ultimately show thesis
        using fresh ch \<open>rc = Inr ch'\<close> d q qn wp(2) by (intro spawned [of w0 ch' w1 dlq ?c]) simp_all
    qed
  qed
qed

lemma SpawnConsumer_others:
  assumes "broker_lawful am view" "SpawnConsumer am t n (w, mg) = Returns ((w', mg'), r)"
  shows "others t (view w') = others t (view w)"
proof -
  note v = broker_lawfulD(1,2) [OF assms(1)]
  obtain w0 rc where ch: "am_Channel am (mg_rmConn mg) w = (w0, rc)" by force
  have w0: "view w0 = view w" using v(1) [of "mg_rmConn mg" w] ch by simp
  obtain w1 rd where d: "DeclareTenantQueue am (projr rc) t (mg_messageTTL mg) w0 = (w1, rd)" by force
  have "others t (view w1) = others t (view w0)"
    by (rule DeclareTenantQueue_others [OF assms(1) d])
  with assms(2) ch d w0 show ?thesis
    by (auto simp: SpawnConsumer_def declareTenantQueues_eq v(2) split: if_splits sum.splits prod.splits)
qed

lemma SpawnConsumer_quiet:
  assumes "quiet am got" "SpawnConsumer am t n s = Returns (s', r)"
  shows "got (fst s') = got (fst s)"
proof -
  obtain w mg where s: "s = (w, mg)" by force
  from assms(2) show ?thesis
    by (auto simp: s SpawnConsumer_def declareTenantQueues_eq quietD(2) [OF assms(1)]
        dest!: quietD(1) [OF assms(1)] DeclareTenantQueue_quiet [OF assms(1)] split: if_splits sum.splits prod.splits)
qed

text \<open>A view of the broker that closing a channel does not change is not changed by stopping consumers.\<close>

lemma shutdown_consumer_view:
  "shutdown_consumer am c w = Returns (w', c') \<Longrightarrow> \<forall>ch w. view (am_Close am ch w) = view w \<Longrightarrow> view w' = view w"
  by (auto simp: shutdown_consumer_def)

lemma StopConsumer_view:
  "StopConsumer am t s = Returns (s', r) \<Longrightarrow> \<forall>ch w. view (am_Close am ch w) = view w \<Longrightarrow> view (fst s') = view (fst s)"
  by (cases s) (auto simp: StopConsumer_def dest!: shutdown_consumer_view [where view = view] split: option.splits)

lemma shutdown_list_view:
  "shutdown_list am cs w = Returns (w', cs') \<Longrightarrow> \<forall>ch w. view (am_Close am ch w) = view w \<Longrightarrow> view w' = view w"
  by (induction cs arbitrary: w cs') (fastforce dest: shutdown_consumer_view [where view = view])+

lemma ShutdownAll_view:
  "ShutdownAll am s = Returns (s', cs) \<Longrightarrow> \<forall>ch w. view (am_Close am ch w) = view w \<Longrightarrow> view (fst s') = view (fst s)"
  by (cases s) (auto simp: ShutdownAll_def dest!: shutdown_list_view [where view = view])

lemma UpdateConcurrency_world: "UpdateConcurrency t n s = Returns (s', r) \<Longrightarrow> fst s' = fst s"
  by (cases s) (auto simp: UpdateConcurrency_def split: option.splits)

lemma mgr_ok_add:
  "mgr_ok mg \<Longrightarrow> map_of (mg_consumers mg) tid = None \<Longrightarrow> consumer_ok mg tid c \<Longrightarrow>
     mgr_ok (mg\<lparr>mg_consumers := mg_consumers mg @ [(tid, c)]\<rparr>)"
  by (auto simp: mgr_ok_def limits_ok_def map_of_eq_None_iff consumer_ok_def)

lemma mgr_ok_remove: "mgr_ok mg \<Longrightarrow> mgr_ok (remove_consumer tid mg)"
  by (auto simp: mgr_ok_def limits_ok_def remove_consumer_def distinct_map_filter consumer_ok_def)

lemma shutdown_consumer_total:
  "consumer_ok mg t c \<Longrightarrow> \<exists>c'. shutdown_consumer am c w = Returns (am_Close am (tc_Channel c) w, c') \<and>
     ch_closed (tc_Done c') \<and> ch_closed (wp_doneChan (tc_WorkerPool c')) \<and> tc_TenantID c' = t"
  by (auto simp: shutdown_consumer_def consumer_ok_def chan_close_def Stop_signal_def)

lemma StopConsumer_hit:
  assumes "mgr_ok mg" "map_of (mg_consumers mg) t = Some c"
  shows "StopConsumer am t (w, mg) = Returns ((am_Close am (tc_Channel c) w, remove_consumer t mg), Inr ())"
  using shutdown_consumer_total [OF mgr_okD [OF assms], of am w] assms(2)
  by (auto simp: StopConsumer_def)

lemma StopConsumer_miss:
  "map_of (mg_consumers (snd s)) t = None \<Longrightarrow> StopConsumer am t s = Returns (s, Inl (err_not_found t))"
  by (cases s) (simp add: StopConsumer_def)

lemma update_consumer_ok:
  assumes "mgr_ok mg" "\<And>c. consumer_ok mg t c \<Longrightarrow> consumer_ok mg t (f c)"
  shows "mgr_ok (update_consumer t f mg)"
proof -
  have "map fst (mg_consumers (update_consumer t f mg)) = map fst (mg_consumers mg)"
    by (auto simp: update_consumer_def)
  moreover have "limits_ok (update_consumer t f mg)"
    using assms(1) by (simp add: mgr_ok_def limits_ok_def update_consumer_def)
  moreover have "consumer_ok (update_consumer t f mg) (fst kc) (snd kc)"
    if "kc \<in> set (mg_consumers (update_consumer t f mg))" for kc
  proof -
    have mx: "mg_maxWorkers (update_consumer t f mg) = mg_maxWorkers mg"
      by (simp add: update_consumer_def)
    from that assms show ?thesis
      unfolding consumer_ok_mono [OF mx] by (auto simp: update_consumer_def mgr_ok_def)
  qed
  ultimately show ?thesis using assms(1) by (simp add: mgr_ok_def)
qed

lemma Resize_consumer_ok:
  assumes "limits_ok mg" "consumer_ok mg t c"
  shows "consumer_ok mg t (c\<lparr>tc_WorkerPool := Resize (clamp_update mg n) (tc_WorkerPool c)\<rparr>)"
proof -
  have "GetWorkerCount (Resize (clamp_update mg n) (tc_WorkerPool c)) = clamp_update mg n"
    using clamp_update_range [OF assms(1), of n] assms
    by (intro Resize_counts) (auto simp: limits_ok_def consumer_ok_def GetWorkerCount_def)
  with assms clamp_update_range [OF assms(1), of n] show ?thesis
    by (simp add: consumer_ok_def pool_ok_def)
qed

lemma ListConsumers_update [simp]: "ListConsumers (update_consumer t f mg) = ListConsumers mg"
  by (auto simp: ListConsumers_def update_consumer_def)

lemma UpdateConcurrency_hit:
  assumes "mgr_ok mg" "map_of (mg_consumers mg) t = Some c"
  shows "\<exists>mg'. UpdateConcurrency t n (w, mg) = Returns ((w, mg'), Inr ()) \<and> mgr_ok mg' \<and>
    ListConsumers mg' = ListConsumers mg"
  using assms Resize_consumer_ok [of mg t _ n]
  by (auto simp: UpdateConcurrency_def mgr_ok_def [of mg] intro!: update_consumer_ok)

lemma UpdateConcurrency_miss:
  "map_of (mg_consumers (snd s)) t = None \<Longrightarrow> UpdateConcurrency t n s = Returns (s, Inl (err_not_found t))"
  by (cases s) (simp add: UpdateConcurrency_def)

section \<open>The contract of the registry\<close>

text \<open>
  What the HTTP layer relies on: no call panics, a name is registered once, a call on an unknown
  name changes nothing, and a call changes no other name's registration.
\<close>

locale consumer_registry =
  fixes ok :: "'s \<Rightarrow> bool"
    and reg :: "'s \<Rightarrow> string set"
    and spawn :: "string \<Rightarrow> int \<Rightarrow> 's \<Rightarrow> ('s \<times> unit res) outcome"
    and stop :: "string \<Rightarrow> 's \<Rightarrow> ('s \<times> unit res) outcome"
    and resize :: "string \<Rightarrow> int \<Rightarrow> 's \<Rightarrow> ('s \<times> unit res) outcome"
  assumes spawn_total: "ok s \<Longrightarrow> \<exists>s' r. spawn t n s = Returns (s', r)"
    and spawn_dup: "ok s \<Longrightarrow> t \<in> reg s \<Longrightarrow> spawn t n s = Returns (s, Inl (err_exists t))"
    and spawn_ok: "ok s \<Longrightarrow> spawn t n s = Returns (s', r) \<Longrightarrow> ok s'"
    and spawn_reg: "ok s \<Longrightarrow> spawn t n s = Returns (s', r) \<Longrightarrow>
      reg s' = (if isl r then reg s else insert t (reg s))"
    and stop_hit: "ok s \<Longrightarrow> t \<in> reg s \<Longrightarrow>
      \<exists>s'. stop t s = Returns (s', Inr ()) \<and> ok s' \<and> reg s' = reg s - {t}"
    and stop_miss: "t \<notin> reg s \<Longrightarrow> stop t s = Returns (s, Inl (err_not_found t))"
    and resize_hit: "ok s \<Longrightarrow> t \<in> reg s \<Longrightarrow>
      \<exists>s'. resize t n s = Returns (s', Inr ()) \<and> ok s' \<and> reg s' = reg s"
    and resize_miss: "t \<notin> reg s \<Longrightarrow> resize t n s = Returns (s, Inl (err_not_found t))"
begin

lemma spawn_fresh: "ok s \<Longrightarrow> spawn t n s = Returns (s', Inr ()) \<Longrightarrow> t \<notin> reg s"
  using spawn_dup [of s t n] by auto

lemma spawn_stop:
  assumes "ok s" "spawn t n s = Returns (s1, Inr ())"
  shows "\<exists>s2. stop t s1 = Returns (s2, Inr ()) \<and> ok s2 \<and> reg s2 = reg s"
proof -
  have "reg s1 = insert t (reg s)" using spawn_reg [OF assms] by simp
  with spawn_fresh [OF assms] stop_hit [OF spawn_ok [OF assms], of t] show ?thesis by auto
qed

lemma stop_stop:
  assumes "ok s" "stop t s = Returns (s1, Inr ())"
  shows "stop t s1 = Returns (s1, Inl (err_not_found t))"
proof -
  have "t \<in> reg s" using stop_miss [of t s] assms(2) by auto
  with stop_hit [OF assms(1), of t] assms(2) have "t \<notin> reg s1" by auto
  then show ?thesis by (rule stop_miss)
qed

lemma stop_total: "ok s \<Longrightarrow> \<exists>s' r. stop t s = Returns (s', r) \<and> ok s' \<and> reg s' = reg s - {t}"
  using stop_hit [of s t] stop_miss [of t s] by (cases "t \<in> reg s") auto

lemma resize_total: "ok s \<Longrightarrow> \<exists>s' r. resize t n s = Returns (s', r) \<and> ok s' \<and> reg s' = reg s"
  using resize_hit [of s t n] resize_miss [of t s n] by (cases "t \<in> reg s") auto

end

abbreviation world_ok :: "'w \<times> Manager \<Rightarrow> bool" where
  "world_ok s \<equiv> mgr_ok (snd s)"

lemma SpawnConsumer_contract:
  assumes "world_ok s"
  shows "\<exists>s' r. SpawnConsumer am t n s = Returns (s', r) \<and> world_ok s' \<and>
    registered s' = (if isl r then registered s else insert t (registered s)) \<and>
    (t \<in> registered s \<longrightarrow> s' = s \<and> r = Inl (err_exists t))"
proof -
  obtain w mg where s: "s = (w, mg)" by force
  with assms have l: "limits_ok mg" "mgr_ok mg" by (simp_all add: mgr_ok_def)
  from l(1) show ?thesis
  proof (cases rule: SpawnConsumer_cases [of mg t am n w])
    case (spawned w0 w' ch dlq c)
    then have "t \<notin> registered s" by (simp add: s registered_iff)
    with spawned l(2) mgr_ok_add [of mg t c] show ?thesis
      by (simp add: s registered_def ListConsumers_def)
  qed (use l in \<open>auto simp: s registered_iff\<close>)
qed

interpretation manager: consumer_registry world_ok registered "SpawnConsumer am" "StopConsumer am"
    UpdateConcurrency for am :: "'w amqp"
proof unfold_locales
  fix s :: "'w \<times> Manager" and t n s' r
  assume "world_ok s"
  from SpawnConsumer_contract [OF this, of am t n]
  show "\<exists>s' r. SpawnConsumer am t n s = Returns (s', r)"
    "t \<in> registered s \<Longrightarrow> SpawnConsumer am t n s = Returns (s, Inl (err_exists t))"
    "SpawnConsumer am t n s = Returns (s', r) \<Longrightarrow> world_ok s'"
    "SpawnConsumer am t n s = Returns (s', r) \<Longrightarrow>
       registered s' = (if isl r then registered s else insert t (registered s))"
    by auto
next
  fix s :: "'w \<times> Manager" and t
  assume "world_ok s" "t \<in> registered s"
  then obtain c where "map_of (mg_consumers (snd s)) t = Some c" by (auto simp: registered_iff)
  with StopConsumer_hit [of "snd s" t c am "fst s"] mgr_ok_remove [of "snd s" t] \<open>world_ok s\<close>
  show "\<exists>s'. StopConsumer am t s = Returns (s', Inr ()) \<and> world_ok s' \<and> registered s' = registered s - {t}"
    by (auto simp: registered_def ListConsumers_def remove_consumer_def)
next
  fix s :: "'w \<times> Manager" and t n
  assume "world_ok s" "t \<in> registered s"
  then obtain c where "map_of (mg_consumers (snd s)) t = Some c" by (auto simp: registered_iff)
  with UpdateConcurrency_hit [of "snd s" t c n "fst s"] \<open>world_ok s\<close>
  show "\<exists>s'. UpdateConcurrency t n s = Returns (s', Inr ()) \<and> world_ok s' \<and> registered s' = registered s"
    by (auto simp: registered_def)
qed (simp_all add: registered_iff StopConsumer_miss UpdateConcurrency_miss)

section \<open>Sequences of calls\<close>

text \<open>
  The manager between calls: its methods, and the goroutines of the registered pools, which take
  items, finish them and accept new ones in between.
\<close>

datatype mgr_label =
    CallSpawn string int
  | CallStop string
  | CallUpdate string int
  | CallShutdown
  | PoolWork string pool_label

fun pool_internal :: "pool_label \<Rightarrow> bool" where
  "pool_internal StopSignalled = False"
| "pool_internal (Resized n) = False"
| "pool_internal _ = True"

inductive mgr_step :: "'w amqp \<Rightarrow> 'w \<times> Manager \<Rightarrow> mgr_label \<Rightarrow> 'w \<times> Manager \<Rightarrow> bool"
  for am where
  spawn: "SpawnConsumer am t n s = Returns (s', r) \<Longrightarrow> mgr_step am s (CallSpawn t n) s'"
| stop: "StopConsumer am t s = Returns (s', r) \<Longrightarrow> mgr_step am s (CallStop t) s'"
| update: "UpdateConcurrency t n s = Returns (s', r) \<Longrightarrow> mgr_step am s (CallUpdate t n) s'"
| shutdown: "ShutdownAll am s = Returns (s', cs) \<Longrightarrow> mgr_step am s CallShutdown s'"
| work: "map_of (mg_consumers mg) t = Some c \<Longrightarrow> pool_internal l \<Longrightarrow>
     pool_step (tc_WorkerPool c) l wp \<Longrightarrow>
     mgr_step am (w, mg) (PoolWork t l) (w, update_consumer t (\<lambda>c. c\<lparr>tc_WorkerPool := wp\<rparr>) mg)"

inductive_cases mgr_stepE: "mgr_step am s l s'"

text \<open>A consumer once it is shut down.\<close>

definition closed_consumer :: "TenantConsumer \<Rightarrow> TenantConsumer" where
  "closed_consumer c = c\<lparr>tc_Done := (tc_Done c)\<lparr>ch_closed := True\<rparr>,
     tc_WorkerPool := (tc_WorkerPool c)\<lparr>wp_doneChan := (wp_doneChan (tc_WorkerPool c))\<lparr>ch_closed := True\<rparr>\<rparr>\<rparr>"

lemma shutdown_consumer_eq:
  "consumer_ok mg t c \<Longrightarrow>
     shutdown_consumer am c w = Returns (am_Close am (tc_Channel c) w, closed_consumer c)"
  by (simp add: shutdown_consumer_def consumer_ok_def chan_close_def Stop_signal_def closed_consumer_def)

lemma shutdown_list_eq:
  "\<forall>c \<in> set cs. \<exists>t. consumer_ok mg t c \<Longrightarrow>
     shutdown_list am cs w = Returns (fold (\<lambda>c. am_Close am (tc_Channel c)) cs w, map closed_consumer cs)"
proof (induction cs arbitrary: w)
  case Nil
  then show ?case by simp
next
  case (Cons c cs)
  then have "\<exists>t. consumer_ok mg t c" by simp
  then obtain t where "consumer_ok mg t c" ..
  from shutdown_consumer_eq [OF this, of am w] Cons show ?case by simp
qed

lemma ShutdownAll_contract:
  assumes "mgr_ok mg"
  shows "ShutdownAll am (w, mg) =
    Returns ((fold (\<lambda>c. am_Close am (tc_Channel c)) (map snd (mg_consumers mg)) w,
              mg\<lparr>mg_consumers := []\<rparr>), map closed_consumer (map snd (mg_consumers mg)))"
proof -
  have "\<forall>c \<in> set (map snd (mg_consumers mg)). \<exists>t. consumer_ok mg t c"
    using assms by (auto simp: mgr_ok_def)
  from shutdown_list_eq [OF this, of am w] show ?thesis by (simp add: ShutdownAll_def)
qed

lemma mgr_ok_clear: "mgr_ok mg \<Longrightarrow> mgr_ok (mg\<lparr>mg_consumers := []\<rparr>)"
  by (simp add: mgr_ok_def limits_ok_def)

lemma pool_internal_frame:
  "pool_step wp l wp' \<Longrightarrow> pool_internal l \<Longrightarrow>
     wp_doneChan wp' = wp_doneChan wp \<and> wp_tenantID wp' = wp_tenantID wp \<and> wp_workers wp' = wp_workers wp"
  by (erule pool_stepE) (auto elim: Submit_cases)

lemma pool_work_ok:
  assumes "mgr_ok mg" "map_of (mg_consumers mg) t = Some c"
    and st: "pool_internal l" "pool_step (tc_WorkerPool c) l wp"
  shows "mgr_ok (update_consumer t (\<lambda>c. c\<lparr>tc_WorkerPool := wp\<rparr>) mg)"
proof (rule update_consumer_ok [OF assms(1)])
  fix c'
  assume "consumer_ok mg t c'"
  moreover have "consumer_ok mg t c" by (rule mgr_okD [OF assms(1,2)])
  ultimately show "consumer_ok mg t (c'\<lparr>tc_WorkerPool := wp\<rparr>)"
    using pool_internal_frame [OF st(2,1)] pool_step_ok [OF _ st(2)]
    by (simp add: consumer_ok_def GetWorkerCount_def)
qed

lemma mgr_step_ok:
  assumes "world_ok s" "mgr_step am s l s'"
  shows "world_ok s'"
  using assms(2,1)
proof (induction rule: mgr_step.induct)
  case (spawn t n s s' r)
  then show ?case using manager.spawn_ok [of s am t n s' r] by simp
next
  case (stop t s s' r)
  then show ?case using manager.stop_total [of s am t] by auto
next
  case (update t n s s' r)
  then show ?case using manager.resize_total [of s t n] by auto
next
  case (shutdown s s' cs)
  then show ?case using ShutdownAll_contract [of "snd s" am "fst s"] mgr_ok_clear [of "snd s"] by auto
next
  case (work mg t c l wp w)
  then show ?case using pool_work_ok [of mg t c l wp] by simp
qed

interpretation mgr: machine "mgr_step am" world_ok for am :: "'w amqp"
  by unfold_locales (rule mgr_step_ok)

text \<open>A negative \<^verbatim>\<open>maxWorkers\<close> is the size of a channel, which panics.\<close>

lemma SpawnConsumer_panics:
  assumes "GetConsumer t mg = None" "mg_maxWorkers mg < 0" "- (2 ^ 59) \<le> mg_maxWorkers mg" "1 \<le> n"
    and "am_Channel am (mg_rmConn mg) w = (w1, Inr ch)" "declareTenantQueues am mg ch t w1 = (w2, Inr qs)"
  shows "\<exists>m. SpawnConsumer am t n (w, mg) = Panics m"
proof -
  have c: "clamp_spawn mg n = mg_maxWorkers mg"
    using assms(2,4) by (auto simp: clamp_spawn_def Let_def)
  have i: "int64 (mg_maxWorkers mg * 10) = mg_maxWorkers mg * 10"
    using assms(2,3) by (intro int64_id) auto
  have "\<exists>m. NewWorkerPool t (clamp_spawn mg n) (mg_maxRetry mg) = Panics m"
    using assms(2) by (simp add: NewWorkerPool_def c i make_chan_def)
  then obtain m where "NewWorkerPool t (clamp_spawn mg n) (mg_maxRetry mg) = Panics m" ..
  with assms(1,5,6) show ?thesis
    by (simp add: SpawnConsumer_def GetConsumer_def make_chan_def split: prod.split)
qed

section \<open>Deliveries and items\<close>

text \<open>The item of a delivery, for a consumer of tenant \<open>t\<close>.\<close>

definition item_of :: "go_json \<Rightarrow> string \<Rightarrow> Delivery \<Rightarrow> WorkItem" where
  "item_of js t d =
     (case unmarshal_Message js (dv_Body d) of
        Inr m \<Rightarrow> \<lparr>wi_MessageID = msg_ID m, wi_TenantID = t, wi_Payload = msg_Payload m, wi_RetryCount = 0\<rparr>
      | Inl _ \<Rightarrow> \<lparr>wi_MessageID = [], wi_TenantID = t, wi_Payload = [], wi_RetryCount = 0\<rparr>)"

fun acked_item :: "go_json \<Rightarrow> string \<Rightarrow> consume_label \<Rightarrow> WorkItem list" where
  "acked_item js t (Answered d Ack) = [item_of js t d]"
| "acked_item js t _ = []"

fun finished_item :: "consume_label \<Rightarrow> WorkItem list" where
  "finished_item (PoolStep l) = finished l"
| "finished_item _ = []"

definition consumer_inv :: "string \<Rightarrow> consume_pc \<times> TenantConsumer \<Rightarrow> bool" where
  "consumer_inv t s \<longleftrightarrow> tc_TenantID (snd s) = t \<and> pool_ok (tc_WorkerPool (snd s))"

lemma acked_item_tenant: "i \<in> set (acked_item js t l) \<Longrightarrow> wi_TenantID i = t"
  by (cases "(js, t, l)" rule: acked_item.cases) (auto simp: item_of_def split: sum.splits)

lemma Submit_accounts:
  "Submit pick item wp = (wp', None) \<Longrightarrow>
     mset (queued wp') + mset (in_hand wp') = mset (queued wp) + mset (in_hand wp) + {#item#}"
  using Submit_queued [of pick item wp wp'] by (cases "ch_cap (wp_workChan wp) = 0") auto

lemma processMessage_cases:
  assumes "processMessage js pick ack c d = (c', calls, r)"
  obtains (invalid) e where "unmarshal_Message js (dv_Body d) = Inl e" "c' = c" "calls = [Nack False]"
  | (refused) m e where "unmarshal_Message js (dv_Body d) = Inr m"
      "Submit pick (item_of js (tc_TenantID c) d) (tc_WorkerPool c) = (tc_WorkerPool c, Some e)"
      "c' = c" "calls = [Nack True]"
  | (accepted) m wp where "unmarshal_Message js (dv_Body d) = Inr m"
      "Submit pick (item_of js (tc_TenantID c) d) (tc_WorkerPool c) = (wp, None)"
      "c' = c\<lparr>tc_WorkerPool := wp\<rparr>" "calls = [Ack]"
proof (cases "unmarshal_Message js (dv_Body d)")
  case (Inl e)
  with assms show thesis by (intro invalid [of e]) (simp_all add: processMessage_def)
next
  case (Inr m)
  obtain wp x where s: "Submit pick (item_of js (tc_TenantID c) d) (tc_WorkerPool c) = (wp, x)" by force
  show thesis
  proof (cases x)
    case None
    with s Inr assms show thesis
      by (intro accepted [of m wp]) (simp_all add: processMessage_def item_of_def split: sum.splits)
  next
    case (Some e)
    with s have "wp = tc_WorkerPool c" by (simp add: Submit_def split: if_splits)
    with s Some Inr assms show thesis
      by (intro refused [of m e]) (simp_all add: processMessage_def item_of_def)
  qed
qed

lemma others_step_entered: "others_step l \<Longrightarrow> entered l = []"
  by (cases l) auto

lemma consume_step_items:
  assumes "consumeMessages js s l s'" "consumer_inv t s"
  shows "consumer_inv t s' \<and>
    (mset (queued (tc_WorkerPool (snd s'))) + mset (in_hand (tc_WorkerPool (snd s')))) + mset (finished_item l) =
    (mset (queued (tc_WorkerPool (snd s))) + mset (in_hand (tc_WorkerPool (snd s)))) + mset (acked_item js t l)"
  using assms
proof (induction rule: consumeMessages.induct)
  case (deliver pc pick ack c d c' a r)
  from deliver(2) show ?case
  proof (cases rule: processMessage_cases)
    case (accepted m wp)
    with deliver Submit_ok [OF _ accepted(2)] Submit_accounts [OF accepted(2)] show ?thesis
      by (auto simp: consumer_inv_def)
  qed (use deliver in \<open>auto simp: consumer_inv_def\<close>)
next
  case (pool c l wp pc)
  then show ?case using pool_step_ok [of _ l wp] pool_step_balance [OF pool(1)]
    by (auto simp: consumer_inv_def others_step_entered)
qed (auto simp: consumer_inv_def)

interpretation consumer_items: accounted_machine "consumeMessages js" "consumer_inv t"
    "\<lambda>s. mset (queued (tc_WorkerPool (snd s))) + mset (in_hand (tc_WorkerPool (snd s)))"
    "\<lambda>l. mset (acked_item js t l)" "\<lambda>l. mset (finished_item l)" for js t
  by unfold_locales (use consume_step_items in blast)+

section \<open>A manager for the witnesses\<close>

definition sample_manager :: Manager where
  "sample_manager = NewManager 0 1 5 3 30000000000"

definition sample_consumer :: "WorkerPool \<Rightarrow> TenantConsumer" where
  "sample_consumer wp =
     \<lparr>tc_TenantID = uuid_b, tc_QueueName = main_queue_name uuid_b, tc_WorkerPool = wp, tc_Channel = 0,
      tc_Done = \<lparr>ch_buf = [], ch_cap = 0, ch_closed = False\<rparr>\<rparr>"

definition sample_delivery :: Delivery where
  "sample_delivery =
     \<lparr>dv_Body = uuid_a @ CHR 0x0A # uuid_c @ CHR 0x0A # ''{}'', dv_MessageId = [], dv_Headers = Map.empty\<rparr>"

lemma sample_limits: "limits_ok sample_manager"
  by (simp add: limits_ok_def sample_manager_def NewManager_def)

lemma sample_manager_ok: "mgr_ok sample_manager" "mg_consumers sample_manager = []"
  using mgr_ok_New sample_limits by (simp_all add: sample_manager_def NewManager_def)

lemma sample_spawn:
  "\<exists>w'. SpawnConsumer mem_amqp uuid_b 0 (mem_empty, sample_manager) =
     Returns ((w', sample_manager\<lparr>mg_consumers := [(uuid_b, sample_consumer (sample_pool False [] Idle))]\<rparr>), Inr ())"
proof -
  have "NewWorkerPool uuid_b (clamp_spawn sample_manager 0) (mg_maxRetry sample_manager) =
      Returns (sample_pool False [] Idle)"
    by (simp add: sample_pool_new clamp_spawn_def sample_manager_def NewManager_def)
  moreover obtain w' where "declareTenantQueues mem_amqp sample_manager 0 uuid_b
      (mem_empty\<lparr>mb_next := 1\<rparr>) = (w', Inr (main_queue_name uuid_b, dlq_name uuid_b))"
    using mem_declare [of 0 uuid_b _ "mem_empty\<lparr>mb_next := 1\<rparr>"] unfolding declareTenantQueues_eq by blast
  moreover have "am_Channel mem_amqp cn mem_empty = (mem_empty\<lparr>mb_next := 1\<rparr>, Inr 0)" for cn
    by (simp add: mem_amqp_def mem_empty_def)
  ultimately show ?thesis
    by (simp add: SpawnConsumer_def sample_manager_ok make_chan_def sample_consumer_def)
qed

lemma sample_processMessage:
  "\<exists>r. processMessage sample_js True (Inr ()) (sample_consumer (sample_pool False [] g)) sample_delivery =
    (sample_consumer (sample_pool False [sample_item 0] g), [Ack], r)"
  by (simp add: processMessage_def sample_delivery_def sample_js_def Let_def sample_item_def
      Submit_def work_send_ready_def work_send_def chan_send_ready_def chan_send_def
      sample_consumer_def sample_pool_def)

lemma sample_consume_run:
  "run (consumeMessages sample_js) (Starting, sample_consumer (sample_pool False [] Idle))
     [Answered sample_delivery Ack, PoolStep (Took 0 (sample_item 0)), PoolStep (Finished 0 (sample_item 0)),
      Answered sample_delivery Ack]
     (Looping, sample_consumer (sample_pool False [sample_item 0] Idle))"
proof -
  obtain r where d: "\<And>g. processMessage sample_js True (Inr ()) (sample_consumer (sample_pool False [] g))
      sample_delivery = (sample_consumer (sample_pool False [sample_item 0] g), [Ack], r g)"
    using sample_processMessage by metis
  have u: "sample_consumer wp' = (sample_consumer wp)\<lparr>tc_WorkerPool := wp'\<rparr>" for wp wp'
    by (simp add: sample_consumer_def)
  have p: "pool_step wp l wp' \<Longrightarrow> others_step l \<Longrightarrow>
      consumeMessages js (pc, sample_consumer wp) (PoolStep l) (pc, sample_consumer wp')" for js pc wp l wp'
    by (subst u [of wp' wp]) (rule consumeMessages.pool, simp_all add: sample_consumer_def)
  show ?thesis
    by (rule run_ConsI, rule consumeMessages.deliver [OF _ d], simp,
        rule run_ConsI, rule p [OF sample_pool_steps(2)], simp,
        rule run_ConsI, rule p [OF sample_pool_steps(3)], simp,
        rule run_ConsI, rule consumeMessages.deliver [OF _ d], simp, rule run_NilI)
qed

section \<open>Properties\<close>

text \<open>
  C18: whatever sequence of calls the manager receives, in any interleaving with the work of its
  pools, no later call panics: in particular no channel is ever closed twice. Every registered
  consumer carries its own tenant, reads that tenant's queue, has its channels open and between
  one and \<^verbatim>\<open>maxWorkers\<close> workers, and no tenant is registered twice.
\<close>

theorem manager_never_panics:
  assumes "limits_ok (NewManager cn dw mw mr ttl)"
    and "run (mgr_step am) (w, NewManager cn dw mw mr ttl) ls s"
  shows "(\<exists>x. SpawnConsumer am t n s = Returns x) \<and> (\<exists>x. StopConsumer am t s = Returns x) \<and>
    (\<exists>x. UpdateConcurrency t n s = Returns x) \<and> (\<exists>x. ShutdownAll am s = Returns x) \<and>
    distinct (ListConsumers (snd s)) \<and>
    (\<forall>c. GetConsumer t (snd s) = Some c \<longrightarrow>
       tc_TenantID c = t \<and> tc_QueueName c = main_queue_name t \<and> \<not> ch_closed (tc_Done c) \<and>
       1 \<le> GetWorkerCount (tc_WorkerPool c) \<and> GetWorkerCount (tc_WorkerPool c) \<le> mg_maxWorkers (snd s))"
proof -
  have "mgr_ok (NewManager cn dw mw mr ttl)" by (rule mgr_ok_New [OF assms(1)])
  then have ok: "world_ok s" using mgr.run_inv [OF assms(2)] by simp
  obtain w' mg where s: "s = (w', mg)" by force
  have mg: "mgr_ok mg" using ok by (simp add: s)
  have c: "\<exists>x. SpawnConsumer am t n s = Returns x" "\<exists>x. StopConsumer am t s = Returns x"
    "\<exists>x. UpdateConcurrency t n s = Returns x" "\<exists>x. ShutdownAll am s = Returns x"
    using manager.spawn_total [OF ok, of am t n] manager.stop_total [OF ok, of am t]
      manager.resize_total [OF ok, of t n] ShutdownAll_contract [OF mg, of am w'] by (auto simp: s)
  have d: "distinct (ListConsumers (snd s))" using mg by (simp add: s mgr_ok_def ListConsumers_def)
  have "consumer_ok mg t c" if "GetConsumer t mg = Some c" for c
    using that mgr_okD [OF mg] by (simp add: GetConsumer_def)
  with c d show ?thesis by (simp add: s consumer_ok_def)
qed

theorem manager_never_panics_witness:
  "\<exists>s x y. mgr_step mem_amqp (mem_empty, sample_manager) (CallSpawn uuid_b 0) s \<and>
     StopConsumer mem_amqp uuid_b s = Returns x \<and> ShutdownAll mem_amqp s = Returns y"
proof -
  from sample_spawn obtain s where s: "mgr_step mem_amqp (mem_empty, sample_manager) (CallSpawn uuid_b 0) s"
    using mgr_step.spawn by metis
  then have "run (mgr_step mem_amqp) (mem_empty, NewManager 0 1 5 3 30000000000) [CallSpawn uuid_b 0] s"
    unfolding sample_manager_def by (rule run_ConsI [OF _ run_NilI])
  from manager_never_panics [OF sample_limits [unfolded sample_manager_def] this, of uuid_b 0] s
  show ?thesis by blast
qed

text \<open>
  Spawning a consumer for a tenant that has none. When the call succeeds the tenant is
  registered with the requested number of workers, or the default for a request that is not
  positive, never more than the maximum; its queues are declared; no other tenant's consumer and
  no other tenant's queue changed. When it fails nothing is registered and the call reports why.
\<close>

lemma SpawnConsumer_registers:
  assumes "broker_lawful am view" "mgr_ok mg" "GetConsumer t mg = None"
  shows "\<exists>w' mg' r. SpawnConsumer am t n (w, mg) = Returns ((w', mg'), r) \<and>
    others t (view w') = others t (view w) \<and>
    (\<forall>t'. t' \<noteq> t \<longrightarrow> GetConsumer t' mg' = GetConsumer t' mg) \<and>
    (case r of
       Inl e \<Rightarrow> mg' = mg
     | Inr _ \<Rightarrow> (\<exists>c. GetConsumer t mg' = Some c \<and> GetWorkerCount (tc_WorkerPool c) = clamp_spawn mg n \<and>
          queues (view w') (tc_QueueName c) = Some (main_queue_args (mg_messageTTL mg) (dlx_name t))))"
proof -
  have l: "limits_ok mg" using assms(2) by (simp add: mgr_ok_def)
  have fresh: "map_of (mg_consumers mg) t = None" using assms(3) by (simp add: GetConsumer_def)
  from l show ?thesis
  proof (cases rule: SpawnConsumer_cases [of mg t am n w])
    case dup
    with fresh show ?thesis by simp
  next
    case (failed w' e)
    have "others t (view w') = others t (view w)"
      using SpawnConsumer_others [OF assms(1) failed(2)] .
    with failed show ?thesis by simp
  next
    case (spawned w0 w' ch dlq c)
    have "others t (view w') = others t (view w)"
      using SpawnConsumer_others [OF assms(1) spawned(4)] .
    moreover have "queues (view w') (main_queue_name t) = Some (main_queue_args (mg_messageTTL mg) (dlx_name t))"
      using DeclareTenantQueue_success [OF assms(1) spawned(3) [unfolded declareTenantQueues_eq]] by simp
    moreover have "tc_QueueName c = main_queue_name t" using spawned(5) by (simp add: consumer_ok_def)
    ultimately have "others t (view w') = others t (view w) \<and>
        queues (view w') (tc_QueueName c) = Some (main_queue_args (mg_messageTTL mg) (dlx_name t))" by simp
    moreover have "GetConsumer t (mg\<lparr>mg_consumers := mg_consumers mg @ [(t, c)]\<rparr>) = Some c"
      using fresh by (simp add: GetConsumer_def map_add_def)
    moreover have "GetConsumer t' (mg\<lparr>mg_consumers := mg_consumers mg @ [(t, c)]\<rparr>) = GetConsumer t' mg"
      if "t' \<noteq> t" for t' using that by (simp add: GetConsumer_def map_add_def split: option.split)
    ultimately show ?thesis
      by (intro exI [of _ w'] exI [of _ "mg\<lparr>mg_consumers := mg_consumers mg @ [(t, c)]\<rparr>"]
          exI [of _ "Inr ()"]) (simp add: spawned(4,6))
  qed
qed

text \<open>
  A delivery is answered once: without requeueing exactly when its body is no message, with
  requeueing exactly when the pool refuses its item, and by an acknowledgement exactly when the
  pool took the item in. The rest of the consumer is as before.
\<close>

lemma processMessage_answers:
  assumes "processMessage js pick ack c d = (c', calls, r)"
  shows "c' = c\<lparr>tc_WorkerPool := tc_WorkerPool c'\<rparr> \<and>
    (case calls of
       [Nack False] \<Rightarrow> isl (unmarshal_Message js (dv_Body d)) \<and> tc_WorkerPool c' = tc_WorkerPool c
     | [Nack True] \<Rightarrow> \<not> isl (unmarshal_Message js (dv_Body d)) \<and> tc_WorkerPool c' = tc_WorkerPool c \<and>
         (\<not> work_send_ready (tc_WorkerPool c) \<or> ch_closed (wp_doneChan (tc_WorkerPool c)))
     | [Ack] \<Rightarrow> \<not> isl (unmarshal_Message js (dv_Body d)) \<and>
         mset (queued (tc_WorkerPool c')) + mset (in_hand (tc_WorkerPool c')) =
           mset (queued (tc_WorkerPool c)) + mset (in_hand (tc_WorkerPool c)) +
           {#item_of js (tc_TenantID c) d#}
     | _ \<Rightarrow> False)"
  using assms
proof (cases rule: processMessage_cases)
  case (accepted m wp)
  then show ?thesis using Submit_accounts [OF accepted(2)] by simp
qed (auto simp: Submit_def split: if_splits)

text \<open>
  C12: from a consumer with an empty pool, in every interleaving of its goroutine with the pool's
  workers, the items of the acknowledged deliveries are exactly the ones finished, being
  processed, or still in the channel: an acknowledged delivery is handed to the pool once, and
  what was not acknowledged never reaches it. Each item carries the consumer's tenant, whatever
  tenant the body names.
\<close>

theorem acknowledged_items_accounted:
  assumes "run (consumeMessages js) (Starting, c) ls (pc, c')"
    and "pool_ok (tc_WorkerPool c)" "queued (tc_WorkerPool c) = []" "in_hand (tc_WorkerPool c) = []"
  shows "mset (concat (map (acked_item js (tc_TenantID c)) ls)) =
    mset (concat (map finished_item ls)) +
    mset (in_hand (tc_WorkerPool c')) + mset (queued (tc_WorkerPool c')) \<and>
    (\<forall>i \<in> set (concat (map (acked_item js (tc_TenantID c)) ls)). wi_TenantID i = tc_TenantID c)"
proof -
  have "mset (concat (map (acked_item js (tc_TenantID c)) ls)) =
      mset (concat (map finished_item ls)) +
      (mset (queued (tc_WorkerPool c')) + mset (in_hand (tc_WorkerPool c')))"
    using consumer_items.run_balance [OF assms(1), of "tc_TenantID c"] assms(2-4)
    by (simp add: mset_concat_map consumer_inv_def ac_simps)
  moreover have "\<forall>l \<in> set ls. \<forall>i \<in> set (acked_item js (tc_TenantID c) l). wi_TenantID i = tc_TenantID c"
    using acked_item_tenant by blast
  ultimately show ?thesis by (simp add: ac_simps)
qed

theorem acknowledged_items_accounted_witness:
  "mset (concat (map (acked_item sample_js uuid_b)
      [Answered sample_delivery Ack, PoolStep (Took 0 (sample_item 0)),
       PoolStep (Finished 0 (sample_item 0)), Answered sample_delivery Ack])) =
    {#sample_item 0, sample_item 0#}"
  using acknowledged_items_accounted [OF sample_consume_run]
  by (simp add: sample_consumer_def pool_ok_def sample_pool_def chan_wf_def in_hand_def)

end
