(* ===== verification/Rfc3339.thy ===== *)
theory Rfc3339
  imports Prelude "HOL-Library.Monad_Syntax"
begin

text \<open>
  The layouts RFC3339 and RFC3339Nano of Go's \<^verbatim>\<open>time\<close> package, in a zone of a fixed offset: the
  calendar, \<^verbatim>\<open>Time.Format\<close> and \<^verbatim>\<open>time.Parse\<close>. A time is the number of nanoseconds since 1970; the
  offset of the zone is in minutes.
\<close>

section \<open>Calendar\<close>

definition is_leap :: "int \<Rightarrow> bool" where
  "is_leap y \<longleftrightarrow> y mod 4 = 0 \<and> (y mod 100 \<noteq> 0 \<or> y mod 400 = 0)"

definition month_days :: "int \<Rightarrow> nat list" where
  "month_days y = [31, if is_leap y then 29 else 28, 31, 30, 31, 30, 31, 31, 30, 31, 30, 31]"

text \<open>Days from January 1 of the year 1 to January 1 of a year.\<close>

definition days_before :: "int \<Rightarrow> int" where
  "days_before y = (let k = y - 1 in 365 * k + k div 4 - k div 100 + k div 400)"

definition date_days :: "int \<Rightarrow> nat \<Rightarrow> nat \<Rightarrow> int" where
  "date_days y m d = days_before y + int (sum_list (take (m - 1) (month_days y))) + int d - 1"

text \<open>The year of a day number and the day within it, by cycles of 400, 100, 4 and 1 years.\<close>

definition year_day :: "int \<Rightarrow> int \<times> nat" where
  "year_day n =
     (let a = n div 146097; r = n mod 146097;
          b = min 3 (r div 36524); r2 = r - 36524 * b;
          c = r2 div 1461; r3 = r2 - 1461 * c;
          e = min 3 (r3 div 365)
      in (400 * a + 100 * b + 4 * c + e + 1, nat (r3 - 365 * e)))"

fun split_month :: "nat list \<Rightarrow> nat \<Rightarrow> nat \<times> nat" where
  "split_month [] d = (1, d + 1)"
| "split_month (l # ls) d =
     (if d < l then (1, d + 1) else (let (m, k) = split_month ls (d - l) in (m + 1, k)))"

text \<open>Days from January 1 of the year 1 to January 1, 1970.\<close>

definition epoch_days :: int where
  "epoch_days = 719162"

section \<open>Format\<close>

text \<open>A numeral of at least the given width, with leading zeros.\<close>

fun pad :: "nat \<Rightarrow> nat \<Rightarrow> string" where
  "pad 0 n = (if n = 0 then [] else show_nat n)"
| "pad (Suc k) n = pad k (n div 10) @ [char_of (48 + n mod 10)]"

definition year_text :: "int \<Rightarrow> string" where
  "year_text y = (if y < 0 then CHR ''-'' # pad 4 (nat (- y)) else pad 4 (nat y))"

definition frac_text :: "nat \<Rightarrow> string" where
  "frac_text ns =
     (if ns = 0 then [] else CHR ''.'' # rev (dropWhile (\<lambda>c. c = CHR ''0'') (rev (pad 9 ns))))"

definition zone_text :: "int \<Rightarrow> string" where
  "zone_text z =
     (if z = 0 then ''Z''
      else (if z < 0 then CHR ''-'' else CHR ''+'') # pad 2 (nat \<bar>z\<bar> div 60) @ CHR '':'' # pad 2 (nat \<bar>z\<bar> mod 60))"

definition clock_text :: "nat \<Rightarrow> string" where
  "clock_text s = pad 2 (s div 3600) @ CHR '':'' # pad 2 (s div 60 mod 60) @ CHR '':'' # pad 2 (s mod 60)"

definition format_rfc3339 :: "bool \<Rightarrow> int \<Rightarrow> time \<Rightarrow> string" where
  "format_rfc3339 nano z t =
     (let secs = t div 10 ^ 9 + 60 * z;
          (y, yday) = year_day (secs div 86400 + epoch_days);
          (m, d) = split_month (month_days y) yday
      in year_text y @ CHR ''-'' # pad 2 m @ CHR ''-'' # pad 2 d @ CHR ''T'' # clock_text (nat (secs mod 86400)) @
         (if nano then frac_text (nat (t mod 10 ^ 9)) else []) @ zone_text z)"

section \<open>Parse\<close>

text \<open>\<^verbatim>\<open>getnum\<close>: two digits, or one where the layout allows it.\<close>

definition getnum :: "bool \<Rightarrow> string \<Rightarrow> (int \<times> string) option" where
  "getnum fixed s =
     (case s of
        [] \<Rightarrow> None
      | c # s1 \<Rightarrow>
          (case digit c of
             None \<Rightarrow> None
           | Some a \<Rightarrow>
               (case s1 of
                  [] \<Rightarrow> if fixed then None else Some (a, s1)
                | c2 # s2 \<Rightarrow>
                    (case digit c2 of
                       None \<Rightarrow> if fixed then None else Some (a, s1)
                     | Some b \<Rightarrow> Some (10 * a + b, s2)))))"

definition expect :: "char \<Rightarrow> string \<Rightarrow> string option" where
  "expect c s = (case s of [] \<Rightarrow> None | x # xs \<Rightarrow> if x = c then Some xs else None)"

definition in_range :: "int \<Rightarrow> int \<Rightarrow> int \<Rightarrow> unit option" where
  "in_range lo hi n = (if lo \<le> n \<and> n \<le> hi then Some () else None)"

definition getyear :: "string \<Rightarrow> (int \<times> string) option" where
  "getyear s =
     (if length s < 4 \<or> digit (hd s) = None then None
      else map_option (\<lambda>y. (y, drop 4 s)) (digits 0 (take 4 s)))"

text \<open>Hours, minutes and seconds, as seconds of the day.\<close>

definition getclock :: "string \<Rightarrow> (int \<times> string) option" where
  "getclock s = do {
     (h, s) \<leftarrow> getnum False s;
     in_range 0 23 h;
     s \<leftarrow> expect (CHR '':'') s;
     (mi, s) \<leftarrow> getnum True s;
     in_range 0 59 mi;
     s \<leftarrow> expect (CHR '':'') s;
     (sec, s) \<leftarrow> getnum True s;
     in_range 0 59 sec;
     Some (h * 3600 + mi * 60 + sec, s)
   }"

text \<open>A fraction after the seconds, of which nine digits count, though the layout has none.\<close>

definition getfrac :: "string \<Rightarrow> int \<times> string" where
  "getfrac s =
     (case s of
        c # c1 # s1 \<Rightarrow>
          if (c = CHR ''.'' \<or> c = CHR '','') \<and> digit c1 \<noteq> None
          then (let ds = take 9 (takeWhile (\<lambda>c. digit c \<noteq> None) (c1 # s1))
                in (the (digits 0 ds) * 10 ^ (9 - length ds), dropWhile (\<lambda>c. digit c \<noteq> None) (c1 # s1)))
          else (0, s)
      | _ \<Rightarrow> (0, s))"

text \<open>The offset in seconds.\<close>

definition getzone :: "string \<Rightarrow> (int \<times> string) option" where
  "getzone s =
     (if s \<noteq> [] \<and> hd s = CHR ''Z'' then Some (0, tl s)
      else if length s < 6 \<or> s ! 3 \<noteq> CHR '':'' then None
      else do {
        (hr, _) \<leftarrow> getnum True (take 2 (drop 1 s));
        (mm, _) \<leftarrow> getnum True (take 2 (drop 4 s));
        in_range 0 24 hr;
        in_range 0 60 mm;
        (if hd s = CHR ''+'' then Some ((hr * 60 + mm) * 60, drop 6 s)
         else if hd s = CHR ''-'' then Some (- ((hr * 60 + mm) * 60), drop 6 s)
         else None)
      })"

definition parse_rfc3339 :: "string \<Rightarrow> time option" where
  "parse_rfc3339 s0 = do {
     (y, s) \<leftarrow> getyear s0;
     s \<leftarrow> expect (CHR ''-'') s;
     (m, s) \<leftarrow> getnum True s;
     in_range 1 12 m;
     s \<leftarrow> expect (CHR ''-'') s;
     (d, s) \<leftarrow> getnum True s;
     s \<leftarrow> expect (CHR ''T'') s;
     (sod, s) \<leftarrow> getclock s;
     let (ns, s) = getfrac s;
     (off, s) \<leftarrow> getzone s;
     (if s = [] then Some () else None);
     in_range 1 (int (month_days y ! (nat m - 1))) d;
     Some (((date_days y (nat m) (nat d) - epoch_days) * 86400 + sod - off) * 10 ^ 9 + ns)
   }"

section \<open>The calendar is consistent\<close>

lemma div_bounds:
  fixes x m :: int
  assumes "0 < m"
  shows "m * (x div m) \<le> x \<and> x < m * (x div m) + m"
  using assms pos_mod_bound [of m x] pos_mod_sign [of m x] mult_div_mod_eq [of m x] by linarith

text \<open>Splitting off as many cycles as fit, but no more than \<open>k\<close>.\<close>

lemma split_cycle:
  fixes x m k q :: int
  assumes "q = min k (x div m)" "0 < m" "0 \<le> x" "0 \<le> k"
  shows "0 \<le> q" "q \<le> k" "0 \<le> x - m * q" "q < k \<Longrightarrow> x - m * q < m"
proof -
  have d: "m * (x div m) \<le> x" "x < m * (x div m) + m" using div_bounds [OF assms(2), of x] by auto
  have "0 \<le> x div m" using assms(2,3) by (simp add: pos_imp_zdiv_nonneg_iff)
  then show "0 \<le> q" "q \<le> k" using assms(1,4) by simp_all
  have "m * q \<le> m * (x div m)" using assms(1,2) by simp
  with d show "0 \<le> x - m * q" by linarith
  assume "q < k"
  then have "q = x div m" using assms(1) by (simp add: min_def split: if_splits)
  with d show "x - m * q < m" by simp
qed

lemma cycle_div:
  fixes a b c e :: int
  assumes "0 \<le> b" "b \<le> 3" "0 \<le> c" "c \<le> 24" "0 \<le> e" "e \<le> 3"
  shows "(400 * a + 100 * b + 4 * c + e) div 4 = 100 * a + 25 * b + c"
    and "(400 * a + 100 * b + 4 * c + e) div 100 = 4 * a + b"
    and "(400 * a + 100 * b + 4 * c + e) div 400 = a"
  using assms by linarith+

lemma cycle_leap:
  fixes a b c e :: int
  assumes "0 \<le> b" "b \<le> 3" "0 \<le> c" "c \<le> 24" "0 \<le> e" "e \<le> 3"
  shows "is_leap (400 * a + 100 * b + 4 * c + e + 1) \<longleftrightarrow> e = 3 \<and> (c < 24 \<or> b = 3)"
proof -
  let ?y = "400 * a + 100 * b + 4 * c + e + 1"
  have y: "?y = e + 1 + 4 * (100 * a + 25 * b + c)" "?y = 4 * c + e + 1 + 100 * (4 * a + b)"
    "?y = 100 * b + 4 * c + e + 1 + 400 * a" by simp_all
  have 4: "?y mod 4 = (e + 1) mod 4" unfolding y(1) by (rule mod_mult_self2)
  have 100: "?y mod 100 = (4 * c + e + 1) mod 100" unfolding y(2) by (rule mod_mult_self2)
  have 400: "?y mod 400 = (100 * b + 4 * c + e + 1) mod 400" unfolding y(3) by (rule mod_mult_self2)
  have z: "x mod m = 0 \<longleftrightarrow> x = m" if "0 < x" "x \<le> m" for x m :: int
    using that by (cases "x = m") auto
  show ?thesis
    unfolding is_leap_def 4 100 400
    using z [of "e + 1" 4] z [of "4 * c + e + 1" 100] z [of "100 * b + 4 * c + e + 1" 400] assms by auto
qed

lemma year_day_cycles:
  assumes "year_day n = (y, k)"
  obtains b c e where "y = 400 * (n div 146097) + 100 * b + 4 * c + e + 1"
    "0 \<le> b" "b \<le> 3" "0 \<le> c" "c \<le> 24" "0 \<le> e" "e \<le> 3"
    "days_before y + int k = n" "k < sum_list (month_days y)"
proof -
  define a where "a = n div 146097"
  define r where "r = n mod 146097"
  define b where "b = min 3 (r div 36524)"
  define r2 where "r2 = r - 36524 * b"
  define c where "c = r2 div 1461"
  define r3 where "r3 = r2 - 1461 * c"
  define e where "e = min 3 (r3 div 365)"
  note defs = a_def r_def b_def r2_def c_def r3_def e_def
  have yk: "y = 400 * a + 100 * b + 4 * c + e + 1" "k = nat (r3 - 365 * e)"
    using assms unfolding year_day_def Let_def defs [symmetric] by simp_all
  have n: "n = 146097 * a + r" "0 \<le> r" "r < 146097" by (simp_all add: a_def r_def)
  note b = split_cycle [OF b_def _ n(2), folded r2_def, simplified]
  have r2: "0 \<le> r2" "r2 \<le> 36524" using b n(3) by (simp_all add: r2_def) linarith
  have c: "0 \<le> c" "c \<le> 24" "0 \<le> r3" "r3 < 1461"
    using r2 div_bounds [of 1461 r2] by (auto simp: c_def r3_def)
  note e = split_cycle [OF e_def _ c(3), simplified]
  have l: "e = 3 \<longrightarrow> r3 - 1095 = 365 \<longrightarrow> c < 24 \<or> b = 3"
    using b(2,4) r2 c(2) by (cases "c = 24"; cases "b = 3") (auto simp: r3_def)
  have d: "days_before y = 365 * (400 * a + 100 * b + 4 * c + e) + (100 * a + 25 * b + c) - (4 * a + b) + a"
    using cycle_div [OF b(1,2) c(1,2) e(1,2), of a] by (simp add: days_before_def yk(1) Let_def)
  have "r3 - 365 * e < (if e = 3 \<and> (c < 24 \<or> b = 3) then 366 else 365)"
    using e(4) c(4) e(2) l by (cases "e = 3") auto
  then have "int k < (if is_leap y then 366 else 365)"
    using cycle_leap [OF b(1,2) c(1,2) e(1,2), of a] e(3) by (simp add: yk split: if_splits)
  moreover have "int k = r3 - 365 * e" using e(3) by (simp add: yk(2))
  ultimately have "days_before y + int k = n \<and> k < sum_list (month_days y)"
    using n(1) by (simp add: d r2_def r3_def month_days_def split: if_splits)
  then show thesis using yk(1) b(1,2) c(1,2) e(1,2) unfolding a_def by (intro that [of b c e]) simp_all
qed

lemma year_day_range:
  assumes "year_day n = (y, k)"
  shows "days_before y + int k = n \<and> k < sum_list (month_days y)"
  using assms by (rule year_day_cycles) simp

lemma split_month_range:
  "d < sum_list ls \<Longrightarrow> split_month ls d = (m, k) \<Longrightarrow>
     1 \<le> m \<and> m \<le> length ls \<and> 1 \<le> k \<and> k \<le> ls ! (m - 1) \<and> sum_list (take (m - 1) ls) + k = d + 1"
proof (induction ls arbitrary: d m k)
  case (Cons l ls)
  show ?case
  proof (cases "d < l")
    case True
    with Cons.prems show ?thesis by auto
  next
    case False
    obtain m' k' where s: "split_month ls (d - l) = (m', k')" by force
    with False Cons.prems have "m = m' + 1" "k = k'" by auto
    moreover have "d - l < sum_list ls" using False Cons.prems(1) by simp
    ultimately show ?thesis using Cons.IH [OF _ s] False by (cases m') auto
  qed
qed simp

text \<open>The date of a day number has that day number.\<close>

lemma date_of_days:
  assumes "year_day n = (y, yday)" "split_month (month_days y) yday = (m, d)"
  shows "date_days y m d = n \<and> 1 \<le> m \<and> m \<le> 12 \<and> 1 \<le> d \<and> d \<le> month_days y ! (m - 1) \<and> d \<le> 31"
proof -
  note y = year_day_range [OF assms(1)]
  note m = split_month_range [OF conjunct2 [OF y] assms(2)]
  have len: "length (month_days y) = 12" by (simp add: month_days_def)
  have "\<forall>l \<in> set (month_days y). l \<le> 31" by (simp add: month_days_def)
  moreover have "month_days y ! (m - 1) \<in> set (month_days y)" using m len by (intro nth_mem) auto
  ultimately have "d \<le> 31" using m by fastforce
  with y m len show ?thesis by (auto simp: date_days_def)
qed

lemma year_day_year:
  assumes "year_day n = (y, k)" "0 \<le> n" "n < 3652059"
  shows "1 \<le> y \<and> y \<le> 9999"
proof -
  from assms(1) obtain b c e where
    y: "y = 400 * (n div 146097) + 100 * b + 4 * c + e + 1" "0 \<le> b" "b \<le> 3" "0 \<le> c" "c \<le> 24" "0 \<le> e" "e \<le> 3"
    "days_before y + int k = n" by (rule year_day_cycles)
  have "0 \<le> n div 146097" "n div 146097 \<le> 24" using assms(2,3) by auto
  then have "1 \<le> y" "y \<le> 10000" using y(1-7) by auto
  moreover have "y \<noteq> 10000" using y(8) assms(3) by (auto simp: days_before_def)
  ultimately show ?thesis by simp
qed

section \<open>Round trip\<close>

lemma length_pad: "n < 10 ^ k \<Longrightarrow> length (pad k n) = k"
  by (induction k n rule: pad.induct) auto

lemma digits_pad: "n < 10 ^ k \<Longrightarrow> digits acc (pad k n) = Some (acc * 10 ^ k + int n)"
proof (induction k arbitrary: n acc)
  case (Suc k)
  then have "digits acc (pad k (n div 10)) = Some (acc * 10 ^ k + int (n div 10))" by (intro Suc.IH) auto
  moreover have "10 * int (n div 10) + int (n mod 10) = int n" by (simp add: zdiv_int zmod_int)
  ultimately show ?case by (simp add: digits_append digit_char algebra_simps)
qed simp

lemma digit_pad: "c \<in> set (pad k n) \<Longrightarrow> n < 10 ^ k \<Longrightarrow> digit c \<noteq> None"
proof (induction k arbitrary: n)
  case (Suc k)
  then show ?case using Suc.IH [of "n div 10"] by (auto simp: digit_char)
qed simp

lemma pad_2: "n < 100 \<Longrightarrow> pad 2 n = [char_of (48 + n div 10), char_of (48 + n mod 10)]"
  by (simp add: numeral_2_eq_2)

lemma getnum_pad: "n < 100 \<Longrightarrow> getnum fixed (pad 2 n @ s) = Some (int n, s)"
proof -
  assume n: "n < 100"
  then have "digit (char_of (48 + n div 10)) = Some (int (n div 10))" "digit (char_of (48 + n mod 10)) = Some (int (n mod 10))"
    by (intro digit_char; simp)+
  moreover have "10 * int (n div 10) + int (n mod 10) = int n" by (simp add: zdiv_int zmod_int)
  ultimately show ?thesis by (simp add: getnum_def pad_2 [OF n])
qed

lemma getyear_text: "1 \<le> y \<Longrightarrow> y \<le> 9999 \<Longrightarrow> getyear (year_text y @ s) = Some (y, s)"
proof -
  assume y: "1 \<le> y" "y \<le> 9999"
  then have n: "nat y < 10 ^ 4" by simp
  have l: "length (pad 4 (nat y)) = 4" by (rule length_pad [OF n])
  then have "hd (pad 4 (nat y)) \<in> set (pad 4 (nat y))" by (intro hd_in_set) auto
  from digit_pad [OF this n] have "digit (hd (pad 4 (nat y) @ s)) \<noteq> None"
    using l by (subst hd_append) auto
  with y l digits_pad [OF n, of 0] show ?thesis by (simp add: getyear_def year_text_def)
qed

definition zone_ok :: "int \<Rightarrow> bool" where
  "zone_ok z \<longleftrightarrow> \<bar>z\<bar> < 24 * 60"

lemma getzone_text: "zone_ok z \<Longrightarrow> getzone (zone_text z) = Some (60 * z, [])"
proof -
  assume z: "zone_ok z"
  let ?h = "nat \<bar>z\<bar> div 60" and ?m = "nat \<bar>z\<bar> mod 60"
  have h: "?h < 24" "?m < 60" using z by (auto simp: zone_ok_def)
  have hm: "int ?h * 60 + int ?m = \<bar>z\<bar>" by (simp add: zdiv_int zmod_int)
  have g: "getnum True (pad 2 ?h) = Some (int ?h, [])" "getnum True (pad 2 ?m) = Some (int ?m, [])"
    using getnum_pad [of ?h True "[]"] getnum_pad [of ?m True "[]"] h by simp_all
  have p: "\<exists>a b. pad 2 ?h = [a, b]" "\<exists>a b. pad 2 ?m = [a, b]" using h by (simp_all add: pad_2)
  then obtain a b c d where abcd: "pad 2 ?h = [a, b]" "pad 2 ?m = [c, d]" by blast
  have r: "in_range 0 24 (int ?h) = Some ()" "in_range 0 60 (int ?m) = Some ()"
    using h by (simp_all add: in_range_def)
  show ?thesis
  proof (cases "z = 0")
    case True
    then show ?thesis by (simp add: zone_text_def getzone_def)
  next
    case False
    with g r hm show ?thesis
      unfolding abcd by (auto simp: zone_text_def getzone_def abcd numeral_3_eq_3)
  qed
qed

lemma zone_text_head: "\<exists>c s. zone_text z = c # s \<and> digit c = None \<and> c \<noteq> CHR ''.'' \<and> c \<noteq> CHR '',''"
proof -
  have "digit (CHR ''Z'') = None" "digit (CHR ''+'') = None" "digit (CHR ''-'') = None" by code_simp+
  then show ?thesis by (auto simp: zone_text_def)
qed

lemma digits_zeros: "digits acc (s @ replicate k (CHR ''0'')) = map_option (\<lambda>v. v * 10 ^ k) (digits acc s)"
proof -
  have "digit (CHR ''0'') = Some 0" by code_simp
  then have "digits v (replicate k (CHR ''0'')) = Some (v * 10 ^ k)" for v
    by (induction k arbitrary: v) auto
  then show ?thesis by (simp add: digits_append split: option.split)
qed

lemma strip_zeros:
  "\<exists>k. rev (dropWhile (\<lambda>c. c = x) (rev s)) @ replicate k x = s"
proof -
  have "takeWhile (\<lambda>c. c = x) (rev s) = replicate (length (takeWhile (\<lambda>c. c = x) (rev s))) x"
    by (rule replicate_length_same [symmetric]) (auto dest: set_takeWhileD)
  moreover have "rev (dropWhile (\<lambda>c. c = x) (rev s)) @ rev (takeWhile (\<lambda>c. c = x) (rev s)) = s"
    by (simp flip: rev_append)
  ultimately show ?thesis by (metis rev_replicate)
qed

lemma getfrac_text: "ns < 10 ^ 9 \<Longrightarrow> getfrac (frac_text ns @ zone_text z) = (int ns, zone_text z)"
proof (cases "ns = 0")
  case True
  obtain c s where "zone_text z = c # s" "digit c = None" "c \<noteq> CHR ''.''" "c \<noteq> CHR '',''"
    using zone_text_head [of z] by blast
  then show ?thesis by (auto simp: True frac_text_def getfrac_def split: list.split)
next
  case False
  assume ns: "ns < 10 ^ 9"
  define ds where "ds = rev (dropWhile (\<lambda>c. c = CHR ''0'') (rev (pad 9 ns)))"
  from strip_zeros [of "CHR ''0''" "pad 9 ns"] obtain k where k: "ds @ replicate k (CHR ''0'') = pad 9 ns"
    by (auto simp: ds_def)
  have len: "length ds + k = 9" using arg_cong [OF k, of length] length_pad [OF ns] by simp
  have dig: "digit c \<noteq> None" if "c \<in> set ds" for c
    using digit_pad [OF _ ns, of c] that by (simp flip: k)
  have v: "map_option (\<lambda>v. v * 10 ^ k) (digits 0 ds) = Some (int ns)"
    using digits_zeros [of 0 ds k] digits_pad [OF ns, of 0] by (simp add: k)
  with False have "ds \<noteq> []" by auto
  then obtain c1 ds' where "ds = c1 # ds'" by (cases ds) auto
  moreover from this dig [of c1] obtain v1 where "digit c1 = Some v1" by auto
  ultimately have c1: "ds = c1 # ds'" "digit c1 = Some v1" .
  obtain c s where z: "zone_text z = c # s" "digit c = None" using zone_text_head [of z] by blast
  have t: "takeWhile (\<lambda>c. digit c \<noteq> None) (ds @ zone_text z) = ds"
    "dropWhile (\<lambda>c. digit c \<noteq> None) (ds @ zone_text z) = zone_text z"
    using dig by (auto simp: takeWhile_append dropWhile_append z)
  have "9 - length ds = k" "take 8 ds' = ds'" using len c1(1) by auto
  then have "getfrac (CHR ''.'' # ds @ zone_text z) = (the (digits 0 ds) * 10 ^ k, zone_text z)"
    using t c1 by (simp add: getfrac_def)
  moreover have "the (digits 0 ds) * 10 ^ k = int ns" using v by auto
  ultimately show ?thesis using False by (simp add: frac_text_def ds_def)
qed

lemma getclock_text:
  assumes "sod < 86400"
  shows "getclock (clock_text sod @ r) = Some (int sod, r)"
proof -
  define q where "q = sod div 60"
  define h where "h = q div 60"
  define mi where "mi = q mod 60"
  define sec where "sec = sod mod 60"
  have h: "sod div 3600 = h" using div_mult2_eq [of sod 60 60] by (simp add: h_def q_def)
  have e: "sod = 60 * q + sec" "q = 60 * h + mi" "mi < 60" "sec < 60"
    by (simp_all add: q_def h_def mi_def sec_def)
  from e assms have "h < 24" by linarith
  moreover have "mi \<le> 59" "sec \<le> 59" using e by simp_all
  moreover have "int h * 3600 + int mi * 60 + int sec = int sod" using e(1,2) by simp
  ultimately show ?thesis
    by (simp add: getclock_def clock_text_def h flip: q_def mi_def sec_def) (simp add: getnum_pad expect_def in_range_def)
qed

text \<open>The instants whose date lies in the years 1970 to 9999 in every zone.\<close>

definition time_limit :: time where
  "time_limit = 253402214400 * 10 ^ 9"

lemma day_number_range:
  assumes "zone_ok z" "0 \<le> t" "t < time_limit"
  shows "0 \<le> (t div 10 ^ 9 + 60 * z) div 86400 + epoch_days \<and>
    (t div 10 ^ 9 + 60 * z) div 86400 + epoch_days < 3652059"
proof -
  have t: "0 \<le> t div 10 ^ 9" "t div 10 ^ 9 < 253402214400" using assms(2,3) by (simp_all add: time_limit_def)
  have z: "- 86340 \<le> 60 * z" "60 * z \<le> 86340" using assms(1) by (auto simp: zone_ok_def)
  from t z show ?thesis by (auto simp: epoch_days_def)
qed

lemma parse_format:
  assumes "zone_ok z" "0 \<le> t" "t < time_limit"
  shows "parse_rfc3339 (format_rfc3339 nano z t) = Some (if nano then t else t div 10 ^ 9 * 10 ^ 9)"
proof -
  let ?secs = "t div 10 ^ 9 + 60 * z"
  let ?n = "?secs div 86400 + epoch_days" and ?sod = "nat (?secs mod 86400)"
  obtain y yday where y: "year_day ?n = (y, yday)" by force
  obtain m d where m: "split_month (month_days y) yday = (m, d)" by force
  note md = date_of_days [OF y m]
  have "0 \<le> ?n" "?n < 3652059" using day_number_range [OF assms] by simp_all
  from year_day_year [OF y this] have yr: "1 \<le> y" "y \<le> 9999" by simp_all
  have sod: "?sod < 86400" by simp
  let ?f = "if nano then frac_text (nat (t mod 10 ^ 9)) else []"
  have ns: "nat (t mod 10 ^ 9) < 10 ^ 9" by simp
  have f: "getfrac (?f @ zone_text z) = (if nano then t mod 10 ^ 9 else 0, zone_text z)"
    using getfrac_text [OF ns, of z] getfrac_text [of 0 z] by (simp add: frac_text_def)
  have form: "format_rfc3339 nano z t =
      year_text y @ CHR ''-'' # pad 2 m @ CHR ''-'' # pad 2 d @ CHR ''T'' # clock_text ?sod @ ?f @ zone_text z"
    unfolding format_rfc3339_def Let_def y prod.case m by simp
  have "parse_rfc3339 (format_rfc3339 nano z t) =
      Some (((?n - epoch_days) * 86400 + int ?sod - 60 * z) * 10 ^ 9 + (if nano then t mod 10 ^ 9 else 0))"
    unfolding form parse_rfc3339_def
    using md yr
    by (simp add: getyear_text expect_def getnum_pad in_range_def getclock_text [OF sod] f getzone_text [OF assms(1)]
        del: power_numeral)
  moreover have "(?n - epoch_days) * 86400 + int ?sod - 60 * z = t div 10 ^ 9" by simp
  ultimately show ?thesis by (simp add: algebra_simps)
qed

end
