(* ===== verification/Go_Time.thy ===== *)
theory Go_Time
  imports Rfc3339
begin

text \<open>
  What the program uses of Go's \<^verbatim>\<open>time\<close> package: the layouts RFC3339 and RFC3339Nano
  (\<^verbatim>\<open>database/sql\<close> scans a time into a string with the latter) and parsing RFC3339, which also
  accepts a fraction of a second. The codec of the process's time zone is \<open>rfc3339 z\<close>, for an
  offset of \<open>z\<close> minutes; \<open>time_lawful\<close> is what the rest of the development uses of it.
\<close>

record go_time =
  Format_RFC3339 :: "time \<Rightarrow> string"
  Format_RFC3339Nano :: "time \<Rightarrow> string"
  Parse_RFC3339 :: "string \<Rightarrow> time res"

definition whole_second :: "time \<Rightarrow> time" where
  "whole_second t = t div 10 ^ 9 * 10 ^ 9"

definition time_lawful :: "go_time \<Rightarrow> bool" where
  "time_lawful tm \<longleftrightarrow>
     (\<forall>t. 0 \<le> t \<and> t < time_limit \<longrightarrow>
        Parse_RFC3339 tm (Format_RFC3339Nano tm t) = Inr t \<and>
        Parse_RFC3339 tm (Format_RFC3339 tm t) = Inr (whole_second t) \<and>
        Format_RFC3339 tm t \<noteq> [])"

definition rfc3339 :: "int \<Rightarrow> go_time" where
  "rfc3339 z =
     \<lparr>Format_RFC3339 = format_rfc3339 False z, Format_RFC3339Nano = format_rfc3339 True z,
      Parse_RFC3339 = (\<lambda>s. case parse_rfc3339 s of None \<Rightarrow> Inl (ErrorNew ''parsing time'') | Some t \<Rightarrow> Inr t)\<rparr>"

lemma format_rfc3339_not_empty: "format_rfc3339 nano z t \<noteq> []"
  by (simp add: format_rfc3339_def Let_def split: prod.split)

lemma rfc3339_lawful: "zone_ok z \<Longrightarrow> time_lawful (rfc3339 z)"
  by (simp add: time_lawful_def rfc3339_def parse_format format_rfc3339_not_empty whole_second_def)

text \<open>The zero \<^verbatim>\<open>time.Time\<close>, January 1 of the year 1.\<close>

definition zero_time :: time where
  "zero_time = - 62135596800 * 10 ^ 9"

lemma whole_second_le: "whole_second t \<le> t"
  by (simp add: whole_second_def flip: minus_mod_eq_div_mult)

lemma whole_second_idem [simp]: "whole_second (whole_second t) = whole_second t"
  by (simp add: whole_second_def)

lemma whole_second_mono: "s \<le> t \<Longrightarrow> whole_second s \<le> whole_second t"
  by (simp add: whole_second_def zdiv_mono1)

lemma whole_second_nonneg: "0 \<le> t \<Longrightarrow> 0 \<le> whole_second t"
  by (simp add: whole_second_def)

text \<open>The zone of the witnesses.\<close>

definition sample_time :: go_time where
  "sample_time = rfc3339 420"

lemma sample_zone: "\<exists>z. zone_ok z \<and> sample_time = rfc3339 z"
  by (rule exI [of _ 420]) (simp add: sample_time_def zone_ok_def)

end
