(* ===== verification/Tenant_Service.thy ===== *)
theory Tenant_Service
  imports Samples Go_Time
begin

text \<open>
  \<^verbatim>\<open>TenantService\<close> of \<^verbatim>\<open>internal/service/tenant_service.go\<close>. What a call takes from its
  surroundings is a record: the fault its statement meets, the server's clock, the UUID that
  \<^verbatim>\<open>uuid.New\<close> draws and the error, if any, that the driver reports for \<^verbatim>\<open>RowsAffected\<close>.
\<close>

record CreateTenantRequest =
  ct_Name :: string
  ct_Workers :: int

record TenantResponse =
  tr_ID :: string
  tr_Name :: string
  tr_Workers :: int
  tr_CreatedAt :: string
  tr_UpdatedAt :: string

record svc_env =
  se_fault :: fault
  se_now :: time
  se_uuid :: string
  se_rows_err :: "go_error option"

text \<open>\<^verbatim>\<open>row.Scan(&tenant.ID, ...)\<close>\<close>

definition scan_tenant :: "go_time \<Rightarrow> tenant_row \<Rightarrow> TenantResponse" where
  "scan_tenant tm r =
     \<lparr>tr_ID = t_id r, tr_Name = t_name r, tr_Workers = t_concurrency r,
      tr_CreatedAt = Format_RFC3339Nano tm (t_created_at r),
      tr_UpdatedAt = Format_RFC3339Nano tm (t_updated_at r)\<rparr>"

section \<open>Operations\<close>

definition CreateTenant ::
  "pg_server \<Rightarrow> go_time \<Rightarrow> svc_env \<Rightarrow> CreateTenantRequest \<Rightarrow> db \<Rightarrow> db \<times> TenantResponse res" where
  "CreateTenant pg tm env req d =
     (let workers = (if 0 < ct_Workers req \<and> ct_Workers req \<le> 50 then ct_Workers req else 3) in
      case with_fault (se_fault env)
             (sql_insert_tenant pg (se_now env) (se_uuid env) (ct_Name req) workers) d of
        (d', Inl e) \<Rightarrow> (d', Inl (Wrapf ''failed to create tenant: '' e))
      | (d', Inr row) \<Rightarrow> (d', Inr (scan_tenant tm row)))"

definition GetTenant ::
  "pg_server \<Rightarrow> go_time \<Rightarrow> svc_env \<Rightarrow> string \<Rightarrow> db \<Rightarrow> db \<times> TenantResponse res" where
  "GetTenant pg tm env tid d =
     (case with_fault (se_fault env) (sql_select_tenant pg tid) d of
        (d', Inl e) \<Rightarrow> (d', Inl e)
      | (d', Inr row) \<Rightarrow> (d', Inr (scan_tenant tm row)))"

definition DeleteTenant :: "pg_server \<Rightarrow> svc_env \<Rightarrow> string \<Rightarrow> db \<Rightarrow> db \<times> unit res" where
  "DeleteTenant pg env tid d =
     (case with_fault (se_fault env) (sql_delete_tenant pg (se_now env) tid) d of
        (d', Inl e) \<Rightarrow> (d', Inl (Wrapf ''failed to delete tenant: '' e))
      | (d', Inr rows) \<Rightarrow>
          (d', case se_rows_err env of
                 Some e \<Rightarrow> Inl e
               | None \<Rightarrow> if rows = 0 then Inl ErrNoRows else Inr ()))"

definition err_workers :: go_error where
  "err_workers = ErrorNew ''workers must be between 1 and 50''"

definition TenantService_UpdateConcurrency ::
  "pg_server \<Rightarrow> go_time \<Rightarrow> svc_env \<Rightarrow> string \<Rightarrow> int \<Rightarrow> db \<Rightarrow> db \<times> TenantResponse res" where
  "TenantService_UpdateConcurrency pg tm env tid workers d =
     (if workers \<le> 0 \<or> 50 < workers then (d, Inl err_workers)
      else
        (case with_fault (se_fault env) (sql_update_concurrency pg (se_now env) tid workers) d of
           (d', Inl e) \<Rightarrow> (d', Inl e)
         | (d', Inr row) \<Rightarrow> (d', Inr (scan_tenant tm row))))"

definition clamp_limit :: "int \<Rightarrow> int" where
  "clamp_limit limit =
     (let l = (if limit \<le> 0 then 20 else limit) in if 100 < l then 100 else l)"

definition ListTenants ::
  "pg_server \<Rightarrow> go_time \<Rightarrow> svc_env \<Rightarrow> int \<Rightarrow> int \<Rightarrow> db \<Rightarrow> db \<times> TenantResponse list res" where
  "ListTenants pg tm env limit offset d =
     (case with_fault (se_fault env) (sql_list_tenants pg (clamp_limit limit) offset) d of
        (d', Inl e) \<Rightarrow> (d', Inl e)
      | (d', Inr rows) \<Rightarrow> (d', Inr (map (scan_tenant tm) rows)))"

lemma clamp_limit_range: "1 \<le> clamp_limit n \<and> clamp_limit n \<le> 100"
  by (simp add: clamp_limit_def)

section \<open>The store behind the service\<close>

text \<open>
  What the HTTP layer relies on: a finite map from canonical identifiers to names and worker
  counts, which a successful call reads or changes at one identifier. \<open>canon\<close> is how the store
  reads the text of an identifier; \<open>healthy\<close> surroundings are those without a fault.
\<close>

locale tenant_store =
  fixes canon :: "string \<Rightarrow> string option"
    and ok :: "'s \<Rightarrow> bool"
    and view :: "'s \<Rightarrow> (string \<rightharpoonup> TenantResponse)"
    and healthy :: "'e \<Rightarrow> bool"
    and create :: "'e \<Rightarrow> CreateTenantRequest \<Rightarrow> 's \<Rightarrow> 's \<times> TenantResponse res"
    and get :: "'e \<Rightarrow> string \<Rightarrow> 's \<Rightarrow> 's \<times> TenantResponse res"
    and delete :: "'e \<Rightarrow> string \<Rightarrow> 's \<Rightarrow> 's \<times> unit res"
    and update :: "'e \<Rightarrow> string \<Rightarrow> int \<Rightarrow> 's \<Rightarrow> 's \<times> TenantResponse res"
  assumes create_ok: "ok s \<Longrightarrow> create e req s = (s', r) \<Longrightarrow> ok s'"
    and delete_ok: "ok s \<Longrightarrow> delete e t s = (s', ru) \<Longrightarrow> ok s'"
    and update_ok: "ok s \<Longrightarrow> update e t n s = (s', r) \<Longrightarrow> ok s'"
    and create_Inr: "ok s \<Longrightarrow> create e req s = (s', Inr x) \<Longrightarrow>
      tr_ID x \<notin> dom (view s) \<and> canon (tr_ID x) = Some (tr_ID x) \<and> view s' = (view s)(tr_ID x \<mapsto> x)"
    and get_hit: "ok s \<Longrightarrow> healthy e \<Longrightarrow> canon t = Some u \<Longrightarrow> view s u = Some x \<Longrightarrow> get e t s = (s, Inr x)"
    and get_miss: "ok s \<Longrightarrow> healthy e \<Longrightarrow> canon t = Some u \<Longrightarrow> view s u = None \<Longrightarrow> get e t s = (s, Inl ErrNoRows)"
    and delete_Inr: "ok s \<Longrightarrow> delete e t s = (s', Inr ()) \<Longrightarrow>
      \<exists>u. canon t = Some u \<and> u \<in> dom (view s) \<and> view s' = (view s)(u := None)"
    and delete_miss: "ok s \<Longrightarrow> healthy e \<Longrightarrow> canon t = Some u \<Longrightarrow> view s u = None \<Longrightarrow>
      \<exists>s'. delete e t s = (s', Inl ErrNoRows) \<and> view s' = view s"
    and delete_hit: "ok s \<Longrightarrow> healthy e \<Longrightarrow> canon t = Some u \<Longrightarrow> view s u = Some x \<Longrightarrow>
      \<exists>s'. delete e t s = (s', Inr ()) \<and> view s' = (view s)(u := None)"
    and update_Inr: "ok s \<Longrightarrow> update e t n s = (s', Inr x) \<Longrightarrow>
      1 \<le> n \<and> n \<le> 50 \<and> canon t = Some (tr_ID x) \<and> tr_Workers x = n \<and>
      (\<exists>y. view s (tr_ID x) = Some y \<and> tr_Name y = tr_Name x) \<and> view s' = (view s)(tr_ID x \<mapsto> x)"
begin

lemma create_get:
  assumes "ok s" "create e req s = (s', Inr x)" "healthy e'"
  shows "get e' (tr_ID x) s' = (s', Inr x)"
  using create_Inr [OF assms(1,2)] get_hit [OF create_ok [OF assms(1,2)] assms(3)] by simp

lemma update_get:
  assumes "ok s" "update e t n s = (s', Inr x)" "healthy e'"
  shows "get e' t s' = (s', Inr x)"
  using update_Inr [OF assms(1,2)] get_hit [OF update_ok [OF assms(1,2)] assms(3)] by auto

lemma delete_get:
  assumes "ok s" "delete e t s = (s', Inr ())" "healthy e'"
  shows "get e' t s' = (s', Inl ErrNoRows)"
  using delete_Inr [OF assms(1,2)] get_miss [OF delete_ok [OF assms(1,2)] assms(3)] by auto

lemma create_delete:
  assumes "ok s" "create e req s = (s1, Inr x)" "healthy e'"
  shows "\<exists>s2. delete e' (tr_ID x) s1 = (s2, Inr ()) \<and> ok s2 \<and> view s2 = view s"
proof -
  note c = create_Inr [OF assms(1,2)] and ok1 = create_ok [OF assms(1,2)]
  then obtain s2 where d: "delete e' (tr_ID x) s1 = (s2, Inr ())" "view s2 = (view s1)(tr_ID x := None)"
    using delete_hit [OF ok1 assms(3), of "tr_ID x" "tr_ID x" x] by auto
  moreover have "view s2 = view s" using c d(2) by (simp add: domIff fun_upd_idem)
  ultimately show ?thesis using delete_ok [OF ok1 d(1)] by blast
qed

end

definition tenant_view :: "go_time \<Rightarrow> db \<Rightarrow> (string \<rightharpoonup> TenantResponse)" where
  "tenant_view tm d u = map_option (scan_tenant tm) (find_by t_id u (tenants d))"

definition svc_healthy :: "svc_env \<Rightarrow> bool" where
  "svc_healthy env \<longleftrightarrow> se_fault env = Delivered \<and> se_rows_err env = None"

lemma dom_tenant_view: "u \<in> dom (tenant_view tm d) \<longleftrightarrow> u \<in> t_id ` set (tenants d)"
  using find_by_None [of t_id u "tenants d"]
  by (auto simp: tenant_view_def domIff simp del: find_by_None)

lemma CreateTenant_Inr:
  "CreateTenant pg tm env req d = (d', Inr x) \<longleftrightarrow> se_fault env = Delivered \<and>
    (\<exists>row. sql_insert_tenant pg (se_now env) (se_uuid env) (ct_Name req)
       (if 0 < ct_Workers req \<and> ct_Workers req \<le> 50 then ct_Workers req else 3) d = (d', Inr row) \<and>
       x = scan_tenant tm row)"
  by (auto simp: CreateTenant_def with_fault_Inr Let_def split: prod.splits sum.splits)

lemma DeleteTenant_Inr:
  "DeleteTenant pg env tid d = (d', Inr ()) \<longleftrightarrow> svc_healthy env \<and>
    (\<exists>n. sql_delete_tenant pg (se_now env) tid d = (d', Inr n) \<and> n \<noteq> 0)"
  by (auto simp: DeleteTenant_def with_fault_Inr svc_healthy_def split: prod.splits sum.splits option.splits if_splits)

lemma TenantService_UpdateConcurrency_Inr:
  "TenantService_UpdateConcurrency pg tm env tid n d = (d', Inr x) \<longleftrightarrow>
    1 \<le> n \<and> n \<le> 50 \<and> se_fault env = Delivered \<and>
    (\<exists>row. sql_update_concurrency pg (se_now env) tid n d = (d', Inr row) \<and> x = scan_tenant tm row)"
  by (auto simp: TenantService_UpdateConcurrency_def with_fault_Inr split: prod.splits sum.splits if_splits)

lemma service_state:
  "fst (CreateTenant pg tm env req d) = fst (with_fault (se_fault env)
     (sql_insert_tenant pg (se_now env) (se_uuid env) (ct_Name req)
       (if 0 < ct_Workers req \<and> ct_Workers req \<le> 50 then ct_Workers req else 3)) d)"
  "fst (DeleteTenant pg env tid d) =
     fst (with_fault (se_fault env) (sql_delete_tenant pg (se_now env) tid) d)"
  "fst (TenantService_UpdateConcurrency pg tm env tid n d) =
     (if n \<le> 0 \<or> 50 < n then d
      else fst (with_fault (se_fault env) (sql_update_concurrency pg (se_now env) tid n) d))"
  by (simp_all add: CreateTenant_def DeleteTenant_def TenantService_UpdateConcurrency_def Let_def
      split: prod.split sum.split)

lemma service_ok:
  assumes "uuid_lawful pg" "db_ok pg d"
  shows "db_ok pg (fst (CreateTenant pg tm env req d))"
    and "db_ok pg (fst (DeleteTenant pg env tid d))"
    and "db_ok pg (fst (TenantService_UpdateConcurrency pg tm env tid n d))"
  unfolding service_state
  by (auto intro!: with_fault_keeps [where P = "db_ok pg"] sql_ok assms)

lemma sql_insert_tenant_Inr:
  assumes "uuid_lawful pg" "sql_insert_tenant pg now tid name n d = (d', Inr row)"
  shows "t_id row \<notin> t_id ` set (tenants d) \<and> uuid_in pg (t_id row) = Some (t_id row) \<and>
    d' = d\<lparr>tenants := tenants d @ [row]\<rparr> \<and> t_name row = name \<and> t_concurrency row = n"
  using assms(2)
  by (auto simp: sql_insert_tenant_def Let_def uuid_lawfulD [OF assms(1)] split: option.splits if_splits)

lemma tenant_view_append:
  "t_id row \<notin> t_id ` set (tenants d) \<Longrightarrow>
     tenant_view tm (d\<lparr>tenants := tenants d @ [row]\<rparr>) = (tenant_view tm d)(t_id row \<mapsto> scan_tenant tm row)"
  by (auto simp: tenant_view_def fun_eq_iff find_by_append dest: find_by_image split: option.splits)

lemma tenant_view_delete:
  "tenant_view tm (fst (sql_delete_tenant pg now tid d)) =
     (case uuid_in pg tid of None \<Rightarrow> tenant_view tm d | Some u \<Rightarrow> (tenant_view tm d)(u := None))"
  by (auto simp: tenant_view_def fun_eq_iff sql_delete_tenant_def find_by_delete_by split: option.split)

lemma sql_delete_tenant_rows:
  "sql_delete_tenant pg now tid d = (d', Inr n) \<Longrightarrow>
     \<exists>u. uuid_in pg tid = Some u \<and> (n = 0 \<longleftrightarrow> u \<notin> t_id ` set (tenants d))"
  by (auto simp: sql_delete_tenant_def filter_empty_conv split: option.splits)

lemma tenant_view_update:
  assumes "sql_update_concurrency pg now tid n d = (d', Inr row)"
  shows "uuid_in pg tid = Some (t_id row) \<and> t_concurrency row = n \<and>
    (\<exists>r0. find_by t_id (t_id row) (tenants d) = Some r0 \<and> t_name r0 = t_name row) \<and>
    tenant_view tm d' = (tenant_view tm d)(t_id row \<mapsto> scan_tenant tm row)"
proof -
  let ?f = "\<lambda>r. r\<lparr>t_concurrency := n, t_updated_at := now\<rparr>"
  from assms obtain u r0 where u: "uuid_in pg tid = Some u" "find_by t_id u (tenants d) = Some r0"
    "row = ?f r0" "d' = d\<lparr>tenants := update_by t_id u ?f (tenants d)\<rparr>"
    by (auto simp: sql_update_concurrency_def Let_def split: option.splits if_splits)
  have "t_id r0 = u" using find_by_SomeD [OF u(2)] by simp
  with u show ?thesis by (simp add: tenant_view_def fun_eq_iff find_by_update_by)
qed

interpretation tenants: tenant_store "uuid_in pg" "\<lambda>d. uuid_lawful pg \<and> db_ok pg d" "tenant_view tm" svc_healthy
    "CreateTenant pg tm" "GetTenant pg tm" "DeleteTenant pg" "TenantService_UpdateConcurrency pg tm" for pg tm
proof (unfold_locales, goal_cases)
  case (1 s e req s' r)
  then show ?case using service_ok(1) [of pg s tm e req] by simp
next
  case (2 s e t s' ru)
  then show ?case using service_ok(2) [of pg s e t] by simp
next
  case (3 s e t n s' r)
  then show ?case using service_ok(3) [of pg s tm e t n] by simp
next
  case (4 s e req s' x)
  then obtain row n where row: "x = scan_tenant tm row"
    "sql_insert_tenant pg (se_now e) (se_uuid e) (ct_Name req) n s = (s', Inr row)"
    by (auto simp: CreateTenant_Inr)
  with 4 sql_insert_tenant_Inr [OF _ row(2)] tenant_view_append [of row s tm] show ?case
    by (simp add: dom_tenant_view scan_tenant_def)
next
  case (5 s e t u x)
  then show ?case
    by (auto simp: GetTenant_def sql_select_tenant_def svc_healthy_def tenant_view_def
        dest: find_by_image split: option.splits)
next
  case (6 s e t u)
  then show ?case
    by (auto simp: GetTenant_def sql_select_tenant_def svc_healthy_def tenant_view_def split: option.splits)
next
  case (7 s e t s')
  then show ?case using sql_delete_tenant_rows [of pg "se_now e" t s] tenant_view_delete [of tm pg "se_now e" t s]
    by (auto simp: DeleteTenant_Inr dom_tenant_view split: option.splits)
next
  case (8 s e t u)
  then show ?case using tenant_view_delete [of tm pg "se_now e" t s] 
    by (auto simp: DeleteTenant_def svc_healthy_def sql_delete_tenant_def tenant_view_def filter_empty_conv)
next
  case (9 s e t u x)
  then show ?case using tenant_view_delete [of tm pg "se_now e" t s]
    by (auto simp: DeleteTenant_def svc_healthy_def sql_delete_tenant_def tenant_view_def filter_empty_conv
        dest: find_by_image)
next
  case (10 s e t n s' x)
  then show ?case using tenant_view_update [of pg "se_now e" t n s s' _ tm]
    by (auto simp: TenantService_UpdateConcurrency_Inr scan_tenant_def tenant_view_def)
qed

lemma concat_pages: "concat (map (\<lambda>k. take l (drop (k * l) xs)) [0..<n]) = take (n * l) xs"
proof (induction n)
  case (Suc n)
  have "take (n * l + l) xs = take (n * l) xs @ take l (drop (n * l) xs)" by (rule take_add)
  with Suc show ?case by (simp add: add.commute)
qed simp

section \<open>Properties\<close>

definition sample_env :: "string \<Rightarrow> time \<Rightarrow> svc_env" where
  "sample_env u now = \<lparr>se_fault = Delivered, se_now = now, se_uuid = u, se_rows_err = None\<rparr>"

lemma sample_env_healthy [simp]: "svc_healthy (sample_env u now)"
  by (simp add: svc_healthy_def sample_env_def)

definition sample_request :: "int \<Rightarrow> CreateTenantRequest" where
  "sample_request n = \<lparr>ct_Name = ''acme'', ct_Workers = n\<rparr>"

definition sample_tenant :: "int \<Rightarrow> time \<Rightarrow> tenant_row" where
  "sample_tenant n now = \<lparr>t_id = uuid_a, t_name = ''acme'', t_concurrency = n, t_created_at = 1000, t_updated_at = now\<rparr>"

lemma sample_create:
  "CreateTenant sample_pg tm (sample_env uuid_a 1000) (sample_request 90) db_empty =
     (db_empty\<lparr>tenants := [sample_tenant 3 1000]\<rparr>, Inr (scan_tenant tm (sample_tenant 3 1000)))"
  by (simp add: CreateTenant_def sample_env_def sql_insert_tenant_def db_empty_def sample_tenant_def
      sample_request_def int4_ok_def Let_def sample_pg_def [THEN arg_cong [where f = varchar_in]])

text \<open>
  Creating a tenant. When the call succeeds the worker count is the requested one if that is
  between 1 and 50, and 3 otherwise; the identifier was not in use; reading the tenant back gives
  the same response, and deleting it succeeds and leaves the tenants as they were.
\<close>

lemma CreateTenant_roundtrip:
  assumes "uuid_lawful pg" "db_ok pg d" "CreateTenant pg tm env req d = (d1, Inr x)" "svc_healthy env'"
  shows "tr_Workers x = (if 1 \<le> ct_Workers req \<and> ct_Workers req \<le> 50 then ct_Workers req else 3) \<and>
    tr_Name x = ct_Name req \<and> tr_ID x \<notin> t_id ` set (tenants d) \<and>
    GetTenant pg tm env' (tr_ID x) d1 = (d1, Inr x) \<and>
    (\<exists>d2. DeleteTenant pg env' (tr_ID x) d1 = (d2, Inr ()) \<and> tenant_view tm d2 = tenant_view tm d)"
proof -
  have ok: "uuid_lawful pg \<and> db_ok pg d" using assms by simp
  have "tr_Workers x = (if 1 \<le> ct_Workers req \<and> ct_Workers req \<le> 50 then ct_Workers req else 3) \<and>
      tr_Name x = ct_Name req"
    using assms(3) sql_insert_tenant_Inr [OF assms(1)] by (auto simp: CreateTenant_Inr scan_tenant_def)
  with tenants.create_get [OF ok assms(3,4)] tenants.create_delete [OF ok assms(3,4)]
    tenants.create_Inr [OF ok assms(3)]
  show ?thesis by (auto simp: dom_tenant_view)
qed

text \<open>
  Deleting a tenant. When the call succeeds the identifier, however it was spelled, named a
  tenant; no other tenant changed, no user refers to it any more, its messages are kept, and
  reading or deleting it again reports that there are no rows.
\<close>

lemma DeleteTenant_gone:
  assumes "uuid_lawful pg" "db_ok pg d" "DeleteTenant pg env tid d = (d', Inr ())" "svc_healthy env'"
  shows "\<exists>u. uuid_in pg tid = Some u \<and> u \<in> t_id ` set (tenants d) \<and>
    tenant_view tm d' = (tenant_view tm d)(u := None) \<and>
    (\<forall>r \<in> set (users d'). u_tenant_id r \<noteq> Some u) \<and> messages d' = messages d \<and>
    GetTenant pg tm env' tid d' = (d', Inl ErrNoRows) \<and>
    snd (DeleteTenant pg env' tid d') = Inl ErrNoRows"
proof -
  have ok: "uuid_lawful pg \<and> db_ok pg d" using assms by simp
  from tenants.delete_Inr [OF ok assms(3), of tm] obtain u where u: "uuid_in pg tid = Some u"
    "u \<in> dom (tenant_view tm d)" "tenant_view tm d' = (tenant_view tm d)(u := None)" by auto
  have "\<forall>r \<in> set (users d'). u_tenant_id r \<noteq> Some u" "messages d' = messages d"
    using assms(3) u(1) by (auto simp: DeleteTenant_Inr sql_delete_tenant_def)
  moreover have "snd (DeleteTenant pg env' tid d') = Inl ErrNoRows"
    using tenants.delete_miss [OF _ assms(4) u(1), of d' tm] tenants.delete_ok [OF ok assms(3)] u(3) by auto
  ultimately show ?thesis
    using u tenants.delete_get [OF ok assms(3,4)] by (auto simp: dom_tenant_view)
qed

text \<open>
  Pages of tenants. Every page has at most a hundred entries, newest first, and the pages at
  offsets \<open>0, l, 2 * l, \<dots>\<close> for the effective limit \<open>l\<close> are all the tenants, each once.
\<close>

lemma ListTenants_pages:
  assumes "svc_healthy env" "length (tenants d) \<le> n * nat (clamp_limit limit)"
  shows "\<exists>pages. (\<forall>k < n. ListTenants pg tm env limit (int k * clamp_limit limit) d = (d, Inr (pages k)) \<and>
       length (pages k) \<le> 100) \<and>
    concat (map pages [0..<n]) = map (scan_tenant tm) (rev (sort_key t_created_at (tenants d)))"
proof -
  let ?l = "nat (clamp_limit limit)" and ?ts = "rev (sort_key t_created_at (tenants d))"
  have l: "0 \<le> clamp_limit limit" "?l \<le> 100" "clamp_limit limit = int ?l"
    using clamp_limit_range [of limit] by auto
  have k: "nat (int k * clamp_limit limit) = k * ?l" "\<not> int k * clamp_limit limit < 0" for k
    using l(1) by (simp_all add: nat_mult_distrib linorder_not_less)
  have "ListTenants pg tm env limit (int k * clamp_limit limit) d =
      (d, Inr (map (scan_tenant tm) (take ?l (drop (k * ?l) ?ts))))" for k
    using assms(1) l(1) k [of k] by (simp add: ListTenants_def svc_healthy_def sql_list_tenants_def)
  moreover have "concat (map (\<lambda>k. map (scan_tenant tm) (take ?l (drop (k * ?l) ?ts))) [0..<n]) =
      map (scan_tenant tm) ?ts"
    using arg_cong [OF concat_pages [of ?l ?ts n], of "map (scan_tenant tm)"] assms(2)
    by (simp add: map_concat comp_def)
  ultimately show ?thesis using l(2) by (intro exI) auto
qed

text \<open>
  Changing a tenant's worker count. A count outside 1 to 50 is refused without touching the
  database; when the call succeeds the response carries the new count and the old name, reading
  the tenant back gives the same response, and no other tenant changed.
\<close>

lemma UpdateConcurrency_roundtrip:
  assumes "uuid_lawful pg" "db_ok pg d" "TenantService_UpdateConcurrency pg tm env tid n d = (d', r)"
    "svc_healthy env'"
  shows "(n < 1 \<or> 50 < n \<longrightarrow> d' = d \<and> r = Inl err_workers) \<and>
    (\<forall>x. r = Inr x \<longrightarrow> tr_Workers x = n \<and> GetTenant pg tm env' tid d' = (d', Inr x) \<and>
       tenant_view tm d' = (tenant_view tm d)(tr_ID x \<mapsto> x) \<and>
       (\<exists>y. tenant_view tm d (tr_ID x) = Some y \<and> tr_Name y = tr_Name x))"
proof -
  have ok: "uuid_lawful pg \<and> db_ok pg d" using assms by simp
  have "n < 1 \<or> 50 < n \<longrightarrow> d' = d \<and> r = Inl err_workers"
    using assms(3) by (auto simp: TenantService_UpdateConcurrency_def)
  moreover have "tr_Workers x = n \<and> GetTenant pg tm env' tid d' = (d', Inr x) \<and>
       tenant_view tm d' = (tenant_view tm d)(tr_ID x \<mapsto> x) \<and>
       (\<exists>y. tenant_view tm d (tr_ID x) = Some y \<and> tr_Name y = tr_Name x)" if "r = Inr x" for x
  proof -
    have u: "TenantService_UpdateConcurrency pg tm env tid n d = (d', Inr x)" using assms(3) that by simp
    from tenants.update_Inr [OF ok u] tenants.update_get [OF ok u assms(4)] show ?thesis by simp
  qed
  ultimately show ?thesis by blast
qed

end
