(* ===== verification/Message_Service.thy ===== *)
theory Message_Service
  imports Tenant_Service
begin

text \<open>
  \<^verbatim>\<open>MessageService\<close> of \<^verbatim>\<open>internal/service/tenant_service.go\<close>: creating, reading and listing
  messages, the last with a cursor that is the creation time of the last message shown.
\<close>

record CreateMessageRequest =
  cm_TenantID :: string
  cm_Payload :: json

record MessageResponse =
  mr_ID :: string
  mr_TenantID :: string
  mr_Payload :: json
  mr_Status :: string
  mr_RetryCount :: int
  mr_CreatedAt :: string
  mr_UpdatedAt :: string

record CursorPaginationResponse =
  cp_Data :: "MessageResponse list"
  cp_NextCursor :: string
  cp_HasMore :: bool

text \<open>
  \<^verbatim>\<open>row.Scan(&msg.ID, ...)\<close> and the \<^verbatim>\<open>json.Unmarshal\<close> of the payload, whose error is ignored.
\<close>

definition scan_message :: "go_json \<Rightarrow> go_time \<Rightarrow> message_row \<Rightarrow> MessageResponse" where
  "scan_message js tm r =
     \<lparr>mr_ID = m_id r, mr_TenantID = m_tenant_id r, mr_Payload = unmarshal_or_nil js (m_payload r),
      mr_Status = m_status r, mr_RetryCount = m_retry_count r,
      mr_CreatedAt = Format_RFC3339Nano tm (m_created_at r),
      mr_UpdatedAt = Format_RFC3339Nano tm (m_updated_at r)\<rparr>"

section \<open>Operations\<close>

definition CreateMessage ::
  "pg_server \<Rightarrow> go_json \<Rightarrow> go_time \<Rightarrow> svc_env \<Rightarrow> CreateMessageRequest \<Rightarrow> db \<Rightarrow> db \<times> MessageResponse res" where
  "CreateMessage pg js tm env req d =
     (case marshal_value js (cm_Payload req) of
        Inl e \<Rightarrow> (d, Inl (Wrapf ''failed to marshal payload: '' e))
      | Inr payloadJSON \<Rightarrow>
          (case with_fault (se_fault env)
                  (sql_insert_message pg (se_now env) (se_uuid env) (cm_TenantID req) payloadJSON) d of
             (d', Inl e) \<Rightarrow> (d', Inl (Wrapf ''failed to create message: '' e))
           | (d', Inr row) \<Rightarrow> (d', Inr (scan_message js tm row))))"

definition GetMessage ::
  "pg_server \<Rightarrow> go_json \<Rightarrow> go_time \<Rightarrow> svc_env \<Rightarrow> string \<Rightarrow> string \<Rightarrow> db \<Rightarrow> db \<times> MessageResponse res" where
  "GetMessage pg js tm env mid tenantID d =
     (case with_fault (se_fault env) (sql_select_message pg mid tenantID) d of
        (d', Inl e) \<Rightarrow> (d', Inl e)
      | (d', Inr row) \<Rightarrow> (d', Inr (scan_message js tm row)))"

text \<open>The four queries of \<^verbatim>\<open>ListMessages\<close>.\<close>

definition list_query ::
  "pg_server \<Rightarrow> string \<Rightarrow> time option \<Rightarrow> int \<Rightarrow> db \<Rightarrow> db \<times> message_row list res" where
  "list_query pg tenantID cursorTime n d =
     (d, if tenantID \<noteq> []
         then (case uuid_in pg tenantID of
                 None \<Rightarrow> Inl (invalid_text pg)
               | Some u \<Rightarrow>
                   (case cursorTime of
                      Some t \<Rightarrow> Inr (sql_list_messages
                        (\<lambda>r. m_tenant_id r = u \<and> m_created_at r < timestamptz_in pg t) n d)
                    | None \<Rightarrow> Inr (sql_list_messages (\<lambda>r. m_tenant_id r = u) n d)))
         else (case cursorTime of
                 Some t \<Rightarrow> Inr (sql_list_messages (\<lambda>r. m_created_at r < timestamptz_in pg t) n d)
               | None \<Rightarrow> Inr (sql_list_messages (\<lambda>r. True) n d)))"

definition ListMessages ::
  "pg_server \<Rightarrow> go_json \<Rightarrow> go_time \<Rightarrow> svc_env \<Rightarrow> string \<Rightarrow> string \<Rightarrow> int \<Rightarrow> db
     \<Rightarrow> db \<times> CursorPaginationResponse res" where
  "ListMessages pg js tm env tenantID cursor limit0 d =
     (let limit1 = (if limit0 \<le> 0 then 20 else limit0);
          limit = (if 100 < limit1 then 100 else limit1);
          cursorTime = (if cursor \<noteq> []
                        then (case Parse_RFC3339 tm cursor of Inr t \<Rightarrow> Some t | Inl _ \<Rightarrow> None)
                        else None)
      in case with_fault (se_fault env) (list_query pg tenantID cursorTime (limit + 1)) d of
           (d', Inl e) \<Rightarrow> (d', Inl e)
         | (d', Inr rows) \<Rightarrow>
             (let msgs = map (scan_message js tm) rows;
                  hasMore = limit < int (length msgs);
                  page = (if hasMore then take (nat limit) msgs else msgs);
                  nextCursor =
                    (if page = [] then []
                     else (let lastTime = (case Parse_RFC3339 tm (mr_CreatedAt (last page)) of
                                             Inr t \<Rightarrow> t | Inl _ \<Rightarrow> zero_time)
                           in Format_RFC3339 tm lastTime))
              in (d', Inr \<lparr>cp_Data = page, cp_NextCursor = nextCursor, cp_HasMore = hasMore\<rparr>)))"

section \<open>A page in terms of rows\<close>

text \<open>The rows a request ranges over, newest first.\<close>

definition in_scope :: "pg_server \<Rightarrow> string \<Rightarrow> message_row \<Rightarrow> bool" where
  "in_scope pg tenantID r \<longleftrightarrow> tenantID = [] \<or> uuid_in pg tenantID = Some (m_tenant_id r)"

definition scope :: "pg_server \<Rightarrow> string \<Rightarrow> db \<Rightarrow> message_row list" where
  "scope pg tenantID d = newest_first (filter (in_scope pg tenantID) (messages d))"

definition before :: "pg_server \<Rightarrow> time option \<Rightarrow> message_row \<Rightarrow> bool" where
  "before pg cur r \<longleftrightarrow> (case cur of None \<Rightarrow> True | Some t \<Rightarrow> m_created_at r < timestamptz_in pg t)"

definition cursor_time :: "go_time \<Rightarrow> string \<Rightarrow> time option" where
  "cursor_time tm cursor =
     (if cursor \<noteq> [] then case Parse_RFC3339 tm cursor of Inr t \<Rightarrow> Some t | Inl _ \<Rightarrow> None else None)"

lemma newest_first_filter: "newest_first (filter p rs) = filter p (newest_first rs)"
  by (simp add: newest_first_def filter_sort flip: rev_filter)

lemma set_newest_first [simp]: "set (newest_first rs) = set rs"
  by (simp add: newest_first_def)

lemma newest_first_sorted: "sorted_wrt (\<lambda>a b. m_order b \<le> m_order a) (newest_first rs)"
  unfolding newest_first_def sorted_wrt_rev using sorted_sort_key [of m_order rs] by (simp only: sorted_map)

lemma list_query_rows:
  assumes "tenantID = [] \<or> uuid_in pg tenantID \<noteq> None"
  shows "list_query pg tenantID cur n d =
    (d, Inr (take (nat n) (filter (before pg cur) (scope pg tenantID d))))"
proof -
  have "filter (before pg cur) (scope pg tenantID d) =
      newest_first (filter (\<lambda>r. in_scope pg tenantID r \<and> before pg cur r) (messages d))"
    by (simp add: scope_def newest_first_filter)
  moreover have "(\<lambda>r. in_scope pg tenantID r \<and> before pg cur r) =
      (if tenantID \<noteq> [] then
         (case cur of Some t \<Rightarrow> (\<lambda>r. m_tenant_id r = the (uuid_in pg tenantID) \<and> m_created_at r < timestamptz_in pg t)
          | None \<Rightarrow> (\<lambda>r. m_tenant_id r = the (uuid_in pg tenantID)))
       else (case cur of Some t \<Rightarrow> (\<lambda>r. m_created_at r < timestamptz_in pg t) | None \<Rightarrow> (\<lambda>r. True)))"
    using assms by (auto simp: in_scope_def before_def fun_eq_iff split: option.splits)
  ultimately show ?thesis
    using assms by (auto simp: list_query_def sql_list_messages_def split: option.splits)
qed

definition page_rows :: "pg_server \<Rightarrow> go_time \<Rightarrow> string \<Rightarrow> string \<Rightarrow> db \<Rightarrow> message_row list" where
  "page_rows pg tm tenantID cursor d =
     filter (before pg (cursor_time tm cursor)) (scope pg tenantID d)"

lemma ListMessages_rows:
  assumes "se_fault env = Delivered" "tenantID = [] \<or> uuid_in pg tenantID \<noteq> None"
    and rs: "rs = take (nat (clamp_limit n)) (page_rows pg tm tenantID cursor d)"
  shows "ListMessages pg js tm env tenantID cursor n d =
    (d, Inr \<lparr>cp_Data = map (scan_message js tm) rs,
       cp_NextCursor = (if rs = [] then [] else Format_RFC3339 tm
         (case Parse_RFC3339 tm (Format_RFC3339Nano tm (m_created_at (last rs))) of Inr t \<Rightarrow> t | Inl _ \<Rightarrow> zero_time)),
       cp_HasMore = (nat (clamp_limit n) < length (page_rows pg tm tenantID cursor d))\<rparr>)"
proof -
  let ?l = "nat (clamp_limit n)" and ?rows = "page_rows pg tm tenantID cursor d"
  have l: "1 \<le> clamp_limit n" "nat (clamp_limit n + 1) = Suc ?l" using clamp_limit_range [of n] by auto
  have q: "with_fault (se_fault env) (list_query pg tenantID (cursor_time tm cursor) (clamp_limit n + 1)) d =
      (d, Inr (take (Suc ?l) ?rows))"
    using assms(1) list_query_rows [OF assms(2)] l by (simp add: page_rows_def)
  have more: "clamp_limit n < int (length (take (Suc ?l) ?rows)) \<longleftrightarrow> ?l < length ?rows"
    using l by auto
  have page: "(if ?l < length ?rows then take ?l (map (scan_message js tm) (take (Suc ?l) ?rows))
      else map (scan_message js tm) (take (Suc ?l) ?rows)) = map (scan_message js tm) rs"
    by (simp add: rs take_map min_def)
  have unf: "ListMessages pg js tm env tenantID cursor n d =
     (case with_fault (se_fault env) (list_query pg tenantID (cursor_time tm cursor) (clamp_limit n + 1)) d of
           (d', Inl e) \<Rightarrow> (d', Inl e)
         | (d', Inr rows) \<Rightarrow>
             (let msgs = map (scan_message js tm) rows;
                  hasMore = clamp_limit n < int (length msgs);
                  page = (if hasMore then take ?l msgs else msgs)
              in (d', Inr \<lparr>cp_Data = page, cp_NextCursor = (if page = [] then []
                     else (let lastTime = (case Parse_RFC3339 tm (mr_CreatedAt (last page)) of
                                             Inr t \<Rightarrow> t | Inl _ \<Rightarrow> zero_time)
                           in Format_RFC3339 tm lastTime)), cp_HasMore = hasMore\<rparr>)))"
    by (simp only: ListMessages_def clamp_limit_def cursor_time_def Let_def)
  show ?thesis
    unfolding unf q prod.case sum.case Let_def length_map more page
    by (simp add: last_map scan_message_def)
qed

lemma ListMessages_bad_tenant:
  "tenantID \<noteq> [] \<Longrightarrow> uuid_in pg tenantID = None \<Longrightarrow> \<exists>e. snd (ListMessages pg js tm env tenantID cursor n d) = Inl e"
  by (cases "se_fault env") (simp_all add: ListMessages_def list_query_def Let_def)

lemma ListMessages_Inr:
  assumes "ListMessages pg js tm env tenantID cursor n d = (d', Inr p)"
  shows "se_fault env = Delivered" "tenantID = [] \<or> uuid_in pg tenantID \<noteq> None"
proof -
  show "se_fault env = Delivered"
    using assms by (auto simp: ListMessages_def Let_def with_fault_Inr split: prod.splits sum.splits)
  show "tenantID = [] \<or> uuid_in pg tenantID \<noteq> None"
    using ListMessages_bad_tenant [of tenantID pg js tm env cursor n d] assms by auto
qed

section \<open>A client that follows the cursor\<close>

text \<open>
  Reading every page: the messages, or nothing when a call fails or the fuel, one unit a page, is
  used up.
\<close>

fun follow ::
  "pg_server \<Rightarrow> go_json \<Rightarrow> go_time \<Rightarrow> svc_env \<Rightarrow> string \<Rightarrow> int \<Rightarrow> nat \<Rightarrow> string \<Rightarrow> db \<Rightarrow> MessageResponse list option" where
  "follow pg js tm env tenantID limit 0 cursor d = None"
| "follow pg js tm env tenantID limit (Suc fuel) cursor d =
     (case ListMessages pg js tm env tenantID cursor limit d of
        (d', Inl e) \<Rightarrow> None
      | (d', Inr p) \<Rightarrow>
          if cp_HasMore p
          then map_option (\<lambda>ms. cp_Data p @ ms) (follow pg js tm env tenantID limit fuel (cp_NextCursor p) d')
          else Some (cp_Data p))"

text \<open>Times are written in some zone, those of the rows are ones the codec handles, and the server keeps whole seconds.\<close>

definition times_ok :: "pg_server \<Rightarrow> go_time \<Rightarrow> db \<Rightarrow> bool" where
  "times_ok pg tm d \<longleftrightarrow> (\<exists>z. zone_ok z \<and> tm = rfc3339 z) \<and> (\<forall>t. timestamptz_in pg (whole_second t) = whole_second t) \<and>
     (\<forall>r \<in> set (messages d). 0 \<le> m_created_at r \<and> m_created_at r < time_limit)"

lemma scope_subset: "r \<in> set (scope pg tenantID d) \<longleftrightarrow> r \<in> set (messages d) \<and> in_scope pg tenantID r"
  by (auto simp: scope_def)

lemma scope_inj:
  assumes "messages_ok pg (messages d)" "r \<in> set (scope pg tenantID d)" "r' \<in> set (scope pg tenantID d)"
    "m_id r = m_id r'" "m_tenant_id r = m_tenant_id r'"
  shows "r = r'"
proof -
  have "inj_on m_key (set (messages d))" using assms(1) by (simp add: messages_ok_def distinct_map)
  with assms(2-5) show ?thesis by (simp add: scope_subset inj_on_def)
qed

lemma messages_ok_distinct: "messages_ok pg (messages d) \<Longrightarrow> distinct (scope pg tenantID d)"
  by (simp add: messages_ok_def scope_def newest_first_def distinct_map)

lemma page_rows_subset: "r \<in> set (page_rows pg tm tenantID cursor d) \<Longrightarrow> r \<in> set (scope pg tenantID d)"
  by (simp add: page_rows_def)

lemma next_cursor_time:
  assumes "times_ok pg tm d" "r \<in> set (messages d)"
  shows "cursor_time tm (Format_RFC3339 tm
      (case Parse_RFC3339 tm (Format_RFC3339Nano tm (m_created_at r)) of Inr t \<Rightarrow> t | Inl _ \<Rightarrow> zero_time)) =
    Some (whole_second (m_created_at r))"
  using assms by (auto simp: times_ok_def cursor_time_def dest!: rfc3339_lawful simp: time_lawful_def)

text \<open>One page and the time its cursor stands for.\<close>

lemma ListMessages_step:
  assumes "se_fault env = Delivered" "tenantID = [] \<or> uuid_in pg tenantID \<noteq> None" "times_ok pg tm d"
    and rs: "rs = take (nat (clamp_limit n)) (page_rows pg tm tenantID cursor d)"
  shows "\<exists>nc. ListMessages pg js tm env tenantID cursor n d =
      (d, Inr \<lparr>cp_Data = map (scan_message js tm) rs, cp_NextCursor = nc,
         cp_HasMore = (nat (clamp_limit n) < length (page_rows pg tm tenantID cursor d))\<rparr>) \<and>
    (rs \<noteq> [] \<longrightarrow> cursor_time tm nc = Some (whole_second (m_created_at (last rs))))"
proof -
  have "last rs \<in> set (messages d)" if "rs \<noteq> []"
    using last_in_set [OF that] page_rows_subset [of "last rs" pg tm tenantID cursor d]
    by (auto simp: rs scope_subset dest: in_set_takeD)
  with ListMessages_rows [OF assms(1,2) rs, of js] next_cursor_time [OF assms(3)] show ?thesis by simp
qed

lemma filter_after_nth:
  fixes f :: "'a \<Rightarrow> 'b :: linorder"
  assumes "sorted_wrt (\<lambda>a b. f b < f a) L" "0 < k" "k \<le> length L"
  shows "filter (\<lambda>x. f x < f (L ! (k - 1))) L = drop k L"
proof -
  have nth: "i < j \<Longrightarrow> j < length L \<Longrightarrow> f (L ! j) < f (L ! i)" for i j
    using assms(1) by (simp add: sorted_wrt_iff_nth_less)
  have "filter (\<lambda>x. f x < f (L ! (k - 1))) (take k L) = []"
  proof -
    have "\<not> f (L ! i) < f (L ! (k - 1))" if "i < k" for i
    proof (cases "i = k - 1")
      case False
      then have "f (L ! (k - 1)) < f (L ! i)" using that assms(2,3) by (intro nth) auto
      then show ?thesis by simp
    qed simp
    then show ?thesis by (auto simp: filter_empty_conv in_set_conv_nth)
  qed
  moreover have "filter (\<lambda>x. f x < f (L ! (k - 1))) (drop k L) = drop k L"
    using nth [of "k - 1"] assms(2) by (auto simp: filter_id_conv in_set_conv_nth)
  ultimately show ?thesis
    using filter_append [of "\<lambda>x. f x < f (L ! (k - 1))" "take k L" "drop k L"] by simp
qed

lemma scope_decreasing:
  assumes "distinct (map m_created_at (scope pg tenantID d))"
  shows "sorted_wrt (\<lambda>a b. m_created_at b < m_created_at a) (scope pg tenantID d)"
proof -
  let ?L = "scope pg tenantID d"
  have "m_created_at (?L ! j) < m_created_at (?L ! i)" if "i < j" "j < length ?L" for i j
  proof -
    have "m_order (?L ! j) \<le> m_order (?L ! i)"
      using newest_first_sorted [of "filter (in_scope pg tenantID) (messages d)"] that
      unfolding scope_def sorted_wrt_iff_nth_less by blast
    then have "m_created_at (?L ! j) \<le> m_created_at (?L ! i)" by auto
    moreover have "m_created_at (?L ! j) \<noteq> m_created_at (?L ! i)"
      using assms that by (auto simp: distinct_conv_nth)
    ultimately show ?thesis by simp
  qed
  then show ?thesis by (simp add: sorted_wrt_iff_nth_less)
qed

lemma follow_from:
  assumes "se_fault env = Delivered" "tenantID = [] \<or> uuid_in pg tenantID \<noteq> None" "times_ok pg tm d"
    and L: "L = scope pg tenantID d" and dist: "distinct (map m_created_at L)"
    and whole: "\<forall>r \<in> set L. whole_second (m_created_at r) = m_created_at r"
  shows "page_rows pg tm tenantID cursor d = drop k L \<Longrightarrow> length L - k < fuel \<Longrightarrow>
    follow pg js tm env tenantID limit fuel cursor d = Some (map (scan_message js tm) (drop k L))"
proof (induction fuel arbitrary: cursor k)
  case 0
  then show ?case by simp
next
  case (Suc fuel)
  let ?l = "nat (clamp_limit limit)"
  have l: "0 < ?l" using clamp_limit_range [of limit] by simp
  let ?rs = "take ?l (drop k L)"
  obtain nc where p: "ListMessages pg js tm env tenantID cursor limit d =
      (d, Inr \<lparr>cp_Data = map (scan_message js tm) ?rs, cp_NextCursor = nc,
         cp_HasMore = (?l < length (drop k L))\<rparr>)"
    and nx: "?rs \<noteq> [] \<longrightarrow> cursor_time tm nc = Some (whole_second (m_created_at (last ?rs)))"
    using ListMessages_step [OF assms(1-3) refl, where n = limit and cursor = cursor and js = js] unfolding Suc.prems(1) by blast
  show ?case
  proof (cases "?l < length (drop k L)")
    case False
    with p show ?thesis by simp
  next
    case True
    then have k: "k + ?l < length L" "?rs \<noteq> []" using l by auto
    have last: "last ?rs = L ! (k + ?l - 1)"
      using k l by (simp add: last_conv_nth min_def)
    have "L ! (k + ?l - 1) \<in> set L" using k(1) by simp
    then have t: "cursor_time tm nc = Some (m_created_at (L ! (k + ?l - 1)))"
      "timestamptz_in pg (m_created_at (L ! (k + ?l - 1))) = m_created_at (L ! (k + ?l - 1))"
      using nx k(2) last whole assms(3) by (auto simp: times_ok_def) metis
    have "page_rows pg tm tenantID nc d = drop (k + ?l) L"
      using filter_after_nth [OF scope_decreasing [OF dist [unfolded L], folded L], of "k + ?l"] k(1) l t
      by (simp add: page_rows_def before_def [abs_def] L [symmetric])
    from Suc.IH [OF this] Suc.prems(2) k(1) l
    have "follow pg js tm env tenantID limit fuel nc d = Some (map (scan_message js tm) (drop (k + ?l) L))"
      by simp
    moreover have "map (scan_message js tm) ?rs @ map (scan_message js tm) (drop (k + ?l) L) =
        map (scan_message js tm) (drop k L)"
      by (metis append_take_drop_id drop_drop add.commute map_append)
    ultimately show ?thesis using p True by simp
  qed
qed

lemma follow_older:
  assumes "se_fault env = Delivered" "tenantID = [] \<or> uuid_in pg tenantID \<noteq> None" "times_ok pg tm d"
  shows "follow pg js tm env tenantID limit fuel cursor d = Some ms \<Longrightarrow> cursor_time tm cursor = Some (whole_second t) \<Longrightarrow>
    m \<in> set ms \<Longrightarrow> \<exists>r \<in> set (scope pg tenantID d). m = scan_message js tm r \<and> m_created_at r < whole_second t"
proof (induction fuel arbitrary: cursor ms t)
  case (Suc fuel)
  let ?R = "page_rows pg tm tenantID cursor d" and ?l = "nat (clamp_limit limit)"
  have R: "r \<in> set (scope pg tenantID d) \<and> m_created_at r < whole_second t" if "r \<in> set (take ?l ?R)" for r
    using in_set_takeD [OF that] Suc.prems(2) assms(3) by (auto simp: page_rows_def before_def times_ok_def)
  obtain nc where p: "ListMessages pg js tm env tenantID cursor limit d =
      (d, Inr \<lparr>cp_Data = map (scan_message js tm) (take ?l ?R), cp_NextCursor = nc, cp_HasMore = (?l < length ?R)\<rparr>)"
    and nc: "take ?l ?R \<noteq> [] \<longrightarrow> cursor_time tm nc = Some (whole_second (m_created_at (last (take ?l ?R))))"
    using ListMessages_step [OF assms refl, where n = limit and cursor = cursor and js = js] by blast
  show ?case
  proof (cases "m \<in> set (map (scan_message js tm) (take ?l ?R))")
    case True
    then show ?thesis using R by auto
  next
    case False
    with Suc.prems(1,3) p have more: "?l < length ?R" by (auto split: if_splits)
    with False Suc.prems(1,3) p obtain ms' where ms': "follow pg js tm env tenantID limit fuel nc d = Some ms'"
      "m \<in> set ms'" by (auto split: if_splits)
    have ne: "take ?l ?R \<noteq> []" using more clamp_limit_range [of limit] by auto
    from Suc.IH [OF ms'(1) _ ms'(2)] nc ne obtain r where r: "r \<in> set (scope pg tenantID d)"
      "m = scan_message js tm r" "m_created_at r < whole_second (m_created_at (last (take ?l ?R)))" by auto
    moreover have "whole_second (m_created_at (last (take ?l ?R))) < whole_second t"
      using R [OF last_in_set [OF ne]] whole_second_le [of "m_created_at (last (take ?l ?R))"] by simp
    ultimately show ?thesis by (intro bexI [of _ r]) simp_all
  qed
qed simp

text \<open>
  The next page is taken from fewer rows: those before the second of the last row shown, which itself is not among them. So the
  client comes to an end, whatever the times of the rows.
\<close>

lemma page_rows_shrink:
  assumes "times_ok pg tm d" "r \<in> set (page_rows pg tm tenantID cursor d)"
    and "cursor_time tm nc = Some (whole_second (m_created_at r))"
  shows "length (page_rows pg tm tenantID nc d) < length (page_rows pg tm tenantID cursor d)"
proof -
  let ?P = "before pg (cursor_time tm cursor)" and ?T = "whole_second (m_created_at r)"
  have nc: "page_rows pg tm tenantID nc d = filter (\<lambda>x. m_created_at x < ?T) (scope pg tenantID d)"
    using assms(1,3) by (simp add: page_rows_def before_def [abs_def] times_ok_def)
  have r: "r \<in> set (scope pg tenantID d)" "?P r" using assms(2) by (simp_all add: page_rows_def)
  have T: "?T \<le> m_created_at r" by (rule whole_second_le)
  have sub: "?P x" if "m_created_at x < ?T" for x
    using that T r(2) by (auto simp: before_def split: option.splits)
  then have "filter (\<lambda>x. m_created_at x < ?T) (scope pg tenantID d) =
      filter (\<lambda>x. m_created_at x < ?T) (filter ?P (scope pg tenantID d))" by (auto intro: filter_cong)
  moreover have "length (filter (\<lambda>x. m_created_at x < ?T) (filter ?P (scope pg tenantID d))) < length (filter ?P (scope pg tenantID d))"
    using r T by (intro length_filter_less [of r]) auto
  ultimately show ?thesis unfolding nc by (simp add: page_rows_def)
qed

lemma follow_total:
  assumes "se_fault env = Delivered" "tenantID = [] \<or> uuid_in pg tenantID \<noteq> None" "times_ok pg tm d"
  shows "length (page_rows pg tm tenantID cursor d) < fuel \<Longrightarrow> \<exists>ms. follow pg js tm env tenantID limit fuel cursor d = Some ms"
proof (induction fuel arbitrary: cursor)
  case (Suc fuel)
  let ?R = "page_rows pg tm tenantID cursor d" and ?l = "nat (clamp_limit limit)"
  obtain nc where p: "ListMessages pg js tm env tenantID cursor limit d =
      (d, Inr \<lparr>cp_Data = map (scan_message js tm) (take ?l ?R), cp_NextCursor = nc, cp_HasMore = (?l < length ?R)\<rparr>)"
    and nc: "take ?l ?R \<noteq> [] \<longrightarrow> cursor_time tm nc = Some (whole_second (m_created_at (last (take ?l ?R))))"
    using ListMessages_step [OF assms refl, where n = limit and cursor = cursor and js = js] by blast
  show ?case
  proof (cases "?l < length ?R")
    case True
    then have ne: "take ?l ?R \<noteq> []" using clamp_limit_range [of limit] by auto
    have "last (take ?l ?R) \<in> set ?R" by (rule in_set_takeD [OF last_in_set [OF ne]])
    from page_rows_shrink [OF assms(3) this] nc ne have "length (page_rows pg tm tenantID nc d) < length ?R" by simp
    then have "length (page_rows pg tm tenantID nc d) < fuel" using Suc.prems by simp
    from Suc.IH [OF this] p True show ?thesis by auto
  qed (use p in simp)
qed simp

section \<open>Properties\<close>

definition sample_message :: "string \<Rightarrow> time \<Rightarrow> message_row" where
  "sample_message mid t =
     \<lparr>m_id = mid, m_tenant_id = uuid_b, m_payload = ''{}'', m_status = ''pending'', m_retry_count = 0,
      m_created_at = t, m_updated_at = t\<rparr>"

definition sample_db :: "time \<Rightarrow> time \<Rightarrow> db" where
  "sample_db t1 t2 = db_empty\<lparr>messages := [sample_message uuid_a t1, sample_message uuid_c t2]\<rparr>"

lemma sample_scope:
  "t1 < t2 \<Longrightarrow> scope sample_pg uuid_b (sample_db t1 t2) = [sample_message uuid_c t2, sample_message uuid_a t1]"
  by (simp add: scope_def newest_first_def sample_db_def sample_message_def in_scope_def)

lemma sample_times_ok:
  "0 \<le> t1 \<Longrightarrow> 0 \<le> t2 \<Longrightarrow> t1 < 10 ^ 15 \<Longrightarrow> t2 < 10 ^ 15 \<Longrightarrow> times_ok sample_pg sample_time (sample_db t1 t2)"
proof -
  have "whole_second t div 1000 * 1000 = whole_second t" for t
  proof -
    have "whole_second t = (t div 10 ^ 9 * 10 ^ 6) * 1000" by (simp add: whole_second_def)
    then show ?thesis by simp
  qed
  moreover assume "0 \<le> t1" "0 \<le> t2" "t1 < 10 ^ 15" "t2 < 10 ^ 15"
  ultimately show ?thesis
    by (simp add: times_ok_def sample_zone sample_db_def sample_message_def time_limit_def
        sample_pg_def [THEN arg_cong [where f = timestamptz_in]])
qed

text \<open>
  One page. A successful listing returns at most a hundred messages; they are the newest of
  the tenant (of all tenants only for an empty tenant) that are older than the cursor, newest
  first, and \<^verbatim>\<open>has_more\<close> tells exactly whether there are others.
\<close>

lemma ListMessages_page:
  assumes "ListMessages pg js tm env tenantID cursor n d = (d', Inr p)"
  shows "d' = d \<and> length (cp_Data p) \<le> 100 \<and>
    (\<exists>rest. map (scan_message js tm) (page_rows pg tm tenantID cursor d) = cp_Data p @ rest \<and>
       (cp_HasMore p \<longleftrightarrow> rest \<noteq> [])) \<and>
    (\<forall>m \<in> set (cp_Data p). tenantID = [] \<or> uuid_in pg tenantID = Some (mr_TenantID m)) \<and>
    sorted_wrt (\<lambda>a b. m_order b \<le> m_order a) (page_rows pg tm tenantID cursor d)"
proof -
  note p = ListMessages_rows [OF ListMessages_Inr [OF assms] refl]
  let ?l = "nat (clamp_limit n)" and ?R = "page_rows pg tm tenantID cursor d"
  have d: "d' = d" "cp_Data p = map (scan_message js tm) (take ?l ?R)" "cp_HasMore p = (?l < length ?R)"
    using p assms by auto
  have "length (cp_Data p) \<le> 100" using clamp_limit_range [of n] by (auto simp: d min_def)
  moreover have "map (scan_message js tm) ?R = cp_Data p @ map (scan_message js tm) (drop ?l ?R) \<and>
      (cp_HasMore p \<longleftrightarrow> map (scan_message js tm) (drop ?l ?R) \<noteq> [])"
    by (simp add: d linorder_not_le flip: map_append)
  moreover have "tenantID = [] \<or> uuid_in pg tenantID = Some (mr_TenantID m)" if "m \<in> set (cp_Data p)" for m
  proof -
    from that obtain r where r: "m = scan_message js tm r" "r \<in> set (take ?l ?R)" by (auto simp: d)
    then have "r \<in> set (scope pg tenantID d)" using page_rows_subset [OF in_set_takeD] by blast
    then show ?thesis by (simp add: r(1) scope_subset in_scope_def scan_message_def)
  qed
  moreover have "sorted_wrt (\<lambda>a b. m_order b \<le> m_order a) ?R"
    unfolding page_rows_def scope_def by (rule sorted_wrt_filter [OF newest_first_sorted])
  ultimately show ?thesis using d(1) by blast
qed

text \<open>
  C14: following the cursor to the end. When the messages of the tenant were created at different
  whole seconds, the pages hold all of them, each once, newest first, after finitely many calls
  and whatever page size is asked for.
\<close>

theorem ListMessages_complete:
  assumes "svc_healthy env" "tenantID = [] \<or> uuid_in pg tenantID \<noteq> None" "times_ok pg tm d"
    and "distinct (map m_created_at (scope pg tenantID d))"
    and "\<forall>r \<in> set (scope pg tenantID d). whole_second (m_created_at r) = m_created_at r"
    and "length (messages d) < fuel"
  shows "follow pg js tm env tenantID limit fuel [] d =
    Some (map (scan_message js tm) (newest_first (filter (in_scope pg tenantID) (messages d))))"
proof -
  have "length (scope pg tenantID d) \<le> length (messages d)"
    by (simp add: scope_def newest_first_def)
  then have "length (scope pg tenantID d) - 0 < fuel" using assms(6) by simp
  moreover have "page_rows pg tm tenantID [] d = drop 0 (scope pg tenantID d)"
    by (simp add: page_rows_def cursor_time_def before_def)
  moreover have "se_fault env = Delivered" using assms(1) by (simp add: svc_healthy_def)
  ultimately have "follow pg js tm env tenantID limit fuel [] d =
      Some (map (scan_message js tm) (drop 0 (scope pg tenantID d)))"
    using assms(2-5) by (intro follow_from) auto
  then show ?thesis by (simp add: scope_def)
qed

theorem ListMessages_complete_witness:
  "follow sample_pg sample_js sample_time (sample_env [] 0) uuid_b 1 3 [] (sample_db 1000000000 2000000000) =
     Some [scan_message sample_js sample_time (sample_message uuid_c 2000000000),
           scan_message sample_js sample_time (sample_message uuid_a 1000000000)]"
proof -
  let ?d = "sample_db 1000000000 2000000000"
  have sc: "scope sample_pg uuid_b ?d = [sample_message uuid_c 2000000000, sample_message uuid_a 1000000000]"
    by (rule sample_scope) simp
  have "follow sample_pg sample_js sample_time (sample_env [] 0) uuid_b 1 3 [] ?d =
     Some (map (scan_message sample_js sample_time) (newest_first (filter (in_scope sample_pg uuid_b) (messages ?d))))"
  proof (rule ListMessages_complete)
    show "times_ok sample_pg sample_time ?d" by (rule sample_times_ok) simp_all
    show "distinct (map m_created_at (scope sample_pg uuid_b ?d))"
      "\<forall>r \<in> set (scope sample_pg uuid_b ?d). whole_second (m_created_at r) = m_created_at r"
      unfolding sc by (simp_all add: sample_message_def whole_second_def)
  qed (simp_all add: sample_db_def)
  then show ?thesis using sc by (simp add: scope_def)
qed

text \<open>
  C35: messages that share a second. The cursor keeps only the whole second of the last message
  shown, and the next page takes strictly older messages. So when a page ends inside a second,
  the messages of that second which come after it are on no page, although the page before said
  there were more: a client that asks for page after page comes to the last page, with one unit of fuel more than there are
  messages, and has not seen them.
\<close>

theorem ListMessages_skips_same_second:
  assumes "svc_healthy env" "times_ok pg tm d" "messages_ok pg (messages d)"
    and "uuid_in pg tenantID \<noteq> None" "tenantID \<noteq> []"
    and L: "L = scope pg tenantID d" "l = nat (clamp_limit limit)" "l \<le> i" "i < length L"
    and same: "whole_second (m_created_at (L ! i)) = whole_second (m_created_at (L ! (l - 1)))"
    and "length (messages d) < fuel"
  shows "\<exists>ms. follow pg js tm env tenantID limit fuel [] d = Some ms \<and> scan_message js tm (L ! i) \<notin> set ms"
proof (cases fuel)
  case (Suc fuel')
  have f: "se_fault env = Delivered" "tenantID = [] \<or> uuid_in pg tenantID \<noteq> None"
    using assms(1,4) by (simp_all add: svc_healthy_def)
  have R: "page_rows pg tm tenantID [] d = L"
    by (simp add: L page_rows_def cursor_time_def before_def)
  have l: "0 < l" using clamp_limit_range [of limit] L(2) by simp
  have n0: "take l L \<noteq> []" "l < length L" using l L(3,4) by auto
  have ne: "take l L \<noteq> []" "last (take l L) = L ! (l - 1)" "l < length L"
    using l n0 last_conv_nth [OF n0(1)] by simp_all
  obtain nc where p: "ListMessages pg js tm env tenantID [] limit d =
      (d, Inr \<lparr>cp_Data = map (scan_message js tm) (take l L), cp_NextCursor = nc, cp_HasMore = (l < length L)\<rparr>)"
    and nc: "cursor_time tm nc = Some (whole_second (m_created_at (L ! (l - 1))))"
    using ListMessages_step [OF f assms(2) refl, where n = limit and cursor = "[]" and js = js] ne
    unfolding R L(2) [symmetric] by auto
  have "length (page_rows pg tm tenantID [] d) < fuel" using assms(11) unfolding R by (simp add: L(1) scope_def newest_first_def
        order_le_less_trans [OF length_filter_le])
  from follow_total [OF f assms(2) this, of js limit] obtain ms where
    fo: "follow pg js tm env tenantID limit fuel [] d = Some ms" ..
  with p Suc ne(3) obtain ms' where ms: "ms = map (scan_message js tm) (take l L) @ ms'"
    "follow pg js tm env tenantID limit fuel' nc d = Some ms'" by auto
  have inj: "r = r'" if "r \<in> set L" "r' \<in> set L" "scan_message js tm r = scan_message js tm r'" for r r'
    using scope_inj [OF assms(3), of r tenantID r'] that by (simp add: L(1) scan_message_def)
  have dL: "distinct L" using messages_ok_distinct [OF assms(3)] by (simp add: L(1))
  have "L ! i \<notin> set (take l L)"
    using dL L(3,4) by (auto simp: in_set_conv_nth nth_eq_iff_index_eq)
  then have "scan_message js tm (L ! i) \<notin> set (map (scan_message js tm) (take l L))"
    using inj [of "L ! i"] L(4) by (fastforce dest: in_set_takeD)
  moreover have "scan_message js tm (L ! i) \<notin> set ms'"
  proof
    assume "scan_message js tm (L ! i) \<in> set ms'"
    from follow_older [OF f assms(2) ms(2) nc this] obtain r where r: "r \<in> set L"
      "scan_message js tm (L ! i) = scan_message js tm r" "m_created_at r < whole_second (m_created_at (L ! (l - 1)))"
      by (auto simp: L(1))
    then have "r = L ! i" using inj [of "L ! i" r] L(4) by simp
    with r(3) same whole_second_le [of "m_created_at (L ! i)"] show False by simp
  qed
  ultimately show ?thesis using ms(1) fo by simp
qed (use assms(11) in simp)

theorem ListMessages_skips_same_second_witness:
  "\<exists>ms. follow sample_pg sample_js sample_time (sample_env [] 0) uuid_b 1 3 [] (sample_db 5 7) = Some ms \<and>
     scan_message sample_js sample_time (sample_message uuid_a 5) \<notin> set ms"
proof -
  let ?d = "sample_db 5 7"
  have sc: "scope sample_pg uuid_b ?d = [sample_message uuid_c 7, sample_message uuid_a 5]"
    by (rule sample_scope) simp
  have ok: "times_ok sample_pg sample_time ?d" by (rule sample_times_ok) simp_all
  have mok: "messages_ok sample_pg (messages ?d)"
    by (simp add: messages_ok_def sample_db_def sample_message_def message_statuses_def)
  have "\<exists>ms. follow sample_pg sample_js sample_time (sample_env [] 0) uuid_b 1 3 [] ?d = Some ms \<and>
      scan_message sample_js sample_time (scope sample_pg uuid_b ?d ! 1) \<notin> set ms"
    by (rule ListMessages_skips_same_second [OF sample_env_healthy ok mok _ _ refl refl])
      (simp_all add: sc sample_message_def whole_second_def clamp_limit_def, simp add: sample_db_def)
  then show ?thesis by (simp add: sc)
qed

text \<open>
  Creating a message. When the call succeeds the message is pending with no retries under
  the tenant that was named, and reading it back gives the same response; a read that names a
  tenant never returns another tenant's message.
\<close>

lemma CreateMessage_roundtrip:
  assumes "uuid_lawful pg" "db_ok pg d" "CreateMessage pg js tm env req d = (d', Inr m)" "svc_healthy env'"
  shows "mr_Status m = ''pending'' \<and> mr_RetryCount m = 0 \<and>
    uuid_in pg (cm_TenantID req) = Some (mr_TenantID m) \<and> db_ok pg d' \<and>
    GetMessage pg js tm env' (mr_ID m) (cm_TenantID req) d' = (d', Inr m) \<and>
    (\<forall>t x. GetMessage pg js tm env' (mr_ID m) t d' = (d', Inr x) \<longrightarrow> uuid_in pg t = Some (mr_TenantID x))"
proof -
  from assms(3) obtain p row where row: "m = scan_message js tm row" "se_fault env = Delivered"
    "sql_insert_message pg (se_now env) (se_uuid env) (cm_TenantID req) p d = (d', Inr row)"
    by (auto simp: CreateMessage_def with_fault_Inr split: sum.splits prod.splits)
  from row(3) have r: "uuid_in pg (se_uuid env) = Some (m_id row)" "uuid_in pg (cm_TenantID req) = Some (m_tenant_id row)"
    "m_key row \<notin> m_key ` set (messages d)" "d' = d\<lparr>messages := messages d @ [row]\<rparr>"
    "m_status row = ''pending''" "m_retry_count row = 0"
    by (auto simp: sql_insert_message_def Let_def split: option.splits if_splits)
  have "find_by m_key (m_key row) (messages d @ [row]) = Some row"
    using r(3) by (rule find_by_append_fresh) simp
  then have "GetMessage pg js tm env' (mr_ID m) (cm_TenantID req) d' = (d', Inr m)"
    using assms(4) r uuid_lawfulD [OF assms(1) r(1)]
    by (simp add: GetMessage_def sql_select_message_def svc_healthy_def row(1) scan_message_def)
  moreover have "uuid_in pg t = Some (mr_TenantID x)"
    if "GetMessage pg js tm env' (mr_ID m) t d' = (d', Inr x)" for t x
    using that by (auto simp: GetMessage_def sql_select_message_def with_fault_Inr scan_message_def
        dest!: find_by_SomeD split: prod.splits sum.splits option.splits)
  moreover have "db_ok pg d'" using sql_insert_message_ok [OF assms(1,2)] row(3) by (metis fst_conv)
  ultimately show ?thesis using r(2,5,6) by (simp add: row(1) scan_message_def)
qed

end
