(* ===== verification/Auth.thy ===== *)
theory Auth
  imports Tenant_Service
begin

text \<open>
  Accounts and tokens: \<^verbatim>\<open>internal/model/user.go\<close>, \<^verbatim>\<open>internal/repository/user_repository.go\<close>,
  \<^verbatim>\<open>internal/service/auth_service.go\<close> and \<^verbatim>\<open>internal/handler/middleware/jwt.go\<close>. The bcrypt and
  JWT libraries are parameters, the record \<open>go_crypto\<close>; \<open>crypto_lawful\<close> is what they document: a
  hash matches the password it was made from, and a token signed with a secret parses with that
  secret, to its claims, until it expires and not from then on.
\<close>

section \<open>Libraries\<close>

text \<open>\<^verbatim>\<open>JWTClaims\<close>, the same struct in the service and in the middleware.\<close>

record JWTClaims =
  jc_UserID :: string
  jc_Username :: string
  jc_TenantID :: string
  jc_Role :: string
  jc_ExpiresAt :: time
  jc_IssuedAt :: time

record go_crypto =
  bcrypt_Generate :: "nat \<Rightarrow> string \<Rightarrow> string res" \<comment> \<open>the first argument is the salt drawn\<close>
  bcrypt_Compare :: "string \<Rightarrow> string \<Rightarrow> unit res"
  jwt_SignedString :: "string \<Rightarrow> JWTClaims \<Rightarrow> string res"
  jwt_ParseWithClaims :: "string \<Rightarrow> time \<Rightarrow> string \<Rightarrow> (JWTClaims \<times> bool) res"

definition crypto_lawful :: "go_crypto \<Rightarrow> bool" where
  "crypto_lawful cr \<longleftrightarrow>
     (\<forall>salt p h. bcrypt_Generate cr salt p = Inr h \<longrightarrow> bcrypt_Compare cr h p = Inr ()) \<and>
     (\<forall>secret c tok now. jwt_SignedString cr secret c = Inr tok \<longrightarrow>
        (if now < jc_ExpiresAt c then jwt_ParseWithClaims cr secret now tok = Inr (c, True)
         else isl (jwt_ParseWithClaims cr secret now tok)))"

section \<open>Users\<close>

record User =
  us_ID :: string
  us_Username :: string
  us_PasswordHash :: string
  us_TenantID :: string
  us_Role :: string
  us_CreatedAt :: time
  us_UpdatedAt :: time

record UserResponse =
  ur_ID :: string
  ur_Username :: string
  ur_TenantID :: string
  ur_Role :: string
  ur_CreatedAt :: string

definition ToResponse :: "go_time \<Rightarrow> User \<Rightarrow> UserResponse" where
  "ToResponse tm u =
     \<lparr>ur_ID = us_ID u, ur_Username = us_Username u, ur_TenantID = us_TenantID u, ur_Role = us_Role u,
      ur_CreatedAt = Format_RFC3339 tm (us_CreatedAt u)\<rparr>"

definition ErrUserNotFound :: go_error where
  "ErrUserNotFound = Sentinel ''repository'' ''user not found''"

definition ErrInvalidCredentials :: go_error where
  "ErrInvalidCredentials = Sentinel ''service'' ''invalid credentials''"

definition ErrUserAlreadyExists :: go_error where
  "ErrUserAlreadyExists = Sentinel ''service'' ''user already exists''"

text \<open>
  \<^verbatim>\<open>Scan\<close> into a \<^verbatim>\<open>User\<close>: a NULL \<^verbatim>\<open>tenant_id\<close> cannot be stored in a string.
\<close>

definition err_null_scan :: go_error where
  "err_null_scan =
     Wrapf (''sql: Scan error on column index 3, name '' @ [CHR 0x22] @ ''tenant_id'' @ [CHR 0x22] @ '': '')
     (ErrorNew ''converting NULL to string is unsupported'')"

definition scan_user :: "user_row \<Rightarrow> User res" where
  "scan_user r =
     (case u_tenant_id r of
        None \<Rightarrow> Inl err_null_scan
      | Some t \<Rightarrow> Inr \<lparr>us_ID = u_id r, us_Username = u_username r, us_PasswordHash = u_password_hash r,
                       us_TenantID = t, us_Role = u_role r, us_CreatedAt = u_created_at r,
                       us_UpdatedAt = u_updated_at r\<rparr>)"

record auth_env =
  au_fault_select :: fault
  au_fault_insert :: fault
  au_now :: time
  au_uuid :: string
  au_salt :: nat

text \<open>The repository.\<close>

definition UserRepository_Create ::
  "go_crypto \<Rightarrow> pg_server \<Rightarrow> auth_env \<Rightarrow> string \<Rightarrow> string \<Rightarrow> string \<Rightarrow> string \<Rightarrow> db \<Rightarrow> db \<times> User res" where
  "UserRepository_Create cr pg env username password tenantID role d =
     (case bcrypt_Generate cr (au_salt env) password of
        Inl e \<Rightarrow> (d, Inl e)
      | Inr hash \<Rightarrow>
          (case with_fault (au_fault_insert env)
                  (sql_insert_user pg (au_now env) (au_uuid env) username hash tenantID role) d of
             (d', Inl e) \<Rightarrow> (d', Inl e)
           | (d', Inr row) \<Rightarrow> (d', scan_user row)))"

definition not_found :: "go_error \<Rightarrow> go_error" where
  "not_found e = (if errors_Is e ErrNoRows then ErrUserNotFound else e)"

definition GetByUsername :: "auth_env \<Rightarrow> string \<Rightarrow> db \<Rightarrow> db \<times> User res" where
  "GetByUsername env username d =
     (case with_fault (au_fault_select env) (sql_select_user_by_username username) d of
        (d', Inl e) \<Rightarrow> (d', Inl (not_found e))
      | (d', Inr row) \<Rightarrow>
          (d', case scan_user row of Inl e \<Rightarrow> Inl (not_found e) | Inr u \<Rightarrow> Inr u))"

definition GetByID :: "pg_server \<Rightarrow> auth_env \<Rightarrow> string \<Rightarrow> db \<Rightarrow> db \<times> User res" where
  "GetByID pg env uid d =
     (case with_fault (au_fault_select env) (sql_select_user_by_id pg uid) d of
        (d', Inl e) \<Rightarrow> (d', Inl (not_found e))
      | (d', Inr row) \<Rightarrow>
          (d', case scan_user row of Inl e \<Rightarrow> Inl (not_found e) | Inr u \<Rightarrow> Inr u))"

definition VerifyPassword :: "go_crypto \<Rightarrow> User \<Rightarrow> string \<Rightarrow> bool" where
  "VerifyPassword cr user password \<longleftrightarrow> \<not> isl (bcrypt_Compare cr (us_PasswordHash user) password)"

section \<open>Service\<close>

record AuthService =
  as_jwtSecret :: string
  as_jwtExpiry :: time

record RegisterRequest =
  rr_Username :: string
  rr_Password :: string
  rr_TenantID :: string
  rr_Role :: string

record LoginResponse =
  lr_Token :: string
  lr_Type :: string
  lr_User :: UserResponse

definition err_required :: go_error where
  "err_required = ErrorNew ''username and password are required''"

definition Register ::
  "go_crypto \<Rightarrow> pg_server \<Rightarrow> auth_env \<Rightarrow> RegisterRequest \<Rightarrow> db \<Rightarrow> db \<times> User res" where
  "Register cr pg env req d =
     (if rr_Username req = [] \<or> rr_Password req = [] then (d, Inl err_required)
      else
        (let role = (if rr_Role req = [] then ''user'' else rr_Role req) in
         case GetByUsername env (rr_Username req) d of
           (d1, Inr _) \<Rightarrow> (d1, Inl ErrUserAlreadyExists)
         | (d1, Inl _) \<Rightarrow>
             UserRepository_Create cr pg env (rr_Username req) (rr_Password req) (rr_TenantID req) role d1))"

text \<open>
  \<^verbatim>\<open>Login\<close>: \<open>now\<close> and \<open>now'\<close> are the two calls of \<^verbatim>\<open>time.Now\<close>; \<^verbatim>\<open>jwt.NewNumericDate\<close> keeps whole
  seconds.
\<close>

definition Login ::
  "go_crypto \<Rightarrow> go_time \<Rightarrow> auth_env \<Rightarrow> AuthService \<Rightarrow> time \<Rightarrow> time \<Rightarrow> string \<Rightarrow> string \<Rightarrow> db
     \<Rightarrow> db \<times> LoginResponse res" where
  "Login cr tm env s now now' username password d =
     (case GetByUsername env username d of
        (d1, Inl e) \<Rightarrow> (d1, Inl (if errors_Is e ErrUserNotFound then ErrInvalidCredentials else e))
      | (d1, Inr user) \<Rightarrow>
          (d1,
           if \<not> VerifyPassword cr user password then Inl ErrInvalidCredentials
           else
             (case jwt_SignedString cr (as_jwtSecret s)
                     \<lparr>jc_UserID = us_ID user, jc_Username = us_Username user, jc_TenantID = us_TenantID user,
                      jc_Role = us_Role user, jc_ExpiresAt = whole_second (now + as_jwtExpiry s),
                      jc_IssuedAt = whole_second now'\<rparr> of
                Inl e \<Rightarrow> Inl e
              | Inr tokenString \<Rightarrow>
                  Inr \<lparr>lr_Token = tokenString, lr_Type = ''Bearer'', lr_User = ToResponse tm user\<rparr>)))"

section \<open>Middleware\<close>

text \<open>\<^verbatim>\<open>strings.SplitN(s, " ", 2)\<close>\<close>

definition SplitN2 :: "string \<Rightarrow> string list" where
  "SplitN2 s =
     (case dropWhile (\<lambda>c. c \<noteq> CHR '' '') s of
        [] \<Rightarrow> [s]
      | _ # rest \<Rightarrow> [takeWhile (\<lambda>c. c \<noteq> CHR '' '') s, rest])"

text \<open>
  \<^verbatim>\<open>NewJWTMiddleware\<close>: a refusal is answered with status 401 and the text given, otherwise the
  next handler runs with the claims in its locals. The claims are parsed into a \<^verbatim>\<open>*JWTClaims\<close>, so
  the type assertion after it always succeeds.
\<close>

definition NewJWTMiddleware :: "go_crypto \<Rightarrow> string \<Rightarrow> time \<Rightarrow> string \<Rightarrow> string + JWTClaims" where
  "NewJWTMiddleware cr secret now authHeader =
     (if authHeader = [] then Inl ''missing authorization header''
      else
        (let parts = SplitN2 authHeader in
         if length parts \<noteq> 2 \<or> ToLower (parts ! 0) \<noteq> ''bearer''
         then Inl ''invalid authorization header format''
         else
           (case jwt_ParseWithClaims cr secret now (parts ! 1) of
              Inl e \<Rightarrow> Inl ''invalid token''
            | Inr (claims, valid) \<Rightarrow> if \<not> valid then Inl ''invalid token'' else Inr claims)))"

definition GenerateToken ::
  "go_crypto \<Rightarrow> string \<Rightarrow> string \<Rightarrow> string \<Rightarrow> time \<Rightarrow> time \<Rightarrow> time \<Rightarrow> string res" where
  "GenerateToken cr secret tenantID role expiry now now' =
     jwt_SignedString cr secret
       \<lparr>jc_UserID = [], jc_Username = [], jc_TenantID = tenantID, jc_Role = role,
        jc_ExpiresAt = whole_second (now + expiry), jc_IssuedAt = whole_second now'\<rparr>"

text \<open>The accessors, on what \<^verbatim>\<open>c.Locals("user")\<close> holds: a failed type assertion panics.\<close>

definition GetTenantID :: "JWTClaims option \<Rightarrow> string" where
  "GetTenantID user = (case user of Some claims \<Rightarrow> jc_TenantID claims | None \<Rightarrow> [])"

definition GetClaims :: "JWTClaims option \<Rightarrow> JWTClaims outcome" where
  "GetClaims user = (case user of Some claims \<Rightarrow> Returns claims | None \<Rightarrow> Panics ''interface conversion'')"

definition GetUserID :: "JWTClaims option \<Rightarrow> string outcome" where
  "GetUserID user = bind_outcome (GetClaims user) (\<lambda>c. Returns (jc_UserID c))"

definition GetUsername :: "JWTClaims option \<Rightarrow> string outcome" where
  "GetUsername user = bind_outcome (GetClaims user) (\<lambda>c. Returns (jc_Username c))"

section \<open>Lemmas\<close>

lemma SplitN2_append: "CHR '' '' \<notin> set a \<Longrightarrow> SplitN2 (a @ CHR '' '' # b) = [a, b]"
  by (auto simp: SplitN2_def dropWhile_append takeWhile_append dropWhile_eq_Nil_conv)

lemma SplitN2_two: "SplitN2 s = [a, b] \<Longrightarrow> s = a @ CHR '' '' # b \<and> CHR '' '' \<notin> set a"
proof -
  assume "SplitN2 s = [a, b]"
  then obtain c where c: "dropWhile (\<lambda>c. c \<noteq> CHR '' '') s = c # b" "a = takeWhile (\<lambda>c. c \<noteq> CHR '' '') s"
    by (auto simp: SplitN2_def split: list.splits)
  then have "c = CHR '' ''" using hd_dropWhile [of "\<lambda>c. c \<noteq> CHR '' ''" s] by auto
  then show ?thesis
    using c takeWhile_dropWhile_id [of "\<lambda>c. c \<noteq> CHR '' ''" s] by (auto dest: set_takeWhileD)
qed

lemma SplitN2_length: "length (SplitN2 s) = 2 \<longleftrightarrow> (\<exists>a b. SplitN2 s = [a, b])"
  by (auto simp: SplitN2_def split: list.splits)

definition auth_healthy :: "auth_env \<Rightarrow> bool" where
  "auth_healthy env \<longleftrightarrow> au_fault_select env = Delivered \<and> au_fault_insert env = Delivered"

lemma not_found_simps [simp]: "not_found ErrNoRows = ErrUserNotFound" "not_found err_null_scan = err_null_scan"
  by (simp_all add: not_found_def err_null_scan_def ErrNoRows_def)

lemma errors_Is_not_found [simp]:
  "errors_Is ErrUserNotFound ErrUserNotFound" "\<not> errors_Is err_null_scan ErrUserNotFound"
  by (simp_all add: err_null_scan_def ErrUserNotFound_def)

lemma GetByUsername_healthy:
  "auth_healthy env \<Longrightarrow> GetByUsername env username d =
     (d, case find_by u_username username (users d) of
           None \<Rightarrow> Inl ErrUserNotFound
         | Some row \<Rightarrow> scan_user row)"
  by (auto simp: GetByUsername_def auth_healthy_def sql_select_user_by_username_def scan_user_def
      dest: find_by_image split: option.splits)

lemma Register_Inr:
  assumes "Register cr pg env req d = (d', Inr user)" "db_ok pg d"
  shows "\<exists>hash row. bcrypt_Generate cr (au_salt env) (rr_Password req) = Inr hash \<and>
    scan_user row = Inr user \<and> d' = d\<lparr>users := users d @ [row]\<rparr> \<and>
    u_username row = rr_Username req \<and> u_username row \<notin> u_username ` set (users d) \<and>
    u_password_hash row = hash \<and> u_role row = (if rr_Role req = [] then ''user'' else rr_Role req) \<and>
    u_tenant_id row = uuid_in pg (rr_TenantID req) \<and> us_TenantID user \<in> t_id ` set (tenants d) \<and>
    rr_Username req \<noteq> [] \<and> rr_Password req \<noteq> []"
proof -
  have g: "fst (GetByUsername env (rr_Username req) d) = d"
    by (cases "au_fault_select env")
      (auto simp: GetByUsername_def sql_select_user_by_username_def split: option.splits)
  from assms(1) obtain e where "GetByUsername env (rr_Username req) d = (d, Inl e)"
    "rr_Username req \<noteq> []" "rr_Password req \<noteq> []"
    using g by (auto simp: Register_def split: prod.splits sum.splits if_splits)
  with assms(1) obtain hash row where r: "bcrypt_Generate cr (au_salt env) (rr_Password req) = Inr hash"
    "sql_insert_user pg (au_now env) (au_uuid env) (rr_Username req) hash (rr_TenantID req)
       (if rr_Role req = [] then ''user'' else rr_Role req) d = (d', Inr row)" "scan_user row = Inr user"
    by (auto simp: Register_def UserRepository_Create_def with_fault_Inr Let_def split: prod.splits sum.splits)
  from r(2) have i: "d' = d\<lparr>users := users d @ [row]\<rparr>" "u_username row = rr_Username req"
    "u_username row \<notin> u_username ` set (users d)" "u_password_hash row = hash"
    "u_role row = (if rr_Role req = [] then ''user'' else rr_Role req)"
    "u_tenant_id row = uuid_in pg (rr_TenantID req)"
    "\<exists>t. u_tenant_id row = Some t \<and> t \<in> t_id ` set (tenants d)"
    unfolding sql_insert_user_def by (auto simp: Let_def split: option.splits if_splits)
  from i(7) r(3) have "us_TenantID user \<in> t_id ` set (tenants d)" by (auto simp: scan_user_def)
  with r i \<open>rr_Username req \<noteq> []\<close> \<open>rr_Password req \<noteq> []\<close> show ?thesis by blast
qed

lemma Create_refused:
  assumes "\<And>hash. \<exists>e. sql_insert_user pg (au_now env) (au_uuid env) un hash tid role d = (d, Inl e)"
    "au_fault_insert env = Delivered"
  shows "\<exists>e. UserRepository_Create cr pg env un pw tid role d = (d, Inl e)"
proof (cases "bcrypt_Generate cr (au_salt env) pw")
  case (Inr hash)
  with assms(1) [of hash] assms(2) show ?thesis by (auto simp: UserRepository_Create_def)
qed (simp add: UserRepository_Create_def)

lemma middleware_bearer:
  "NewJWTMiddleware cr secret t (''Bearer '' @ tok) =
     (case jwt_ParseWithClaims cr secret t tok of
        Inl e \<Rightarrow> Inl ''invalid token''
      | Inr (claims, valid) \<Rightarrow> if \<not> valid then Inl ''invalid token'' else Inr claims)"
proof -
  have "SplitN2 (''Bearer'' @ CHR '' '' # tok) = [''Bearer'', tok]" by (rule SplitN2_append) simp
  moreover have "ToLower ''Bearer'' = ''bearer''" by code_simp
  ultimately show ?thesis by (simp add: NewJWTMiddleware_def)
qed

section \<open>Libraries for the witnesses\<close>

text \<open>A hash that is the password, and tokens that spell out the secret and the claims.\<close>

definition enc :: "string \<Rightarrow> string" where
  "enc s = concat (map (\<lambda>c. [CHR ''.'', c]) s) @ '';''"

fun dec :: "string \<Rightarrow> string \<times> string" where
  "dec (a # c # s) = (if a = CHR ''.'' then (let (x, r) = dec s in (c # x, r)) else ([], c # s))"
| "dec [a] = ([], [])"
| "dec [] = ([], [])"

lemma dec_enc [simp]: "dec (enc s @ r) = (s, r)"
proof (induction s)
  case Nil
  then show ?case by (cases r) (simp_all add: enc_def)
qed (simp add: enc_def)

definition enc_int :: "int \<Rightarrow> string" where
  "enc_int t = enc ((if t < 0 then CHR ''-'' else CHR ''+'') # replicate (nat \<bar>t\<bar>) (CHR ''1''))"

definition dec_int :: "string \<Rightarrow> int \<times> string" where
  "dec_int s = (case dec s of (x, r) \<Rightarrow>
     ((if hd x = CHR ''-'' then - (int (length x) - 1) else int (length x) - 1), r))"

lemma dec_enc_int [simp]: "dec_int (enc_int t @ r) = (t, r)"
  by (simp add: dec_int_def enc_int_def)

definition sample_sign :: "string \<Rightarrow> JWTClaims \<Rightarrow> string" where
  "sample_sign secret c = enc secret @ enc (jc_UserID c) @ enc (jc_Username c) @ enc (jc_TenantID c) @
     enc (jc_Role c) @ enc_int (jc_ExpiresAt c) @ enc_int (jc_IssuedAt c) @ []"

definition sample_parse :: "string \<Rightarrow> time \<Rightarrow> string \<Rightarrow> (JWTClaims \<times> bool) res" where
  "sample_parse secret now tok =
     (let (s, r0) = dec tok; (a, r1) = dec r0; (b, r2) = dec r1; (t, r3) = dec r2; (ro, r4) = dec r3;
          (ex, r5) = dec_int r4; (ia, r6) = dec_int r5
      in if s = secret \<and> now < ex
         then Inr (\<lparr>jc_UserID = a, jc_Username = b, jc_TenantID = t, jc_Role = ro, jc_ExpiresAt = ex,
                    jc_IssuedAt = ia\<rparr>, True)
         else Inl (ErrorNew ''token is invalid''))"

definition sample_crypto :: go_crypto where
  "sample_crypto =
     \<lparr>bcrypt_Generate = (\<lambda>salt p. Inr p),
      bcrypt_Compare = (\<lambda>h p. if h = p then Inr () else Inl (ErrorNew ''hashedPassword is not the hash'')),
      jwt_SignedString = (\<lambda>secret c. Inr (sample_sign secret c)),
      jwt_ParseWithClaims = sample_parse\<rparr>"

lemma sample_parse_sign: "sample_parse secret now (sample_sign secret c) =
    (if now < jc_ExpiresAt c then Inr (c, True) else Inl (ErrorNew ''token is invalid''))"
  using dec_enc_int [of "jc_IssuedAt c" "[]"] unfolding sample_parse_def sample_sign_def by simp

lemma sample_crypto_lawful: "crypto_lawful sample_crypto"
  by (simp add: crypto_lawful_def sample_crypto_def sample_parse_sign)

definition sample_auth_env :: auth_env where
  "sample_auth_env = \<lparr>au_fault_select = Delivered, au_fault_insert = Delivered, au_now = 5000,
     au_uuid = uuid_c, au_salt = 0\<rparr>"

definition sample_register :: "string \<Rightarrow> RegisterRequest" where
  "sample_register tid = \<lparr>rr_Username = ''ada'', rr_Password = ''pw'', rr_TenantID = tid, rr_Role = []\<rparr>"

definition tenant_db :: db where
  "tenant_db = db_empty\<lparr>tenants := [sample_tenant 3 1000]\<rparr>"

definition sample_user :: "string option \<Rightarrow> time \<Rightarrow> user_row" where
  "sample_user t up = \<lparr>u_id = uuid_c, u_username = ''ada'', u_password_hash = ''pw'', u_tenant_id = t,
     u_role = ''user'', u_created_at = 5000, u_updated_at = up\<rparr>"

lemma sample_auth_healthy: "auth_healthy sample_auth_env"
  by (simp add: auth_healthy_def sample_auth_env_def)

lemma tenant_db_ok: "db_ok sample_pg tenant_db"
  by (simp add: db_ok_def tenants_ok_def messages_ok_def users_ok_def tenant_db_def db_empty_def sample_tenant_def)

lemma sample_registered:
  "Register sample_crypto sample_pg sample_auth_env (sample_register uuid_a) tenant_db =
     (tenant_db\<lparr>users := [sample_user (Some uuid_a) 5000]\<rparr>, scan_user (sample_user (Some uuid_a) 5000))"
proof -
  have pg: "varchar_in sample_pg = (\<lambda>n s. length s \<le> n)" "timestamptz_in sample_pg = (\<lambda>t. t div 1000 * 1000)"
    by (simp_all add: sample_pg_def)
  show ?thesis
    by (simp add: Register_def GetByUsername_healthy sample_auth_healthy UserRepository_Create_def
        sample_auth_env_def [THEN arg_cong [where f = au_fault_insert]]
        sample_auth_env_def [THEN arg_cong [where f = au_uuid]] sample_auth_env_def [THEN arg_cong [where f = au_now]]
        sql_insert_user_def sample_crypto_def sample_register_def tenant_db_def db_empty_def find_by_def
        sample_tenant_def pg sample_user_def Let_def del: find_by_None)
qed

section \<open>Properties\<close>

text \<open>
  C15: from registration to an authorised request. A user who registered can log in with the same
  password, and the token of that login is accepted by the middleware, written after
  \<^verbatim>\<open>Bearer\<close>, until the whole second at which it expires, and refused from then on. The claims
  carry the user's own tenant, which exists and is the one named at registration, and role.
\<close>

theorem register_login_authorised:
  assumes "crypto_lawful cr" "\<forall>c. \<not> isl (jwt_SignedString cr (as_jwtSecret s) c)" "db_ok pg d"
    and "Register cr pg env req d = (d', Inr user)" "auth_healthy env'"
  shows "\<exists>resp claims. Login cr tm env' s now now' (rr_Username req) (rr_Password req) d' = (d', Inr resp) \<and>
    lr_User resp = ToResponse tm user \<and>
    jc_TenantID claims = us_TenantID user \<and> jc_Role claims = us_Role user \<and> jc_UserID claims = us_ID user \<and>
    uuid_in pg (rr_TenantID req) = Some (jc_TenantID claims) \<and> jc_TenantID claims \<in> t_id ` set (tenants d') \<and>
    (\<forall>t. NewJWTMiddleware cr (as_jwtSecret s) t (''Bearer '' @ lr_Token resp) =
       (if t < whole_second (now + as_jwtExpiry s) then Inr claims else Inl ''invalid token''))"
proof -
  from Register_Inr [OF assms(4,3)] obtain hash row where r:
    "bcrypt_Generate cr (au_salt env) (rr_Password req) = Inr hash" "scan_user row = Inr user"
    "d' = d\<lparr>users := users d @ [row]\<rparr>" "u_username row = rr_Username req"
    "u_username row \<notin> u_username ` set (users d)" "u_password_hash row = hash"
    "u_tenant_id row = uuid_in pg (rr_TenantID req)" "us_TenantID user \<in> t_id ` set (tenants d)" by auto
  have "find_by u_username (rr_Username req) (users d') = Some row"
    using r(3,4,5) find_by_append_fresh [of "rr_Username req" u_username "users d" row] by simp
  then have g: "GetByUsername env' (rr_Username req) d' = (d', Inr user)"
    by (simp add: GetByUsername_healthy [OF assms(5)] r(2))
  have t: "us_PasswordHash user = hash" "u_tenant_id row = Some (us_TenantID user)"
    using r(2,6) by (auto simp: scan_user_def split: option.splits)
  have v: "VerifyPassword cr user (rr_Password req)"
    using assms(1) r(1) by (simp add: VerifyPassword_def t(1) crypto_lawful_def)
  let ?c = "\<lparr>jc_UserID = us_ID user, jc_Username = us_Username user, jc_TenantID = us_TenantID user,
    jc_Role = us_Role user, jc_ExpiresAt = whole_second (now + as_jwtExpiry s), jc_IssuedAt = whole_second now'\<rparr>"
  obtain tok where tok: "jwt_SignedString cr (as_jwtSecret s) ?c = Inr tok"
    using assms(2) by (cases "jwt_SignedString cr (as_jwtSecret s) ?c") (simp_all, metis sum.disc(1))
  have "NewJWTMiddleware cr (as_jwtSecret s) t (''Bearer '' @ tok) =
      (if t < whole_second (now + as_jwtExpiry s) then Inr ?c else Inl ''invalid token'')" for t
  proof -
    have "if t < jc_ExpiresAt ?c then jwt_ParseWithClaims cr (as_jwtSecret s) t tok = Inr (?c, True)
        else isl (jwt_ParseWithClaims cr (as_jwtSecret s) t tok)"
      using assms(1) tok unfolding crypto_lawful_def by blast
    then show ?thesis unfolding middleware_bearer by (auto simp: isl_def split: if_splits)
  qed
  with g v tok r(3,7,8) t(2) show ?thesis
    by (intro exI [of _ "\<lparr>lr_Token = tok, lr_Type = ''Bearer'', lr_User = ToResponse tm user\<rparr>"] exI [of _ ?c])
      (simp add: Login_def)
qed

theorem register_login_authorised_witness:
  "\<exists>d' resp claims. Login sample_crypto sample_time sample_auth_env \<lparr>as_jwtSecret = ''k'', as_jwtExpiry = 10 ^ 10\<rparr> 0 0
       ''ada'' ''pw'' d' = (d', Inr resp) \<and> jc_TenantID claims = uuid_a \<and>
     NewJWTMiddleware sample_crypto ''k'' 5 (''Bearer '' @ lr_Token resp) = Inr claims"
proof -
  obtain user where u: "scan_user (sample_user (Some uuid_a) 5000) = Inr user" by (simp add: scan_user_def sample_user_def)
  have sign: "\<forall>c. \<not> isl (jwt_SignedString sample_crypto (as_jwtSecret \<lparr>as_jwtSecret = ''k'', as_jwtExpiry = 10 ^ 10\<rparr>) c)"
    by (simp add: sample_crypto_def)
  from register_login_authorised [OF sample_crypto_lawful sign tenant_db_ok
      sample_registered [unfolded u] sample_auth_healthy, of sample_time 0 0]
  show ?thesis by (fastforce simp: sample_register_def whole_second_def)
qed

text \<open>
  What registration refuses. Without a user name or a password, with a name that is taken by
  a user of some tenant, or with a tenant that is not the identifier of an existing one (an empty
  tenant is not), there is no new user and the database is as before.
\<close>

lemma Register_refuses:
  assumes "auth_healthy env" "db_ok pg d"
    and "rr_Username req = [] \<or> rr_Password req = [] \<or> rr_Username req \<in> u_username ` set (users d) \<or>
      (\<forall>t. uuid_in pg (rr_TenantID req) = Some t \<longrightarrow> t \<notin> t_id ` set (tenants d))"
  shows "\<exists>e. Register cr pg env req d = (d, Inl e) \<and>
    ((\<exists>row. find_by u_username (rr_Username req) (users d) = Some row \<and> u_tenant_id row \<noteq> None) \<and>
       rr_Username req \<noteq> [] \<and> rr_Password req \<noteq> [] \<longrightarrow> e = ErrUserAlreadyExists)"
proof (cases "rr_Username req = [] \<or> rr_Password req = []")
  case True
  then show ?thesis by (auto simp: Register_def)
next
  case False
  show ?thesis
  proof (cases "find_by u_username (rr_Username req) (users d)")
    case None
    then have "rr_Username req \<notin> u_username ` set (users d)" by simp
    with False assms(3) have t: "\<forall>t. uuid_in pg (rr_TenantID req) = Some t \<longrightarrow> t \<notin> t_id ` set (tenants d)" by blast
    have "\<exists>e. sql_insert_user pg now uid un hash (rr_TenantID req) role d = (d, Inl e)" for now uid un hash role
      using t by (auto simp: sql_insert_user_def split: option.split)
    then have "\<exists>e. UserRepository_Create cr pg env (rr_Username req) (rr_Password req) (rr_TenantID req) role d = (d, Inl e)"
      for role using assms(1) by (intro Create_refused) (simp_all add: auth_healthy_def)
    with None False show ?thesis
      by (simp add: Register_def GetByUsername_healthy [OF assms(1)] Let_def del: find_by_None)
  next
    case (Some row)
    then have u: "rr_Username req \<in> u_username ` set (users d)" by (rule find_by_image)
    have "\<exists>e. sql_insert_user pg now uid (rr_Username req) hash tid role d = (d, Inl e)" for now uid hash tid role
      using u by (auto simp: sql_insert_user_def split: option.split)
    then have "\<exists>e. UserRepository_Create cr pg env (rr_Username req) (rr_Password req) (rr_TenantID req) role d = (d, Inl e)"
      for role using assms(1) by (intro Create_refused) (simp_all add: auth_healthy_def)
    with Some False show ?thesis
      by (auto simp: Register_def GetByUsername_healthy [OF assms(1)] Let_def scan_user_def split: option.split)
  qed
qed

text \<open>
  Credentials. A login with an unknown name and a login with a wrong password are answered
  with the same error; nobody gets a token without a password that matches the stored hash.
\<close>

lemma Login_credentials:
  assumes "auth_healthy env"
  shows "(username \<notin> u_username ` set (users d) \<longrightarrow>
      Login cr tm env s now now' username password d = (d, Inl ErrInvalidCredentials)) \<and>
    (\<forall>row. find_by u_username username (users d) = Some row \<longrightarrow> u_tenant_id row \<noteq> None \<longrightarrow>
       isl (bcrypt_Compare cr (u_password_hash row) password) \<longrightarrow>
       Login cr tm env s now now' username password d = (d, Inl ErrInvalidCredentials)) \<and>
    (\<forall>resp. Login cr tm env s now now' username password d = (d, Inr resp) \<longrightarrow>
       (\<exists>row \<in> set (users d). u_username row = username \<and> ur_ID (lr_User resp) = u_id row \<and>
          bcrypt_Compare cr (u_password_hash row) password = Inr ()))"
proof (cases "find_by u_username username (users d)")
  case None
  then have "username \<notin> u_username ` set (users d)" by simp
  moreover have "Login cr tm env s now now' username password d = (d, Inl ErrInvalidCredentials)"
    using None by (simp add: Login_def GetByUsername_healthy [OF assms] del: find_by_None)
  ultimately show ?thesis using None by simp
next
  case (Some row)
  note r = find_by_SomeD [OF Some] and im = find_by_image [OF Some]
  show ?thesis
  proof (cases "u_tenant_id row")
    case None
    with Some im show ?thesis by (simp add: Login_def GetByUsername_healthy [OF assms] scan_user_def)
  next
    case (Some t)
    have "bcrypt_Compare cr (u_password_hash row) password = Inr ()"
      if "\<not> isl (bcrypt_Compare cr (u_password_hash row) password)"
      using that by (cases "bcrypt_Compare cr (u_password_hash row) password") simp_all
    with Some \<open>find_by u_username username (users d) = Some row\<close> im r show ?thesis
      by (auto simp: Login_def GetByUsername_healthy [OF assms] scan_user_def VerifyPassword_def ToResponse_def
          intro!: bexI [of _ row] split: sum.splits if_splits)
  qed
qed

text \<open>
  C40: deleting a tenant locks its users out. After the tenant of a user was deleted, a login with
  the right password fails with the error of scanning NULL into a string, which is not the error
  for wrong credentials, so the caller sees an internal error.
\<close>

theorem Login_after_tenant_deleted:
  assumes "db_ok pg d" "DeleteTenant pg env tid d = (d', Inr ())" "auth_healthy env'"
    and "row \<in> set (users d)" "u_tenant_id row = uuid_in pg tid"
  shows "Login cr tm env' s now now' (u_username row) password d' = (d', Inl err_null_scan) \<and>
    \<not> errors_Is err_null_scan ErrInvalidCredentials"
proof -
  from assms(2) obtain u where u: "uuid_in pg tid = Some u"
    "users d' = map (\<lambda>r. if u_tenant_id r = Some u then r\<lparr>u_tenant_id := None, u_updated_at := se_now env\<rparr> else r) (users d)"
    by (auto simp: DeleteTenant_Inr sql_delete_tenant_def split: option.splits)
  let ?f = "\<lambda>r. if u_tenant_id r = Some u then r\<lparr>u_tenant_id := None, u_updated_at := se_now env\<rparr> else r"
  have "distinct (map u_username (users d'))"
    using assms(1) unfolding u(2) by (simp add: db_ok_def users_ok_def comp_def if_distrib cong: if_cong)
  moreover have "?f row \<in> set (users d')" using assms(4) unfolding u(2) set_map by (rule imageI)
  ultimately have "find_by u_username (u_username (?f row)) (users d') = Some (?f row)"
    by (rule find_by_unique)
  then have "find_by u_username (u_username row) (users d') = Some (row\<lparr>u_tenant_id := None, u_updated_at := se_now env\<rparr>)"
    using assms(5) u(1) by simp
  then have "Login cr tm env' s now now' (u_username row) password d' = (d', Inl err_null_scan)"
    by (simp add: Login_def GetByUsername_healthy [OF assms(3)] scan_user_def)
  then show ?thesis by (simp add: err_null_scan_def ErrInvalidCredentials_def)
qed

theorem Login_after_tenant_deleted_witness:
  "\<exists>d'. DeleteTenant sample_pg (sample_env [] 5) uuid_a (tenant_db\<lparr>users := [sample_user (Some uuid_a) 5000]\<rparr>) = (d', Inr ()) \<and>
     Login sample_crypto sample_time sample_auth_env \<lparr>as_jwtSecret = ''k'', as_jwtExpiry = 1\<rparr> 0 0 ''ada'' ''pw'' d' =
       (d', Inl err_null_scan)"
proof -
  let ?d = "tenant_db\<lparr>users := [sample_user (Some uuid_a) 5000]\<rparr>"
  have ok: "db_ok sample_pg ?d"
    by (simp add: db_ok_def tenants_ok_def messages_ok_def users_ok_def tenant_db_def db_empty_def sample_tenant_def
        sample_user_def)
  have "\<exists>d'. DeleteTenant sample_pg (sample_env [] 5) uuid_a ?d = (d', Inr ())"
    by (simp add: DeleteTenant_def sample_env_def sql_delete_tenant_def tenant_db_def sample_tenant_def)
  then obtain d' where d': "DeleteTenant sample_pg (sample_env [] 5) uuid_a ?d = (d', Inr ())" ..
  from Login_after_tenant_deleted [OF ok d' sample_auth_healthy, of "sample_user (Some uuid_a) 5000"] d'
  show ?thesis by (auto simp: sample_user_def)
qed

text \<open>
  Which requests the middleware lets through: exactly those whose header is a scheme that
  reads \<^verbatim>\<open>bearer\<close> in any case, one space, and a token that the library finds valid under the
  server's secret; the handler then sees that token's claims.
\<close>

lemma middleware_accepts_iff:
  "NewJWTMiddleware cr secret now header = Inr claims \<longleftrightarrow>
     (\<exists>scheme tok. header = scheme @ CHR '' '' # tok \<and> CHR '' '' \<notin> set scheme \<and> ToLower scheme = ''bearer'' \<and>
        jwt_ParseWithClaims cr secret now tok = Inr (claims, True))"
proof
  assume a: "NewJWTMiddleware cr secret now header = Inr claims"
  then have "length (SplitN2 header) = 2" by (auto simp: NewJWTMiddleware_def Let_def split: if_splits)
  then obtain p q where "SplitN2 header = [p, q]" by (auto simp: SplitN2_length)
  with a SplitN2_two [of header p q] show "\<exists>scheme tok. header = scheme @ CHR '' '' # tok \<and> CHR '' '' \<notin> set scheme \<and>
      ToLower scheme = ''bearer'' \<and> jwt_ParseWithClaims cr secret now tok = Inr (claims, True)"
    by (intro exI [of _ p] exI [of _ q])
      (auto simp: NewJWTMiddleware_def Let_def split: if_splits sum.splits prod.splits)
next
  assume "\<exists>scheme tok. header = scheme @ CHR '' '' # tok \<and> CHR '' '' \<notin> set scheme \<and>
      ToLower scheme = ''bearer'' \<and> jwt_ParseWithClaims cr secret now tok = Inr (claims, True)"
  then obtain p q where h: "header = p @ CHR '' '' # q" "CHR '' '' \<notin> set p" "ToLower p = ''bearer''"
    "jwt_ParseWithClaims cr secret now q = Inr (claims, True)" by auto
  then show "NewJWTMiddleware cr secret now header = Inr claims"
    using SplitN2_append [OF h(2), of q] by (simp add: NewJWTMiddleware_def)
qed

end
