(* ===== verification/Http.thy ===== *)
theory Http
  imports Tenant_Manager Message_Service Auth
begin

text \<open>
  The HTTP layer: \<^verbatim>\<open>internal/routes\<close>, \<^verbatim>\<open>internal/handler\<close> and the group that the JWT middleware
  protects. A handler is a function of the request's parts (the body as \<^verbatim>\<open>BodyParser\<close> decodes it,
  path and query parameters) and of the state it reaches; it answers with a status and a JSON
  body. \<^verbatim>\<open>uuid.Parse\<close> is the parameter \<open>uuid_Parse\<close>.
\<close>

section \<open>Responses\<close>

record http =
  status :: nat
  body :: json

definition err_body :: "string \<Rightarrow> json" where
  "err_body msg = JObject [(''error'', JString msg)]"

definition http_err :: "nat \<Rightarrow> string \<Rightarrow> http" where
  "http_err code msg = \<lparr>status = code, body = err_body msg\<rparr>"

definition json_int :: "int \<Rightarrow> json" where
  "json_int n = JNumber (show_int n)"

text \<open>A nil slice is encoded as \<^verbatim>\<open>null\<close>.\<close>

definition json_slice :: "('a \<Rightarrow> json) \<Rightarrow> 'a list \<Rightarrow> json" where
  "json_slice f xs = (if xs = [] then JNull else JArray (map f xs))"

definition tenant_json :: "TenantResponse \<Rightarrow> json" where
  "tenant_json t =
     JObject [(''id'', JString (tr_ID t)), (''name'', JString (tr_Name t)), (''workers'', json_int (tr_Workers t)),
              (''created_at'', JString (tr_CreatedAt t)), (''updated_at'', JString (tr_UpdatedAt t))]"

definition message_json :: "MessageResponse \<Rightarrow> json" where
  "message_json m =
     JObject [(''id'', JString (mr_ID m)), (''tenant_id'', JString (mr_TenantID m)), (''payload'', mr_Payload m),
              (''status'', JString (mr_Status m)), (''retry_count'', json_int (mr_RetryCount m)),
              (''created_at'', JString (mr_CreatedAt m)), (''updated_at'', JString (mr_UpdatedAt m))]"

definition page_json :: "CursorPaginationResponse \<Rightarrow> json" where
  "page_json p =
     JObject ([(''data'', json_slice message_json (cp_Data p))] @
              (if cp_NextCursor p = [] then [] else [(''next_cursor'', JString (cp_NextCursor p))]) @
              [(''has_more'', JBool (cp_HasMore p))])"

definition user_json :: "UserResponse \<Rightarrow> json" where
  "user_json u =
     JObject ([(''id'', JString (ur_ID u)), (''username'', JString (ur_Username u))] @
              (if ur_TenantID u = [] then [] else [(''tenant_id'', JString (ur_TenantID u))]) @
              [(''role'', JString (ur_Role u)), (''created_at'', JString (ur_CreatedAt u))])"

section \<open>Tenant handlers\<close>

definition handler_CreateTenant ::
  "pg_server \<Rightarrow> go_time \<Rightarrow> svc_env \<Rightarrow> CreateTenantRequest res \<Rightarrow> db \<Rightarrow> db \<times> http" where
  "handler_CreateTenant pg tm env req d =
     (case req of
        Inl _ \<Rightarrow> (d, http_err 400 ''invalid request body'')
      | Inr r \<Rightarrow>
          if ct_Name r = [] then (d, http_err 400 ''name is required'')
          else
            (case CreateTenant pg tm env r d of
               (d', Inl e) \<Rightarrow> (d', http_err 500 (Error e))
             | (d', Inr t) \<Rightarrow> (d', \<lparr>status = 201, body = tenant_json t\<rparr>)))"

definition handler_DeleteTenant ::
  "(string \<Rightarrow> bool) \<Rightarrow> pg_server \<Rightarrow> svc_env \<Rightarrow> string \<Rightarrow> db \<Rightarrow> db \<times> http" where
  "handler_DeleteTenant uuid_Parse pg env tid d =
     (if \<not> uuid_Parse tid then (d, http_err 400 ''invalid tenant id'')
      else
        (case DeleteTenant pg env tid d of
           (d', Inl e) \<Rightarrow>
             (d', if e = ErrNoRows then http_err 404 ''tenant not found'' else http_err 500 (Error e))
         | (d', Inr _) \<Rightarrow> (d', \<lparr>status = 204, body = JNull\<rparr>)))"

definition handler_GetTenant ::
  "(string \<Rightarrow> bool) \<Rightarrow> pg_server \<Rightarrow> go_time \<Rightarrow> svc_env \<Rightarrow> string \<Rightarrow> db \<Rightarrow> db \<times> http" where
  "handler_GetTenant uuid_Parse pg tm env tid d =
     (if \<not> uuid_Parse tid then (d, http_err 400 ''invalid tenant id'')
      else
        (case GetTenant pg tm env tid d of
           (d', Inl e) \<Rightarrow>
             (d', if e = ErrNoRows then http_err 404 ''tenant not found'' else http_err 500 (Error e))
         | (d', Inr t) \<Rightarrow> (d', \<lparr>status = 200, body = tenant_json t\<rparr>)))"

definition handler_UpdateConcurrency ::
  "(string \<Rightarrow> bool) \<Rightarrow> pg_server \<Rightarrow> go_time \<Rightarrow> svc_env \<Rightarrow> string \<Rightarrow> int res \<Rightarrow> db \<Rightarrow> db \<times> http" where
  "handler_UpdateConcurrency uuid_Parse pg tm env tid req d =
     (if \<not> uuid_Parse tid then (d, http_err 400 ''invalid tenant id'')
      else
        (case req of
           Inl _ \<Rightarrow> (d, http_err 400 ''invalid request body'')
         | Inr workers \<Rightarrow>
             if workers \<le> 0 \<or> 50 < workers then (d, http_err 400 ''workers must be between 1 and 50'')
             else
               (case TenantService_UpdateConcurrency pg tm env tid workers d of
                  (d', Inl e) \<Rightarrow>
                    (d', if e = ErrNoRows then http_err 404 ''tenant not found'' else http_err 500 (Error e))
                | (d', Inr t) \<Rightarrow> (d', \<lparr>status = 200, body = tenant_json t\<rparr>))))"

definition handler_ListTenants ::
  "pg_server \<Rightarrow> go_time \<Rightarrow> svc_env \<Rightarrow> int \<Rightarrow> int \<Rightarrow> db \<Rightarrow> db \<times> http" where
  "handler_ListTenants pg tm env limit offset d =
     (case ListTenants pg tm env limit offset d of
        (d', Inl e) \<Rightarrow> (d', http_err 500 (Error e))
      | (d', Inr ts) \<Rightarrow> (d', \<lparr>status = 200, body = json_slice tenant_json ts\<rparr>))"

section \<open>Message handlers\<close>

definition handler_CreateMessage ::
  "(string \<Rightarrow> bool) \<Rightarrow> pg_server \<Rightarrow> go_json \<Rightarrow> go_time \<Rightarrow> svc_env \<Rightarrow> CreateMessageRequest res \<Rightarrow> db \<Rightarrow> db \<times> http" where
  "handler_CreateMessage uuid_Parse pg js tm env req d =
     (case req of
        Inl _ \<Rightarrow> (d, http_err 400 ''invalid request body'')
      | Inr r \<Rightarrow>
          if \<not> uuid_Parse (cm_TenantID r) then (d, http_err 400 ''invalid tenant_id'')
          else if cm_Payload r = JNull then (d, http_err 400 ''payload is required'')
          else
            (case CreateMessage pg js tm env r d of
               (d', Inl e) \<Rightarrow> (d', http_err 500 (Error e))
             | (d', Inr m) \<Rightarrow> (d', \<lparr>status = 201, body = message_json m\<rparr>)))"

definition handler_ListMessages ::
  "pg_server \<Rightarrow> go_json \<Rightarrow> go_time \<Rightarrow> svc_env \<Rightarrow> string \<Rightarrow> int \<Rightarrow> string \<Rightarrow> db \<Rightarrow> db \<times> http" where
  "handler_ListMessages pg js tm env cursor limit0 tenantID d =
     (let limit1 = (if 100 < limit0 then 100 else limit0);
          limit = (if limit1 < 1 then 1 else limit1)
      in case ListMessages pg js tm env tenantID cursor limit d of
           (d', Inl e) \<Rightarrow> (d', http_err 500 (Error e))
         | (d', Inr p) \<Rightarrow> (d', \<lparr>status = 200, body = page_json p\<rparr>))"

definition handler_GetMessage ::
  "(string \<Rightarrow> bool) \<Rightarrow> pg_server \<Rightarrow> go_json \<Rightarrow> go_time \<Rightarrow> svc_env \<Rightarrow> string \<Rightarrow> string \<Rightarrow> db \<Rightarrow> db \<times> http" where
  "handler_GetMessage uuid_Parse pg js tm env mid tenantID d =
     (if \<not> uuid_Parse mid then (d, http_err 400 ''invalid message id'')
      else if tenantID = [] then (d, http_err 400 ''tenant_id is required'')
      else if \<not> uuid_Parse tenantID then (d, http_err 400 ''invalid tenant_id'')
      else
        (case GetMessage pg js tm env mid tenantID d of
           (d', Inl e) \<Rightarrow>
             (d', if e = ErrNoRows then http_err 404 ''message not found'' else http_err 500 (Error e))
         | (d', Inr m) \<Rightarrow> (d', \<lparr>status = 200, body = message_json m\<rparr>)))"

section \<open>Account handlers\<close>

definition auth_err :: "nat \<Rightarrow> string \<Rightarrow> string \<Rightarrow> http" where
  "auth_err code kind msg =
     \<lparr>status = code, body = JObject [(''error'', JString kind), (''message'', JString msg)]\<rparr>"

definition handler_Register ::
  "go_crypto \<Rightarrow> pg_server \<Rightarrow> go_time \<Rightarrow> auth_env \<Rightarrow> RegisterRequest res \<Rightarrow> db \<Rightarrow> db \<times> http" where
  "handler_Register cr pg tm env req d =
     (case req of
        Inl _ \<Rightarrow> (d, auth_err 400 ''INVALID_REQUEST'' ''invalid request body'')
      | Inr r \<Rightarrow>
          (case Register cr pg env r d of
             (d', Inl e) \<Rightarrow>
               (d', if errors_Is e ErrUserAlreadyExists then auth_err 409 ''USER_EXISTS'' ''user already exists''
                    else auth_err 500 ''INTERNAL_ERROR'' (Error e))
           | (d', Inr u) \<Rightarrow>
               (d', \<lparr>status = 201, body = JObject [(''message'', JString ''user registered successfully''),
                                                   (''user'', user_json (ToResponse tm u))]\<rparr>)))"

definition handler_Login ::
  "go_crypto \<Rightarrow> go_time \<Rightarrow> auth_env \<Rightarrow> AuthService \<Rightarrow> time \<Rightarrow> time \<Rightarrow> (string \<times> string) res \<Rightarrow> db \<Rightarrow> db \<times> http" where
  "handler_Login cr tm env s now now' req d =
     (case req of
        Inl _ \<Rightarrow> (d, auth_err 400 ''INVALID_REQUEST'' ''invalid request body'')
      | Inr (username, password) \<Rightarrow>
          (case Login cr tm env s now now' username password d of
             (d', Inl e) \<Rightarrow>
               (d', if errors_Is e ErrInvalidCredentials
                    then auth_err 401 ''INVALID_CREDENTIALS'' ''invalid username or password''
                    else auth_err 500 ''INTERNAL_ERROR'' (Error e))
           | (d', Inr r) \<Rightarrow>
               (d', \<lparr>status = 200, body = JObject [(''token'', JString (lr_Token r)), (''type'', JString (lr_Type r)),
                                                   (''user'', user_json (lr_User r))]\<rparr>)))"

section \<open>Routes that reach the manager\<close>

type_synonym 'w app = "('w \<times> Manager) \<times> db"

definition createTenant ::
  "'w amqp \<Rightarrow> pg_server \<Rightarrow> go_time \<Rightarrow> svc_env \<Rightarrow> CreateTenantRequest res \<Rightarrow> 'w app \<Rightarrow> ('w app \<times> http) outcome" where
  "createTenant am pg tm env req s =
     (let (m, d) = s in
      case req of
        Inl _ \<Rightarrow> Returns (s, http_err 400 ''invalid request body'')
      | Inr r \<Rightarrow>
          (case CreateTenant pg tm env r d of
             (d', Inl e) \<Rightarrow> Returns ((m, d'), http_err 500 (Error e))
           | (d', Inr t) \<Rightarrow>
               bind_outcome (SpawnConsumer am (tr_ID t) (tr_Workers t) m) (\<lambda>(m', rs).
                 Returns ((m', d'),
                   case rs of
                     Inl e \<Rightarrow> http_err 500 (''failed to spawn consumer: '' @ Error e)
                   | Inr _ \<Rightarrow> \<lparr>status = 201, body = tenant_json t\<rparr>))))"

definition deleteTenant ::
  "'w amqp \<Rightarrow> pg_server \<Rightarrow> svc_env \<Rightarrow> string \<Rightarrow> 'w app \<Rightarrow> ('w app \<times> http) outcome" where
  "deleteTenant am pg env tid s =
     (let (m, d) = s in
      case DeleteTenant pg env tid d of
        (d', Inl e) \<Rightarrow> Returns ((m, d'), http_err 404 ''tenant not found'')
      | (d', Inr _) \<Rightarrow>
          bind_outcome (StopConsumer am tid m) (\<lambda>(m', rs).
            Returns ((m', d'),
              case rs of
                Inl e \<Rightarrow> http_err 500 (''failed to stop consumer: '' @ Error e)
              | Inr _ \<Rightarrow> \<lparr>status = 204, body = JNull\<rparr>)))"

definition updateConcurrency ::
  "pg_server \<Rightarrow> go_time \<Rightarrow> svc_env \<Rightarrow> string \<Rightarrow> int res \<Rightarrow> 'w app \<Rightarrow> ('w app \<times> http) outcome" where
  "updateConcurrency pg tm env tid req s =
     (let (m, d) = s in
      case req of
        Inl _ \<Rightarrow> Returns (s, http_err 400 ''invalid request body'')
      | Inr workers \<Rightarrow>
          (case TenantService_UpdateConcurrency pg tm env tid workers d of
             (d', Inl e) \<Rightarrow> Returns ((m, d'), http_err 404 (Error e))
           | (d', Inr t) \<Rightarrow>
               bind_outcome (UpdateConcurrency tid workers m) (\<lambda>(m', rs).
                 Returns ((m', d'),
                   case rs of
                     Inl e \<Rightarrow> http_err 500 (''failed to update concurrency: '' @ Error e)
                   | Inr _ \<Rightarrow> \<lparr>status = 200, body = tenant_json t\<rparr>))))"

text \<open>The protected group: the middleware, then the handler with the claims.\<close>

definition protected ::
  "go_crypto \<Rightarrow> string \<Rightarrow> time \<Rightarrow> string \<Rightarrow> (JWTClaims \<Rightarrow> 's \<Rightarrow> ('s \<times> http) outcome) \<Rightarrow> 's \<Rightarrow> ('s \<times> http) outcome" where
  "protected cr secret now authHeader h s =
     (case NewJWTMiddleware cr secret now authHeader of
        Inl msg \<Rightarrow> Returns (s, http_err 401 msg)
      | Inr claims \<Rightarrow> h claims s)"

text \<open>What the statements of the service requests do to the database.\<close>

lemma CreateMessage_state:
  "fst (CreateMessage pg js tm env req d) =
     (case marshal_value js (cm_Payload req) of
        Inl e \<Rightarrow> d
      | Inr p \<Rightarrow> fst (with_fault (se_fault env)
          (sql_insert_message pg (se_now env) (se_uuid env) (cm_TenantID req) p) d))"
  by (simp add: CreateMessage_def split: sum.split prod.split)

lemma UserRepository_Create_state:
  "fst (UserRepository_Create cr pg env un pw t role d) =
     (case bcrypt_Generate cr (au_salt env) pw of
        Inl e \<Rightarrow> d
      | Inr h \<Rightarrow> fst (with_fault (au_fault_insert env) (sql_insert_user pg (au_now env) (au_uuid env) un h t role) d))"
  by (simp add: UserRepository_Create_def split: sum.split prod.split)

lemma requests_ok:
  assumes "uuid_lawful pg" "db_ok pg d"
  shows "db_ok pg (fst (CreateMessage pg js tm env req d))"
    and "db_ok pg (fst (UserRepository_Create cr pg aenv un pw t role d))"
  unfolding CreateMessage_state UserRepository_Create_state
  by (auto intro!: with_fault_keeps [where P = "db_ok pg"] sql_ok assms split: sum.split)

section \<open>Properties\<close>

definition app_ok :: "pg_server \<Rightarrow> 'w app \<Rightarrow> bool" where
  "app_ok pg s \<longleftrightarrow> uuid_lawful pg \<and> db_ok pg (snd s) \<and> world_ok (fst s)"

text \<open>The registry and the tenants table name the same tenants.\<close>

definition in_step :: "'w app \<Rightarrow> bool" where
  "in_step s \<longleftrightarrow> registered (fst s) = t_id ` set (tenants (snd s))"

lemma in_step_view: "in_step s \<longleftrightarrow> registered (fst s) = dom (tenant_view tm (snd s))"
proof -
  have "dom (tenant_view tm (snd s)) = t_id ` set (tenants (snd s))"
    by (rule set_eqI) (rule dom_tenant_view)
  then show ?thesis by (simp add: in_step_def)
qed

lemma http_err_status [simp]: "status (http_err n m) = n"
  by (simp add: http_err_def)

lemma createTenant_cases:
  assumes "app_ok pg s"
  obtains (refused) e d' where "CreateTenant pg tm env r (snd s) = (d', Inl e)"
      "createTenant am pg tm env (Inr r) s = Returns ((fst s, d'), http_err 500 (Error e))"
  | (orphan) t d' m' e where "CreateTenant pg tm env r (snd s) = (d', Inr t)"
      "SpawnConsumer am (tr_ID t) (tr_Workers t) (fst s) = Returns (m', Inl e)"
      "createTenant am pg tm env (Inr r) s =
         Returns ((m', d'), http_err 500 (''failed to spawn consumer: '' @ Error e))"
  | (created) t d' m' where "CreateTenant pg tm env r (snd s) = (d', Inr t)"
      "SpawnConsumer am (tr_ID t) (tr_Workers t) (fst s) = Returns (m', Inr ())"
      "createTenant am pg tm env (Inr r) s = Returns ((m', d'), \<lparr>status = 201, body = tenant_json t\<rparr>)"
proof -
  obtain d' rt where c: "CreateTenant pg tm env r (snd s) = (d', rt)" by (cases "CreateTenant pg tm env r (snd s)")
  show thesis
  proof (cases rt)
    case (Inl e)
    with c show thesis by (intro refused [of d' e]) (simp_all add: createTenant_def split_beta)
  next
    case (Inr t)
    have "world_ok (fst s)" using assms by (simp add: app_ok_def)
    from manager.spawn_total [OF this, of am "tr_ID t" "tr_Workers t"] obtain m' rs where
      sp: "SpawnConsumer am (tr_ID t) (tr_Workers t) (fst s) = Returns (m', rs)" by auto
    show thesis
    proof (cases rs)
      case (Inl e)
      with c sp \<open>rt = Inr t\<close> show thesis
        by (intro orphan [of d' t m' e]) (simp_all add: createTenant_def split_beta)
    next
      case (Inr u)
      with c sp \<open>rt = Inr t\<close> show thesis
        by (intro created [of d' t m']) (simp_all add: createTenant_def split_beta)
    qed
  qed
qed

lemma mem_spawn:
  assumes "mgr_ok mg" "map_of (mg_consumers mg) t = None"
  shows "\<exists>m'. SpawnConsumer mem_amqp t n (w, mg) = Returns (m', Inr ())"
proof -
  have l: "limits_ok mg" using assms(1) by (simp add: mgr_ok_def)
  have "1 \<le> clamp_spawn mg n" "clamp_spawn mg n < 2 ^ 31"
    using clamp_spawn_range [OF l, of n] l by (auto simp: limits_ok_def)
  then obtain wp where wp: "NewWorkerPool t (clamp_spawn mg n) (mg_maxRetry mg) = Returns wp"
    by (rule NewWorkerPool_in_limits)
  obtain w1 ch where c: "am_Channel mem_amqp (mg_rmConn mg) w = (w1, Inr ch)" by (simp add: mem_amqp_def)
  obtain w2 where "declareTenantQueues mem_amqp mg ch t w1 = (w2, Inr (main_queue_name t, dlq_name t))"
    using mem_declare [of ch t _ w1] unfolding declareTenantQueues_eq by blast
  with c wp assms(2) show ?thesis by (simp add: SpawnConsumer_def make_chan_def)
qed

lemma created_state:
  assumes "app_ok pg s" "CreateTenant pg tm env r (snd s) = (d', Inr t)"
    "SpawnConsumer am (tr_ID t) (tr_Workers t) (fst s) = Returns (m', Inr ())"
  shows "app_ok pg (m', d') \<and> tr_ID t \<notin> dom (tenant_view tm (snd s)) \<and>
    tenant_view tm d' = (tenant_view tm (snd s))(tr_ID t \<mapsto> t) \<and>
    tr_ID t \<notin> registered (fst s) \<and> registered m' = insert (tr_ID t) (registered (fst s))"
proof -
  have ok: "uuid_lawful pg \<and> db_ok pg (snd s)" "world_ok (fst s)" using assms(1) by (simp_all add: app_ok_def)
  show ?thesis
    using tenants.create_ok [OF ok(1) assms(2)] tenants.create_Inr [OF ok(1) assms(2)]
      manager.spawn_ok [OF ok(2) assms(3)] manager.spawn_reg [OF ok(2) assms(3)]
      manager.spawn_fresh [OF ok(2) assms(3)]
    by (simp add: app_ok_def)
qed

lemma failed_state:
  assumes "app_ok pg s" "CreateTenant pg tm env r (snd s) = (d', rt)"
  shows "app_ok pg (fst s, d')"
    and "SpawnConsumer am t n (fst s) = Returns (m', Inl e) \<Longrightarrow> app_ok pg (m', d') \<and> registered m' = registered (fst s)"
proof -
  have ok: "uuid_lawful pg \<and> db_ok pg (snd s)" "world_ok (fst s)" using assms(1) by (simp_all add: app_ok_def)
  note ok' = tenants.create_ok [OF ok(1) assms(2)]
  from ok ok' show "app_ok pg (fst s, d')" by (simp add: app_ok_def)
  assume sp: "SpawnConsumer am t n (fst s) = Returns (m', Inl e)"
  from manager.spawn_ok [OF ok(2) sp] manager.spawn_reg [OF ok(2) sp] ok'
  show "app_ok pg (m', d') \<and> registered m' = registered (fst s)" by (simp add: app_ok_def)
qed

text \<open>
  C16: creating a tenant through the API. The request is answered, with the invariants of the
  registry and of the database kept. Status 201 means that the tenant is stored, that its consumer
  is registered, and that both are new; any other status leaves the registry as it was. If the
  registry and the table named the same tenants before, they do after a 201.
\<close>

theorem createTenant_outcome:
  assumes "app_ok pg s"
  shows "\<exists>s' h. createTenant am pg tm env (Inr r) s = Returns (s', h) \<and> app_ok pg s' \<and>
    (if status h = 201
     then (\<exists>t. body h = tenant_json t \<and> tr_ID t \<notin> dom (tenant_view tm (snd s)) \<and>
            tenant_view tm (snd s') = (tenant_view tm (snd s))(tr_ID t \<mapsto> t) \<and>
            tr_ID t \<notin> registered (fst s) \<and> registered (fst s') = insert (tr_ID t) (registered (fst s))) \<and>
          (in_step s \<longrightarrow> in_step s')
     else status h = 500 \<and> registered (fst s') = registered (fst s))"
  using assms
proof (cases rule: createTenant_cases [where am = am and tm = tm and env = env and r = r])
  case (refused e d')
  with failed_state(1) [OF assms refused(1)] show ?thesis by simp
next
  case (orphan t d' m' e)
  with failed_state(2) [OF assms orphan(1,2)] show ?thesis by simp
next
  case (created t d' m')
  note c = created_state [OF assms created(1,2)]
  then have "in_step s \<longrightarrow> in_step (m', d')" by (simp add: in_step_view [of _ tm])
  with c created(3) show ?thesis
    by (intro exI [of _ "(m', d')"] exI [of _ "\<lparr>status = 201, body = tenant_json t\<rparr>"]) auto
qed

text \<open>
  A tenant that is created and then deleted through the API, with the identifier of the
  response and a database that answers. The deletion is answered with 204, and the tenants and the
  registered consumers are what they were before the creation.
\<close>

lemma createTenant_deleteTenant:
  assumes "app_ok pg s" "svc_healthy env'"
    and "createTenant am pg tm env (Inr r) s = Returns (s1, h1)" "status h1 = 201"
  shows "\<exists>t s2 h2. body h1 = tenant_json t \<and> deleteTenant am pg env' (tr_ID t) s1 = Returns (s2, h2) \<and>
    status h2 = 204 \<and> app_ok pg s2 \<and> registered (fst s2) = registered (fst s) \<and>
    tenant_view tm (snd s2) = tenant_view tm (snd s)"
  using assms(1)
proof (cases rule: createTenant_cases [where am = am and tm = tm and env = env and r = r])
  case (created t d' m')
  with assms(3) have s1: "s1 = (m', d')" "body h1 = tenant_json t" by auto
  have ok: "uuid_lawful pg \<and> db_ok pg (snd s)" "world_ok (fst s)" using assms(1) by (simp_all add: app_ok_def)
  from tenants.create_delete [OF ok(1) created(1) assms(2)] obtain d2 where
    d2: "DeleteTenant pg env' (tr_ID t) d' = (d2, Inr ())" "uuid_lawful pg \<and> db_ok pg d2"
    "tenant_view tm d2 = tenant_view tm (snd s)" by auto
  from manager.spawn_stop [OF ok(2) created(2)] obtain m2 where
    m2: "StopConsumer am (tr_ID t) m' = Returns (m2, Inr ())" "world_ok m2" "registered m2 = registered (fst s)" by auto
  from s1 d2 m2 show ?thesis
    by (intro exI [of _ t] exI [of _ "(m2, d2)"] exI [of _ "\<lparr>status = 204, body = JNull\<rparr>"])
      (simp add: deleteTenant_def app_ok_def)
qed (use assms in simp_all)

text \<open>
  C34: deleting a tenant whose identifier, as spelled in the path, has no consumer: the row is
  deleted and the answer is 500, with the registry unchanged. That is so for every tenant after a
  restart, for a tenant whose consumer could not be spawned, and for an upper case spelling of an
  identifier: there the consumer registered under the canonical spelling goes on without a tenant.
\<close>

theorem deleteTenant_without_consumer:
  assumes "app_ok pg s" "svc_healthy env" "uuid_in pg tid = Some u" "u \<in> t_id ` set (tenants (snd s))"
    and "tid \<notin> registered (fst s)"
  shows "\<exists>s' h. deleteTenant am pg env tid s = Returns (s', h) \<and> status h = 500 \<and>
    u \<notin> t_id ` set (tenants (snd s')) \<and> fst s' = fst s \<and>
    (in_step s \<longrightarrow> u \<in> registered (fst s') \<and> \<not> in_step s')"
proof -
  have ok: "uuid_lawful pg \<and> db_ok pg (snd s)" using assms(1) by (simp add: app_ok_def)
  obtain x where x: "tenant_view sample_time (snd s) u = Some x"
    using assms(4) dom_tenant_view [of u sample_time "snd s"] by (auto simp: domIff)
  from tenants.delete_hit [OF ok assms(2,3) x] obtain d' where
    d': "DeleteTenant pg env tid (snd s) = (d', Inr ())"
    "tenant_view sample_time d' = (tenant_view sample_time (snd s))(u := None)" by auto
  have gone: "u \<notin> t_id ` set (tenants d')" using d'(2) dom_tenant_view [of u sample_time d'] by (simp add: domIff)
  have st: "StopConsumer am tid (fst s) = Returns (fst s, Inl (err_not_found tid))"
    by (rule manager.stop_miss [OF assms(5)])
  have "deleteTenant am pg env tid s =
      Returns ((fst s, d'), http_err 500 (''failed to stop consumer: '' @ Error (err_not_found tid)))"
    using d'(1) st by (simp add: deleteTenant_def split_beta)
  moreover have "in_step s \<longrightarrow> u \<in> registered (fst s) \<and> \<not> in_step (fst s, d')"
    using assms(4) gone by (auto simp: in_step_def)
  ultimately show ?thesis using gone by auto
qed

lemma sample_app_created:
  "\<exists>m'. createTenant mem_amqp sample_pg tm (sample_env uuid_a 1000) (Inr (sample_request 90)) ((mem_empty, sample_manager), db_empty) =
     Returns ((m', tenant_db), \<lparr>status = 201, body = tenant_json (scan_tenant tm (sample_tenant 3 1000))\<rparr>) \<and>
   registered m' = {uuid_a} \<and> app_ok sample_pg (m', tenant_db)"
proof -
  let ?s = "((mem_empty, sample_manager), db_empty)" and ?t = "scan_tenant tm (sample_tenant 3 1000)"
  have ok: "app_ok sample_pg ?s"
    using sample_manager_ok(1) by (simp add: app_ok_def sample_uuid_lawful)
  have c: "CreateTenant sample_pg tm (sample_env uuid_a 1000) (sample_request 90) (snd ?s) = (tenant_db, Inr ?t)"
    using sample_create [of tm] by (simp add: tenant_db_def)
  from ok show ?thesis
  proof (cases rule: createTenant_cases [where am = mem_amqp and tm = tm and env = "sample_env uuid_a 1000" and r = "sample_request 90"])
    case (orphan t d' m' e)
    with c have "SpawnConsumer mem_amqp (tr_ID ?t) (tr_Workers ?t) (mem_empty, sample_manager) = Returns (m', Inl e)" by simp
    with mem_spawn [of sample_manager "tr_ID ?t" "tr_Workers ?t" mem_empty] sample_manager_ok show ?thesis by simp
  next
    case (created t d' m')
    with c have t: "t = ?t" "d' = tenant_db" by simp_all
    have "registered m' = {uuid_a}"
      using created_state [OF ok created(1,2)] sample_manager_ok(2)
      by (simp add: t registered_def ListConsumers_def scan_tenant_def sample_tenant_def)
    with created(3) created_state [OF ok created(1,2)] show ?thesis by (simp add: t)
  qed (use c in simp)
qed

theorem createTenant_outcome_witness:
  "\<exists>s' h. createTenant mem_amqp sample_pg sample_time (sample_env uuid_a 1000) (Inr (sample_request 90))
       ((mem_empty, sample_manager), db_empty) = Returns (s', h) \<and> app_ok sample_pg s'"
proof -
  have "app_ok sample_pg ((mem_empty, sample_manager), db_empty)"
    using sample_manager_ok(1) by (simp add: app_ok_def sample_uuid_lawful)
  from createTenant_outcome [OF this] show ?thesis by blast
qed

theorem deleteTenant_without_consumer_witness:
  "\<exists>m' s' h. registered m' = {uuid_a} \<and>
     deleteTenant mem_amqp sample_pg (sample_env [] 5) uuid_A_upper (m', tenant_db) = Returns (s', h) \<and>
     status h = 500 \<and> uuid_a \<in> registered (fst s') \<and> uuid_a \<notin> t_id ` set (tenants (snd s'))"
proof -
  from sample_app_created [of sample_time] obtain m' :: "mem_broker \<times> Manager" where
    m': "registered m' = {uuid_a}" "app_ok sample_pg (m', tenant_db)" by auto
  have "\<exists>s' h. deleteTenant mem_amqp sample_pg (sample_env [] 5) uuid_A_upper (m', tenant_db) = Returns (s', h) \<and>
      status h = 500 \<and> uuid_a \<notin> t_id ` set (tenants (snd s')) \<and> fst s' = fst (m', tenant_db) \<and>
      (in_step (m', tenant_db) \<longrightarrow> uuid_a \<in> registered (fst s') \<and> \<not> in_step s')"
    by (rule deleteTenant_without_consumer [OF m'(2) sample_env_healthy])
      (simp_all add: m'(1) tenant_db_def sample_tenant_def)
  then obtain s' h where s': "deleteTenant mem_amqp sample_pg (sample_env [] 5) uuid_A_upper (m', tenant_db) = Returns (s', h)"
    "status h = 500" "uuid_a \<notin> t_id ` set (tenants (snd s'))" "fst s' = m'"
    by (elim exE conjE) (rule that, simp_all)
  show ?thesis
    by (intro exI conjI) (rule m'(1), rule s'(1), rule s'(2), simp add: s'(4) m'(1), rule s'(3))
qed

end
