(* ===== verification/Routes.thy ===== *)
theory Routes
  imports Http
begin

text \<open>
  \<^verbatim>\<open>internal/routes\<close>, the \<^verbatim>\<open>RegisterRoutes\<close> methods of the handlers, and the fiber application of
  \<^verbatim>\<open>cmd/api/main.go\<close>: the table of routes in the order of registration, a request's way through it,
  and \<^verbatim>\<open>ErrorHandler\<close>. The fiber library is a parameter, the record \<open>fiber\<close>: whether a pattern, of a
  route or of a group's middleware, matches a path and with which parameters, what it answers when no route
  matches, and \<^verbatim>\<open>BodyParser\<close> for each of the request types.
\<close>

section \<open>Requests and the library\<close>

record Request =
  rq_Method :: string
  rq_Path :: string
  rq_Authorization :: string
  rq_Body :: string
  rq_Query :: "string \<Rightarrow> string" \<comment> \<open>empty where a parameter is not given\<close>

datatype handler_error = FiberError nat string | OtherError go_error

record fiber =
  fb_match :: "bool \<Rightarrow> string \<Rightarrow> string \<Rightarrow> (string \<Rightarrow> string) option" \<comment> \<open>the first argument: a prefix is enough\<close>
  fb_no_route :: "Request \<Rightarrow> handler_error"
  fb_CreateTenantRequest :: "string \<Rightarrow> CreateTenantRequest res"
  fb_UpdateConcurrencyRequest :: "string \<Rightarrow> int res"
  fb_CreateMessageRequest :: "string \<Rightarrow> CreateMessageRequest res"
  fb_RegisterRequest :: "string \<Rightarrow> RegisterRequest res"
  fb_LoginRequest :: "string \<Rightarrow> (string \<times> string) res"
  fb_QueryInt :: "string \<Rightarrow> int \<Rightarrow> int" \<comment> \<open>the text of a parameter and the default\<close>

text \<open>Joining the prefix of a group with a path, which begins with a slash or is empty.\<close>

definition group_path :: "string \<Rightarrow> string \<Rightarrow> string" where
  "group_path prefix path = prefix @ path"

section \<open>The tables\<close>

datatype route_handler =
    H_Register | H_Login | H_createTenant | H_ListTenants | H_GetTenant | H_deleteTenant
  | H_updateConcurrency | H_CreateMessage | H_ListMessages | H_GetMessage | H_health
  | H_handler_CreateTenant | H_handler_DeleteTenant | H_handler_UpdateConcurrency

text \<open>A route leads to the middleware, which may go on to the next route, or to a handler.\<close>

datatype route_target = Jwt | Handler route_handler

record route =
  rt_Use :: bool
  rt_Methods :: "string list"
  rt_Pattern :: string
  rt_Target :: route_target

definition Use :: "string \<Rightarrow> route" where
  "Use p = \<lparr>rt_Use = True, rt_Methods = [], rt_Pattern = p, rt_Target = Jwt\<rparr>"

text \<open>\<^verbatim>\<open>Get\<close> also registers HEAD.\<close>

definition Get :: "string \<Rightarrow> route_handler \<Rightarrow> route" where
  "Get p h = \<lparr>rt_Use = False, rt_Methods = [''GET'', ''HEAD''], rt_Pattern = p, rt_Target = Handler h\<rparr>"

definition Add :: "string \<Rightarrow> string \<Rightarrow> route_handler \<Rightarrow> route" where
  "Add m p h = \<lparr>rt_Use = False, rt_Methods = [m], rt_Pattern = p, rt_Target = Handler h\<rparr>"

definition AuthRoutes_Register :: "route list" where
  "AuthRoutes_Register =
     (let api = ''/api/v1''; auth = group_path api ''/auth'' in
      [Add ''POST'' (group_path auth ''/register'') H_Register,
       Add ''POST'' (group_path auth ''/login'') H_Login])"

definition TenantRoutes_Register :: "route list" where
  "TenantRoutes_Register =
     (let api = ''/api/v1''; protected_grp = group_path api []; tenants_grp = group_path protected_grp ''/tenants'' in
      [Use protected_grp,
       Add ''POST'' (group_path tenants_grp ''/'') H_createTenant,
       Get (group_path tenants_grp ''/'') H_ListTenants,
       Get (group_path tenants_grp ''/:id'') H_GetTenant,
       Add ''DELETE'' (group_path tenants_grp ''/:id'') H_deleteTenant,
       Add ''PUT'' (group_path tenants_grp ''/:id/config/concurrency'') H_updateConcurrency])"

definition MessageRoutes_Register :: "route list" where
  "MessageRoutes_Register =
     (let api = ''/api/v1''; protected_grp = group_path api []; messages_grp = group_path protected_grp ''/messages'' in
      [Use protected_grp,
       Add ''POST'' (group_path messages_grp ''/'') H_CreateMessage,
       Get (group_path messages_grp ''/'') H_ListMessages,
       Get (group_path messages_grp ''/:id'') H_GetMessage])"

definition Router_Register :: "route list" where
  "Router_Register =
     AuthRoutes_Register @ TenantRoutes_Register @ MessageRoutes_Register @ [Get ''/health'' H_health]"

text \<open>The methods of the handlers that register their own routes; nothing calls them.\<close>

definition TenantHandler_RegisterRoutes :: "route list" where
  "TenantHandler_RegisterRoutes =
     (let router = ''/tenants'' in
      [Use router,
       Add ''POST'' (group_path router ''/'') H_handler_CreateTenant,
       Get (group_path router ''/'') H_ListTenants,
       Get (group_path router ''/:id'') H_GetTenant,
       Add ''DELETE'' (group_path router ''/:id'') H_handler_DeleteTenant,
       Add ''PUT'' (group_path router ''/:id/config/concurrency'') H_handler_UpdateConcurrency])"

definition MessageHandler_RegisterRoutes :: "route list" where
  "MessageHandler_RegisterRoutes =
     (let router = ''/messages'' in
      [Use router,
       Add ''POST'' (group_path router ''/'') H_CreateMessage,
       Get (group_path router ''/'') H_ListMessages,
       Get (group_path router ''/:id'') H_GetMessage])"

section \<open>The handlers on the application's state\<close>

text \<open>What the program was started with, and what one request takes from its surroundings.\<close>

record 'w deps =
  dp_amqp :: "'w amqp"
  dp_js :: go_json
  dp_crypto :: go_crypto
  dp_pg :: pg_server
  dp_time :: go_time
  dp_uuid_Parse :: "string \<Rightarrow> bool"
  dp_fiber :: fiber
  dp_auth :: AuthService

record req_env =
  re_svc :: svc_env
  re_auth :: auth_env
  re_now :: time
  re_now' :: time

text \<open>A handler that only reaches the database.\<close>

definition on_db :: "(db \<Rightarrow> db \<times> http) \<Rightarrow> 'w app \<Rightarrow> ('w app \<times> http) outcome" where
  "on_db f s = (let (d', h) = f (snd s) in Returns ((fst s, d'), h))"

definition health :: http where
  "health = \<lparr>status = 200, body = JObject [(''status'', JString ''healthy'')]\<rparr>"

fun handle ::
  "'w deps \<Rightarrow> req_env \<Rightarrow> Request \<Rightarrow> (string \<Rightarrow> string) \<Rightarrow> route_handler \<Rightarrow> 'w app \<Rightarrow> ('w app \<times> http) outcome" where
  "handle dp env rq ps H_Register =
     on_db (handler_Register (dp_crypto dp) (dp_pg dp) (dp_time dp) (re_auth env) (fb_RegisterRequest (dp_fiber dp) (rq_Body rq)))"
| "handle dp env rq ps H_Login =
     on_db (handler_Login (dp_crypto dp) (dp_time dp) (re_auth env) (dp_auth dp) (re_now env) (re_now' env)
       (fb_LoginRequest (dp_fiber dp) (rq_Body rq)))"
| "handle dp env rq ps H_createTenant =
     createTenant (dp_amqp dp) (dp_pg dp) (dp_time dp) (re_svc env) (fb_CreateTenantRequest (dp_fiber dp) (rq_Body rq))"
| "handle dp env rq ps H_deleteTenant = deleteTenant (dp_amqp dp) (dp_pg dp) (re_svc env) (ps ''id'')"
| "handle dp env rq ps H_updateConcurrency =
     updateConcurrency (dp_pg dp) (dp_time dp) (re_svc env) (ps ''id'') (fb_UpdateConcurrencyRequest (dp_fiber dp) (rq_Body rq))"
| "handle dp env rq ps H_ListTenants =
     on_db (handler_ListTenants (dp_pg dp) (dp_time dp) (re_svc env)
       (fb_QueryInt (dp_fiber dp) (rq_Query rq ''limit'') 20) (fb_QueryInt (dp_fiber dp) (rq_Query rq ''offset'') 0))"
| "handle dp env rq ps H_GetTenant =
     on_db (handler_GetTenant (dp_uuid_Parse dp) (dp_pg dp) (dp_time dp) (re_svc env) (ps ''id''))"
| "handle dp env rq ps H_CreateMessage =
     on_db (handler_CreateMessage (dp_uuid_Parse dp) (dp_pg dp) (dp_js dp) (dp_time dp) (re_svc env)
       (fb_CreateMessageRequest (dp_fiber dp) (rq_Body rq)))"
| "handle dp env rq ps H_ListMessages =
     on_db (handler_ListMessages (dp_pg dp) (dp_js dp) (dp_time dp) (re_svc env) (rq_Query rq ''cursor'')
       (fb_QueryInt (dp_fiber dp) (rq_Query rq ''limit'') 20) (rq_Query rq ''tenant_id''))"
| "handle dp env rq ps H_GetMessage =
     on_db (handler_GetMessage (dp_uuid_Parse dp) (dp_pg dp) (dp_js dp) (dp_time dp) (re_svc env) (ps ''id'')
       (rq_Query rq ''tenant_id''))"
| "handle dp env rq ps H_health = (\<lambda>s. Returns (s, health))"
| "handle dp env rq ps H_handler_CreateTenant =
     on_db (handler_CreateTenant (dp_pg dp) (dp_time dp) (re_svc env) (fb_CreateTenantRequest (dp_fiber dp) (rq_Body rq)))"
| "handle dp env rq ps H_handler_DeleteTenant =
     on_db (handler_DeleteTenant (dp_uuid_Parse dp) (dp_pg dp) (re_svc env) (ps ''id''))"
| "handle dp env rq ps H_handler_UpdateConcurrency =
     on_db (handler_UpdateConcurrency (dp_uuid_Parse dp) (dp_pg dp) (dp_time dp) (re_svc env) (ps ''id'')
       (fb_UpdateConcurrencyRequest (dp_fiber dp) (rq_Body rq)))"

section \<open>The application\<close>

text \<open>The \<^verbatim>\<open>ErrorHandler\<close> of \<^verbatim>\<open>main\<close>.\<close>

definition ErrorHandler :: "handler_error \<Rightarrow> http" where
  "ErrorHandler err =
     (case err of
        FiberError code message \<Rightarrow> http_err code message
      | OtherError _ \<Rightarrow> http_err 500 ''Internal Server Error'')"

definition route_matches :: "fiber \<Rightarrow> Request \<Rightarrow> route \<Rightarrow> (string \<Rightarrow> string) option" where
  "route_matches fb rq r =
     (if rt_Use r \<or> rq_Method rq \<in> set (rt_Methods r) then fb_match fb (rt_Use r) (rt_Pattern r) (rq_Path rq) else None)"

text \<open>
  A request's way through the table: the first route that matches answers it, except the
  middleware, which answers with 401 or goes on.
\<close>

fun dispatch ::
  "'w deps \<Rightarrow> req_env \<Rightarrow> route list \<Rightarrow> Request \<Rightarrow> 'w app \<Rightarrow> ('w app \<times> http) outcome" where
  "dispatch dp env [] rq s = Returns (s, ErrorHandler (fb_no_route (dp_fiber dp) rq))"
| "dispatch dp env (r # rs) rq s =
     (case route_matches (dp_fiber dp) rq r of
        None \<Rightarrow> dispatch dp env rs rq s
      | Some ps \<Rightarrow>
          (case rt_Target r of
             Jwt \<Rightarrow> protected (dp_crypto dp) (as_jwtSecret (dp_auth dp)) (re_now env) (rq_Authorization rq)
                      (\<lambda>claims. dispatch dp env rs rq) s
           | Handler h \<Rightarrow> handle dp env rq ps h s))"

text \<open>\<^verbatim>\<open>recover.New()\<close> turns a panic into an error that is not fiber's own.\<close>

definition serve :: "'w deps \<Rightarrow> req_env \<Rightarrow> Request \<Rightarrow> 'w app \<Rightarrow> 'w app option \<times> http" where
  "serve dp env rq s =
     (case dispatch dp env Router_Register rq s of
        Returns (s', h) \<Rightarrow> (Some s', h)
      | Panics m \<Rightarrow> (None, ErrorHandler (OtherError (ErrorNew m))))"

section \<open>Responses\<close>

fun has_error :: "json \<Rightarrow> bool" where
  "has_error (JObject ((k, JString msg) # kvs)) \<longleftrightarrow> k = ''error''"
| "has_error _ \<longleftrightarrow> False"

text \<open>A success, or an error status with an object whose first member is the error's text.\<close>

definition response_ok :: "http \<Rightarrow> bool" where
  "response_ok h \<longleftrightarrow>
     (if status h \<in> {200, 201, 204} then \<not> has_error (body h)
      else status h \<in> {400, 401, 404, 405, 409, 500} \<and> has_error (body h))"

lemma response_http_err [simp]: "c \<in> {400, 401, 404, 405, 409, 500} \<Longrightarrow> response_ok (http_err c m)"
  by (auto simp: response_ok_def http_err_def err_body_def)

lemma response_auth_err [simp]: "c \<in> {400, 401, 404, 405, 409, 500} \<Longrightarrow> response_ok (auth_err c k m)"
  by (auto simp: response_ok_def auth_err_def)

lemma success_bodies [simp]:
  "\<not> has_error (tenant_json t)" "\<not> has_error (message_json m)" "\<not> has_error (page_json p)"
  "\<not> has_error (json_slice f xs)" "\<not> has_error JNull"
proof -
  show "\<not> has_error (page_json p)"
    by (cases "cp_Data p") (simp_all add: page_json_def json_slice_def)
qed (simp_all add: tenant_json_def message_json_def json_slice_def)

text \<open>What the library documents of its answer to a request without a route, and of a group's prefix.\<close>

definition fiber_lawful :: "fiber \<Rightarrow> bool" where
  "fiber_lawful fb \<longleftrightarrow> (\<forall>rq. \<exists>msg. fb_no_route fb rq = FiberError 404 msg \<or> fb_no_route fb rq = FiberError 405 msg) \<and>
     (\<forall>p x. fb_match fb False (''/api/v1'' @ p) x \<noteq> None \<longrightarrow> fb_match fb True ''/api/v1'' x \<noteq> None)"

section \<open>Handlers keep the invariants and answer\<close>

definition good_answer :: "pg_server \<Rightarrow> ('w app \<times> http) outcome \<Rightarrow> bool" where
  "good_answer pg x \<longleftrightarrow> (case x of Returns (s, h) \<Rightarrow> app_ok pg s \<and> response_ok h | Panics m \<Rightarrow> False)"

lemma good_answer_Returns [simp]: "good_answer pg (Returns (s, h)) \<longleftrightarrow> app_ok pg s \<and> response_ok h"
  by (simp add: good_answer_def)

lemma good_on_db:
  assumes "app_ok pg s" "db_ok pg (fst (f (snd s)))" "response_ok (snd (f (snd s)))"
  shows "good_answer pg (on_db f s)"
  using assms by (simp add: on_db_def app_ok_def split_beta)

text \<open>Passing a result on changes no state.\<close>

lemma case_res:
  "fst (case p of (d, Inl e) \<Rightarrow> (d, f e) | (d, Inr x) \<Rightarrow> (d, g x)) = fst p"
  "snd (case p of (d, Inl e) \<Rightarrow> (d, f e) | (d, Inr x) \<Rightarrow> (d, g x)) = (case snd p of Inl e \<Rightarrow> f e | Inr x \<Rightarrow> g x)"
  by (auto split: prod.split sum.split)

lemma with_fault_read: "fst (f d) = d \<Longrightarrow> fst (with_fault flt f d) = d"
  by (cases flt) (auto split: prod.split sum.split)

lemma reads_keep_db:
  "fst (GetTenant pg tm env t d) = d" "fst (ListTenants pg tm env l off d) = d" "fst (GetMessage pg js tm env m t d) = d"
  "fst (ListMessages pg js tm env t cur l d) = d" "fst (GetByUsername aenv un d) = d"
  "fst (Login cr tm aenv a n n' un pw d) = d"
proof -
  show u: "fst (GetByUsername aenv un d) = d"
    by (simp add: GetByUsername_def case_res with_fault_read sql_select_user_by_username_def)
  show "fst (Login cr tm aenv a n n' un pw d) = d" by (simp add: Login_def case_res u)
  show "fst (ListMessages pg js tm env t cur l d) = d"
    unfolding ListMessages_def Let_def case_res(1) by (rule with_fault_read) (simp add: list_query_def)
qed (simp_all add: GetTenant_def ListTenants_def GetMessage_def case_res with_fault_read sql_select_tenant_def
    sql_list_tenants_def sql_select_message_def)

lemma Register_ok:
  assumes "uuid_lawful pg" "db_ok pg d"
  shows "db_ok pg (fst (Register cr pg env r d))"
proof -
  obtain x where g: "GetByUsername env (rr_Username r) d = (d, x)"
    using reads_keep_db(5) [of env "rr_Username r" d] by (cases "GetByUsername env (rr_Username r) d") simp
  show ?thesis
    using requests_ok(2) [OF assms, of cr env "rr_Username r" "rr_Password r" "rr_TenantID r"] assms(2)
    by (simp add: Register_def Let_def g split: sum.split)
qed

lemma response_success [simp]:
  "c \<in> {200, 201, 204} \<Longrightarrow> response_ok \<lparr>status = c, body = b\<rparr> \<longleftrightarrow> \<not> has_error b"
  by (simp add: response_ok_def)

lemma handler_ok:
  assumes "uuid_lawful pg" "db_ok pg d"
  shows "db_ok pg (fst (handler_Register cr pg tm aenv rr d)) \<and> response_ok (snd (handler_Register cr pg tm aenv rr d))"
    and "db_ok pg (fst (handler_Login cr tm aenv a n n' lr d)) \<and> response_ok (snd (handler_Login cr tm aenv a n n' lr d))"
    and "db_ok pg (fst (handler_ListTenants pg tm env l off d)) \<and> response_ok (snd (handler_ListTenants pg tm env l off d))"
    and "db_ok pg (fst (handler_GetTenant up pg tm env t d)) \<and> response_ok (snd (handler_GetTenant up pg tm env t d))"
    and "db_ok pg (fst (handler_CreateMessage up pg js tm env mr d)) \<and>
      response_ok (snd (handler_CreateMessage up pg js tm env mr d))"
    and "db_ok pg (fst (handler_ListMessages pg js tm env cur l t d)) \<and>
      response_ok (snd (handler_ListMessages pg js tm env cur l t d))"
    and "db_ok pg (fst (handler_GetMessage up pg js tm env m t d)) \<and> response_ok (snd (handler_GetMessage up pg js tm env m t d))"
    and "db_ok pg (fst (handler_CreateTenant pg tm env tr d)) \<and> response_ok (snd (handler_CreateTenant pg tm env tr d))"
    and "db_ok pg (fst (handler_DeleteTenant up pg env t d)) \<and> response_ok (snd (handler_DeleteTenant up pg env t d))"
    and "db_ok pg (fst (handler_UpdateConcurrency up pg tm env t ur d)) \<and>
      response_ok (snd (handler_UpdateConcurrency up pg tm env t ur d))"
  unfolding handler_Register_def handler_Login_def handler_ListTenants_def handler_GetTenant_def handler_CreateMessage_def
    handler_ListMessages_def handler_GetMessage_def handler_CreateTenant_def handler_DeleteTenant_def
    handler_UpdateConcurrency_def Let_def
  by (simp_all add: assms case_res reads_keep_db service_ok requests_ok Register_ok split: sum.split prod.split)

lemma createTenant_good:
  assumes "app_ok pg s"
  shows "good_answer pg (createTenant am pg tm env req s)"
proof (cases req)
  case (Inl e)
  with assms show ?thesis by (simp add: createTenant_def split_beta)
next
  case (Inr r)
  from assms show ?thesis
  proof (cases rule: createTenant_cases [where am = am and tm = tm and env = env and r = r])
    case (refused e d')
    with failed_state(1) [OF assms refused(1)] show ?thesis by (simp add: Inr)
  next
    case (orphan t d' m' e)
    with failed_state(2) [OF assms orphan(1,2)] show ?thesis by (simp add: Inr)
  next
    case (created t d' m')
    with created_state [OF assms created(1,2)] show ?thesis by (simp add: Inr)
  qed
qed

lemma deleteTenant_good:
  assumes "app_ok pg s"
  shows "good_answer pg (deleteTenant am pg env t s)"
proof -
  have ok: "uuid_lawful pg" "db_ok pg (snd s)" "world_ok (fst s)" using assms by (simp_all add: app_ok_def)
  obtain d' r where d: "DeleteTenant pg env t (snd s) = (d', r)" by force
  have "db_ok pg d'" using service_ok(2) [OF ok(1,2), of env t] d by simp
  moreover from manager.stop_total [OF ok(3), of am t] obtain m' ru where
    "StopConsumer am t (fst s) = Returns (m', ru)" "world_ok m'" by auto
  ultimately show ?thesis using ok d
    by (simp add: deleteTenant_def split_beta app_ok_def split: sum.split)
qed

lemma updateConcurrency_good:
  assumes "app_ok pg s"
  shows "good_answer pg (updateConcurrency pg tm env t req s)"
proof (cases req)
  case (Inl e)
  with assms show ?thesis by (simp add: updateConcurrency_def split_beta)
next
  case (Inr n)
  have ok: "uuid_lawful pg" "db_ok pg (snd s)" "world_ok (fst s)" using assms by (simp_all add: app_ok_def)
  obtain d' r where d: "TenantService_UpdateConcurrency pg tm env t n (snd s) = (d', r)" by force
  have "db_ok pg d'" using service_ok(3) [OF ok(1,2), of tm env t n] d by simp
  moreover from manager.resize_total [OF ok(3), of t n] obtain m' ru where
    "UpdateConcurrency t n (fst s) = Returns (m', ru)" "world_ok m'" by auto
  ultimately show ?thesis using ok d Inr
    by (simp add: updateConcurrency_def split_beta app_ok_def split: sum.split)
qed

lemma handle_good: "app_ok (dp_pg dp) s \<Longrightarrow> good_answer (dp_pg dp) (handle dp env rq ps h s)"
proof -
  assume ok: "app_ok (dp_pg dp) s"
  then have d: "uuid_lawful (dp_pg dp)" "db_ok (dp_pg dp) (snd s)" by (simp_all add: app_ok_def)
  show ?thesis
    by (cases h) (simp_all add: ok createTenant_good deleteTenant_good updateConcurrency_good good_on_db handler_ok [OF d] health_def)
qed

lemma dispatch_good:
  assumes "fiber_lawful (dp_fiber dp)"
  shows "app_ok (dp_pg dp) s \<Longrightarrow> good_answer (dp_pg dp) (dispatch dp env rs rq s)"
proof (induction rs)
  case Nil
  have "\<exists>msg. fb_no_route (dp_fiber dp) rq = FiberError 404 msg \<or> fb_no_route (dp_fiber dp) rq = FiberError 405 msg"
    using assms unfolding fiber_lawful_def by blast
  with Nil show ?case by (auto simp: ErrorHandler_def)
next
  case (Cons r rs)
  then show ?case
    by (auto simp: protected_def handle_good split: option.split route_target.split sum.split)
qed

lemma serve_good:
  assumes "app_ok (dp_pg dp) s" "fiber_lawful (dp_fiber dp)"
  shows "\<exists>s' h. serve dp env rq s = (Some s', h) \<and> app_ok (dp_pg dp) s' \<and> response_ok h"
  using dispatch_good [OF assms(2,1), of env Router_Register rq]
  by (auto simp: good_answer_def serve_def split: outcome.splits)

section \<open>Properties\<close>

text \<open>
  Every request is answered. From a state in which the invariants of the registry and of the
  database hold, whatever the request, the token, the faults and the table's route that matches, no handler
  panics, the invariants hold afterwards, and the response is one of the documented kinds: a success status without an
  error, or an error status whose body is an object with the text of the error.
\<close>

lemma serve_answers:
  assumes "app_ok (dp_pg dp) s" "fiber_lawful (dp_fiber dp)"
  shows "\<exists>s' h. serve dp env rq s = (Some s', h) \<and> app_ok (dp_pg dp) s' \<and> response_ok h"
  by (rule serve_good [OF assms])

text \<open>
  C8: without a token that the middleware accepts, a request that is no registration and no login
  changes nothing; under the prefix of the API it is answered with 401, before any handler runs.
\<close>

theorem unauthenticated_refused:
  assumes "fiber_lawful (dp_fiber dp)"
    and "NewJWTMiddleware (dp_crypto dp) (as_jwtSecret (dp_auth dp)) (re_now env) (rq_Authorization rq) = Inl msg"
    and "\<forall>r \<in> set AuthRoutes_Register. route_matches (dp_fiber dp) rq r = None"
  shows "fst (serve dp env rq s) = Some s \<and>
    (fb_match (dp_fiber dp) True ''/api/v1'' (rq_Path rq) \<noteq> None \<longrightarrow> snd (serve dp env rq s) = http_err 401 msg)"
proof -
  let ?fb = "dp_fiber dp"
  have auth: "dispatch dp env (AuthRoutes_Register @ rs) rq s = dispatch dp env rs rq s" for rs
    using assms(3) by (simp add: AuthRoutes_Register_def Let_def)
  show ?thesis
  proof (cases "fb_match ?fb True ''/api/v1'' (rq_Path rq)")
    case (Some ps)
    then show ?thesis using assms(2)
      by (simp add: serve_def Router_Register_def auth TenantRoutes_Register_def Let_def group_path_def Use_def
          route_matches_def protected_def)
  next
    case None
    have "fb_match ?fb False (''/api/v1'' @ p) (rq_Path rq) = None" for p
      using assms(1) None unfolding fiber_lawful_def by blast
    from this [of "''/tenants/''"] this [of "''/tenants/:id''"] this [of "''/tenants/:id/config/concurrency''"]
      this [of "''/messages/''"] this [of "''/messages/:id''"] None
    show ?thesis
      by (auto simp: serve_def Router_Register_def auth TenantRoutes_Register_def MessageRoutes_Register_def Let_def
          group_path_def Use_def Add_def Get_def route_matches_def split: option.split)
  qed
qed

text \<open>
  C26: the routes that the program serves against the handlers of the same name, which it does not, on every input.
  The route has none of the handler's checks: for an empty name, an identifier that does not parse, or a number of workers
  outside 1 to 50 the handler answers 400 and changes nothing, while the route never answers 400 and does to the
  database what the service does with the value. A body that cannot be decoded gets 400 from both. On every other input they
  leave the same database and give the same response, except that the route answers 500 where the manager has no such
  consumer or cannot spawn it, and 404 for every error of the statement of a deletion or an update.
\<close>

theorem routes_agree_with_handlers:
  assumes "app_ok pg s"
  shows "(\<exists>s' h d' h'. createTenant am pg tm env req s = Returns (s', h) \<and>
      handler_CreateTenant pg tm env req (snd s) = (d', h') \<and>
      (if \<exists>r. req = Inr r \<and> ct_Name r = []
       then d' = snd s \<and> status h' = 400 \<and> snd s' = fst (CreateTenant pg tm env (projr req) (snd s)) \<and> status h \<in> {201, 500}
       else d' = snd s' \<and> (h = h' \<or> status h = 500 \<and> status h' = 201 \<and> registered (fst s') = registered (fst s)))) \<and>
    (\<exists>s' h d' h'. deleteTenant am pg env tid s = Returns (s', h) \<and>
      handler_DeleteTenant up pg env tid (snd s) = (d', h') \<and>
      (if \<not> up tid
       then d' = snd s \<and> status h' = 400 \<and> snd s' = fst (DeleteTenant pg env tid (snd s)) \<and> status h \<in> {204, 404, 500}
       else d' = snd s' \<and>
         (h = h' \<or> status h = 500 \<and> status h' = 204 \<and> tid \<notin> registered (fst s) \<or> status h = 404 \<and> status h' = 500))) \<and>
    (\<exists>s' h d' h'. updateConcurrency pg tm env tid n s = Returns (s', h) \<and>
      handler_UpdateConcurrency up pg tm env tid n (snd s) = (d', h') \<and>
      (if isl n then s' = s \<and> d' = snd s \<and> status h = 400 \<and> status h' = 400 \<and> (up tid \<longrightarrow> h = h')
       else if \<not> up tid \<or> projr n \<le> 0 \<or> 50 < projr n
       then d' = snd s \<and> status h' = 400 \<and>
         snd s' = fst (TenantService_UpdateConcurrency pg tm env tid (projr n) (snd s)) \<and> status h \<in> {200, 404, 500}
       else d' = snd s' \<and>
         (h = h' \<or> status h = 500 \<and> status h' = 200 \<and> tid \<notin> registered (fst s) \<or>
          status h = 404 \<and> status h' \<in> {404, 500})))"
proof (intro conjI)
  have w: "world_ok (fst s)" using assms by (simp add: app_ok_def)
  show "\<exists>s' h d' h'. createTenant am pg tm env req s = Returns (s', h) \<and>
      handler_CreateTenant pg tm env req (snd s) = (d', h') \<and>
      (if \<exists>r. req = Inr r \<and> ct_Name r = []
       then d' = snd s \<and> status h' = 400 \<and> snd s' = fst (CreateTenant pg tm env (projr req) (snd s)) \<and> status h \<in> {201, 500}
       else d' = snd s' \<and> (h = h' \<or> status h = 500 \<and> status h' = 201 \<and> registered (fst s') = registered (fst s)))"
  proof (cases req)
    case (Inl e)
    then show ?thesis by (simp add: createTenant_def handler_CreateTenant_def split_beta)
  next
    case (Inr r)
    from assms show ?thesis
    proof (cases rule: createTenant_cases [where am = am and tm = tm and env = env and r = r])
      case (orphan t d' m' e)
      with failed_state(2) [OF assms orphan(1,2)] Inr show ?thesis by (simp add: handler_CreateTenant_def)
    qed (use Inr in \<open>simp_all add: handler_CreateTenant_def\<close>)
  qed
  obtain d' rd where d: "DeleteTenant pg env tid (snd s) = (d', rd)" by force
  obtain m' rm where m: "StopConsumer am tid (fst s) = Returns (m', rm)" using manager.stop_total [OF w, of am tid] by auto
  have "rm = Inr ()" if "tid \<in> registered (fst s)" using manager.stop_hit [OF w that, of am] m by auto
  with d m show "\<exists>s' h d' h'. deleteTenant am pg env tid s = Returns (s', h) \<and>
      handler_DeleteTenant up pg env tid (snd s) = (d', h') \<and>
      (if \<not> up tid
       then d' = snd s \<and> status h' = 400 \<and> snd s' = fst (DeleteTenant pg env tid (snd s)) \<and> status h \<in> {204, 404, 500}
       else d' = snd s' \<and>
         (h = h' \<or> status h = 500 \<and> status h' = 204 \<and> tid \<notin> registered (fst s) \<or> status h = 404 \<and> status h' = 500))"
    by (cases rd; cases rm) (auto simp: deleteTenant_def handler_DeleteTenant_def split_beta)
  show "\<exists>s' h d' h'. updateConcurrency pg tm env tid n s = Returns (s', h) \<and>
      handler_UpdateConcurrency up pg tm env tid n (snd s) = (d', h') \<and>
      (if isl n then s' = s \<and> d' = snd s \<and> status h = 400 \<and> status h' = 400 \<and> (up tid \<longrightarrow> h = h')
       else if \<not> up tid \<or> projr n \<le> 0 \<or> 50 < projr n
       then d' = snd s \<and> status h' = 400 \<and>
         snd s' = fst (TenantService_UpdateConcurrency pg tm env tid (projr n) (snd s)) \<and> status h \<in> {200, 404, 500}
       else d' = snd s' \<and>
         (h = h' \<or> status h = 500 \<and> status h' = 200 \<and> tid \<notin> registered (fst s) \<or>
          status h = 404 \<and> status h' \<in> {404, 500}))"
  proof (cases n)
    case (Inl e)
    then show ?thesis by (simp add: updateConcurrency_def handler_UpdateConcurrency_def split_beta)
  next
    case (Inr k)
    obtain d' ru where u: "TenantService_UpdateConcurrency pg tm env tid k (snd s) = (d', ru)" by force
    obtain m' rm where m: "UpdateConcurrency tid k (fst s) = Returns (m', rm)" using manager.resize_total [OF w, of tid k] by auto
    have "rm = Inr ()" if "tid \<in> registered (fst s)" using manager.resize_hit [OF w that, of k] m by auto
    with u m Inr show ?thesis
      by (cases ru; cases rm) (auto simp: updateConcurrency_def handler_UpdateConcurrency_def split_beta)
  qed
qed

section \<open>A library for the witnesses\<close>

definition sample_fiber :: fiber where
  "sample_fiber =
     \<lparr>fb_match = (\<lambda>use p x. if (if use then take (length p) x = p else x = p) then Some (\<lambda>_. []) else None),
      fb_no_route = (\<lambda>rq. FiberError 404 (''Cannot '' @ rq_Method rq @ '' '' @ rq_Path rq)),
      fb_CreateTenantRequest = (\<lambda>b. if b = [] then Inl (ErrorNew ''Unprocessable Entity'') else Inr \<lparr>ct_Name = b, ct_Workers = 0\<rparr>),
      fb_UpdateConcurrencyRequest = (\<lambda>b. Inl (ErrorNew ''Unprocessable Entity'')),
      fb_CreateMessageRequest = (\<lambda>b. Inl (ErrorNew ''Unprocessable Entity'')),
      fb_RegisterRequest = (\<lambda>b. Inl (ErrorNew ''Unprocessable Entity'')),
      fb_LoginRequest = (\<lambda>b. Inl (ErrorNew ''Unprocessable Entity'')), fb_QueryInt = (\<lambda>t n. n)\<rparr>"

lemma sample_fiber_lawful: "fiber_lawful sample_fiber"
  by (auto simp: fiber_lawful_def sample_fiber_def)

definition sample_deps :: "mem_broker deps" where
  "sample_deps =
     \<lparr>dp_amqp = mem_amqp, dp_js = sample_js, dp_crypto = sample_crypto, dp_pg = sample_pg, dp_time = sample_time,
      dp_uuid_Parse = (\<lambda>t. uuid_in sample_pg t \<noteq> None), dp_fiber = sample_fiber,
      dp_auth = \<lparr>as_jwtSecret = ''secret'', as_jwtExpiry = 3600 * 10 ^ 9\<rparr>\<rparr>"

definition sample_req_env :: req_env where
  "sample_req_env = \<lparr>re_svc = sample_env uuid_a 1000, re_auth = sample_auth_env, re_now = 0, re_now' = 0\<rparr>"

definition sample_post :: "string \<Rightarrow> Request" where
  "sample_post hdr = \<lparr>rq_Method = ''POST'', rq_Path = ''/api/v1/tenants/'', rq_Authorization = hdr, rq_Body = ''acme'',
     rq_Query = (\<lambda>_. [])\<rparr>"

lemma sample_app_ok: "app_ok (dp_pg sample_deps) ((mem_empty, sample_manager), db_empty)"
  using sample_manager_ok(1) by (simp add: app_ok_def sample_uuid_lawful sample_deps_def)

theorem unauthenticated_refused_witness:
  "serve sample_deps sample_req_env (sample_post ''Basic dTpw'') ((mem_empty, sample_manager), db_empty) =
     (Some ((mem_empty, sample_manager), db_empty), http_err 401 ''invalid authorization header format'')"
proof -
  let ?rq = "sample_post ''Basic dTpw''"
  have "ToLower ''Basic'' \<noteq> ''bearer''" by code_simp
  moreover have "SplitN2 ''Basic dTpw'' = [''Basic'', ''dTpw'']" by code_simp
  ultimately have j: "NewJWTMiddleware (dp_crypto sample_deps) (as_jwtSecret (dp_auth sample_deps)) (re_now sample_req_env)
      (rq_Authorization ?rq) = Inl ''invalid authorization header format''"
    by (simp add: NewJWTMiddleware_def sample_post_def)
  have "fiber_lawful (dp_fiber sample_deps)" by (simp add: sample_deps_def sample_fiber_lawful)
  from unauthenticated_refused [OF this j, of "((mem_empty, sample_manager), db_empty)"] show ?thesis
    by (auto simp: AuthRoutes_Register_def Let_def group_path_def Add_def route_matches_def sample_deps_def sample_fiber_def
        sample_post_def intro!: prod_eqI)
qed

text \<open>A nameless tenant: the handler refuses it, the route stores it.\<close>

theorem routes_agree_with_handlers_witness:
  "\<exists>s' h h'. createTenant mem_amqp sample_pg sample_time (sample_env uuid_a 1000) (Inr \<lparr>ct_Name = [], ct_Workers = 3\<rparr>)
       ((mem_empty, sample_manager), db_empty) = Returns (s', h) \<and> tenants (snd s') \<noteq> [] \<and>
     handler_CreateTenant sample_pg sample_time (sample_env uuid_a 1000) (Inr \<lparr>ct_Name = [], ct_Workers = 3\<rparr>) db_empty = (db_empty, h') \<and>
     status h' = 400"
proof -
  let ?r = "\<lparr>ct_Name = [], ct_Workers = 3\<rparr>"
  have ok: "app_ok sample_pg ((mem_empty, sample_manager), db_empty)"
    using sample_manager_ok(1) by (simp add: app_ok_def sample_uuid_lawful)
  have "varchar_in sample_pg 255 []" by (simp add: sample_pg_def)
  then have t: "tenants (fst (CreateTenant sample_pg sample_time (sample_env uuid_a 1000) ?r db_empty)) \<noteq> []"
    by (simp add: CreateTenant_def sample_env_def sql_insert_tenant_def db_empty_def Let_def int4_ok_def)
  from conjunct1 [OF routes_agree_with_handlers [OF ok, of mem_amqp sample_time "sample_env uuid_a 1000" "Inr ?r"]] t
  show ?thesis by auto
qed

end
