(* ===== verification/Rmq.thy ===== *)
theory Rmq
  imports Amqp Go_Chan
begin

text \<open>
  \<^verbatim>\<open>internal/rabbitmq\<close>: the reconnecting \<^verbatim>\<open>Connection\<close> (\<^verbatim>\<open>connection.go\<close>) and the
  \<^verbatim>\<open>Publisher\<close> over it (\<^verbatim>\<open>publisher.go\<close>). The field \<open>cn_mu\<close> tells that the goroutine which
  makes the call already holds the mutex: \<^verbatim>\<open>sync.RWMutex\<close> is not reentrant, so a call that locks
  it then never returns, which is the value \<open>None\<close>. The goroutines that \<^verbatim>\<open>Connect\<close> starts are the
  list \<open>cn_handlers\<close>.
\<close>

section \<open>Connection\<close>

datatype handler = HStart | HWatching "nat option" | HSleeping | HReturned

record Connection =
  cn_url :: string
  cn_conn :: "nat option"
  cn_channel :: "nat option"
  cn_mu :: bool
  cn_closed :: bool
  cn_reconnect :: "bool chan"
  cn_handlers :: "handler list"

definition NewConnection :: "string \<Rightarrow> Connection" where
  "NewConnection url =
     \<lparr>cn_url = url, cn_conn = None, cn_channel = None, cn_mu = False, cn_closed = False,
      cn_reconnect = \<lparr>ch_buf = [], ch_cap = 1, ch_closed = False\<rparr>, cn_handlers = []\<rparr>"

definition err_conn_closed :: go_error where
  "err_conn_closed = ErrorNew ''connection is closed''"

text \<open>
  \<^verbatim>\<open>Connect\<close> and \<^verbatim>\<open>NewChannel\<close>: the lock is free again when they return.
\<close>

definition Connect ::
  "'w amqp \<Rightarrow> 'w \<times> Connection \<Rightarrow> (('w \<times> Connection) \<times> unit res) option" where
  "Connect am s =
     (let (w, c) = s in
      if cn_mu c then None
      else if cn_closed c then Some (s, Inl err_conn_closed)
      else Some
        (case am_Dial am (cn_url c) w of
           (w1, Inl e) \<Rightarrow> ((w1, c), Inl (Wrapf ''failed to connect to RabbitMQ: '' e))
         | (w1, Inr conn) \<Rightarrow>
             (case am_Channel am conn w1 of
                (w2, Inl e) \<Rightarrow> ((fst (am_ConnClose am conn w2), c), Inl (Wrapf ''failed to open channel: '' e))
              | (w2, Inr ch) \<Rightarrow>
                  ((w2, c\<lparr>cn_conn := Some conn, cn_channel := Some ch,
                          cn_handlers := cn_handlers c @ [HStart]\<rparr>), Inr ()))))"

definition conn_down :: "'w amqp \<Rightarrow> 'w \<Rightarrow> nat option \<Rightarrow> bool" where
  "conn_down am w conn = (case conn of None \<Rightarrow> True | Some n \<Rightarrow> am_IsClosed am n w)"

text \<open>
  \<^verbatim>\<open>Channel\<close>: the second half runs, and calls \<^verbatim>\<open>Connect\<close>, with the mutex held. Where a channel is
  opened the connection is not nil, here and in \<^verbatim>\<open>NewChannel\<close>: the other case is never reached.
\<close>

definition Connection_Channel ::
  "'w amqp \<Rightarrow> 'w \<times> Connection \<Rightarrow> (('w \<times> Connection) \<times> nat res) option" where
  "Connection_Channel am s =
     (let (w, c) = s in
      if cn_mu c then None
      else case cn_channel c of
        Some ch \<Rightarrow> Some (s, Inr ch)
      | None \<Rightarrow>
          (let create = (\<lambda>(w, c).
                 case cn_conn c of
                   None \<Rightarrow> None
                 | Some conn \<Rightarrow>
                     (case am_Channel am conn w of
                        (w', Inl e) \<Rightarrow> Some ((w', c\<lparr>cn_mu := False\<rparr>), Inl (Wrapf ''failed to create channel: '' e))
                      | (w', Inr ch) \<Rightarrow> Some ((w', c\<lparr>cn_mu := False, cn_channel := Some ch\<rparr>), Inr ch)));
               s1 = (w, c\<lparr>cn_mu := True\<rparr>)
           in if conn_down am w (cn_conn c)
              then (case Connect am s1 of
                      None \<Rightarrow> None
                    | Some ((w', c'), Inl e) \<Rightarrow> Some ((w', c'\<lparr>cn_mu := False\<rparr>), Inl e)
                    | Some (s2, Inr _) \<Rightarrow> create s2)
              else create s1))"

definition NewChannel ::
  "'w amqp \<Rightarrow> 'w \<times> Connection \<Rightarrow> (('w \<times> Connection) \<times> nat res) option" where
  "NewChannel am s =
     (let (w, c) = s;
          open = (\<lambda>(w, c). case cn_conn c of
                    None \<Rightarrow> None
                  | Some conn \<Rightarrow> (case am_Channel am conn w of (w', r) \<Rightarrow> Some ((w', c), r)))
      in if cn_mu c then None
         else if conn_down am w (cn_conn c)
         then (case Connect am s of
                 None \<Rightarrow> None
               | Some (s1, Inl e) \<Rightarrow> Some (s1, Inl e)
               | Some (s1, Inr _) \<Rightarrow> open s1)
         else open s)"

definition Close ::
  "'w amqp \<Rightarrow> 'w \<times> Connection \<Rightarrow> (('w \<times> Connection) \<times> unit res) outcome option" where
  "Close am s =
     (let (w, c) = s in
      if cn_mu c then None
      else Some (bind_outcome (chan_close (cn_reconnect c)) (\<lambda>rc.
        let c1 = c\<lparr>cn_closed := True, cn_reconnect := rc\<rparr>;
            w1 = (case cn_channel c of None \<Rightarrow> w | Some ch \<Rightarrow> am_Close am ch w)
        in Returns
          (case cn_conn c of
             None \<Rightarrow> ((w1, c1), Inr ())
           | Some conn \<Rightarrow> (case am_ConnClose am conn w1 of (w2, r) \<Rightarrow> ((w2, c1), r))))))"

definition Connection_IsClosed :: "Connection \<Rightarrow> bool" where
  "Connection_IsClosed c = cn_closed c"

definition GetConnection :: "Connection \<Rightarrow> nat option" where
  "GetConnection c = cn_conn c"

section \<open>Reconnection\<close>

text \<open>
  The goroutine \<^verbatim>\<open>handleReconnect\<close>, number \<open>i\<close> of \<open>cn_handlers\<close>, step by step: it registers on
  the connection it finds, sleeps after an error and connects once, loops after the nil error of
  a connection closed in order, and returns when \<^verbatim>\<open>reconnect\<close> is closed.
\<close>

datatype handler_label = Registered | ConnError go_error | ConnNil | Woke "unit res" | ReconnectClosed

inductive handleReconnect ::
  "'w amqp \<Rightarrow> 'w \<times> Connection \<Rightarrow> nat \<times> handler_label \<Rightarrow> 'w \<times> Connection \<Rightarrow> bool" for am where
  registers: "i < length (cn_handlers c) \<Longrightarrow> cn_handlers c ! i = HStart \<Longrightarrow> \<not> cn_mu c \<Longrightarrow>
     handleReconnect am (w, c) (i, Registered)
       (w, c\<lparr>cn_handlers := (cn_handlers c)[i := HWatching (cn_conn c)]\<rparr>)"
| error: "i < length (cn_handlers c) \<Longrightarrow> cn_handlers c ! i = HWatching (Some conn) \<Longrightarrow>
     handleReconnect am (w, c) (i, ConnError e) (w, c\<lparr>cn_handlers := (cn_handlers c)[i := HSleeping]\<rparr>)"
| nil_error: "i < length (cn_handlers c) \<Longrightarrow> cn_handlers c ! i = HWatching (Some conn) \<Longrightarrow>
     handleReconnect am (w, c) (i, ConnNil) (w, c)"
| wakes: "i < length (cn_handlers c) \<Longrightarrow> cn_handlers c ! i = HSleeping \<Longrightarrow>
     Connect am (w, c\<lparr>cn_handlers := (cn_handlers c)[i := HReturned]\<rparr>) = Some (s', r) \<Longrightarrow>
     handleReconnect am (w, c) (i, Woke r) s'"
| stops: "i < length (cn_handlers c) \<Longrightarrow> cn_handlers c ! i = HWatching conn \<Longrightarrow>
     ch_closed (cn_reconnect c) \<Longrightarrow>
     handleReconnect am (w, c) (i, ReconnectClosed)
       (w, c\<lparr>cn_handlers := (cn_handlers c)[i := HReturned]\<rparr>)"

inductive_cases handleReconnectE: "handleReconnect am s l s'"

definition live_handlers :: "Connection \<Rightarrow> nat" where
  "live_handlers c = length (filter (\<lambda>h. h \<noteq> HReturned) (cn_handlers c))"

section \<open>Publisher\<close>

text \<open>\<^verbatim>\<open>Message\<close> of the package: the payload is any value the caller passes.\<close>

record PubMessage =
  pm_ID :: string
  pm_TenantID :: string
  pm_Payload :: json
  pm_Timestamp :: int

definition publishing :: "string \<Rightarrow> PubMessage \<Rightarrow> string \<Rightarrow> Publishing" where
  "publishing tenantID message body =
     \<lparr>pb_ContentType = ''application/json'', pb_Body = body, pb_MessageId = [],
      pb_Headers = [''x-tenant-id'' \<mapsto> HString tenantID, ''x-message-id'' \<mapsto> HString (pm_ID message)]\<rparr>"

definition Publish ::
  "(PubMessage \<Rightarrow> string res) \<Rightarrow> 'w amqp \<Rightarrow> string \<Rightarrow> PubMessage \<Rightarrow> 'w \<times> Connection
     \<Rightarrow> (('w \<times> Connection) \<times> unit res) option" where
  "Publish marshal am tenantID message s =
     (case NewChannel am s of
        None \<Rightarrow> None
      | Some (s1, Inl e) \<Rightarrow> Some (s1, Inl (Wrapf ''failed to get channel: '' e))
      | Some ((w1, c1), Inr ch) \<Rightarrow>
          (case marshal message of
             Inl e \<Rightarrow> Some ((am_Close am ch w1, c1), Inl (Wrapf ''failed to marshal message: '' e))
           | Inr body \<Rightarrow>
               (case am_Publish am ch [] (main_queue_name tenantID) False False
                       (publishing tenantID message body) w1 of
                  (w2, Inl e) \<Rightarrow> Some ((am_Close am ch w2, c1), Inl (Wrapf ''failed to publish message: '' e))
                | (w2, Inr _) \<Rightarrow> Some ((am_Close am ch w2, c1), Inr ()))))"

text \<open>The loop of \<^verbatim>\<open>PublishBatch\<close>; an error rolls the transaction back.\<close>

fun batch_loop ::
  "(PubMessage \<Rightarrow> string res) \<Rightarrow> 'w amqp \<Rightarrow> nat \<Rightarrow> string \<Rightarrow> PubMessage list \<Rightarrow> 'w \<Rightarrow> 'w \<times> unit res" where
  "batch_loop marshal am ch tenantID [] w = (w, Inr ())"
| "batch_loop marshal am ch tenantID (message # msgs) w =
     (case marshal message of
        Inl e \<Rightarrow> (am_TxRollback am ch w, Inl (Wrapf ''failed to marshal message: '' e))
      | Inr body \<Rightarrow>
          (case am_Publish am ch [] (main_queue_name tenantID) False False
                  (publishing tenantID message body) w of
             (w1, Inl e) \<Rightarrow> (am_TxRollback am ch w1, Inl (Wrapf ''failed to publish message: '' e))
           | (w1, Inr _) \<Rightarrow> batch_loop marshal am ch tenantID msgs w1))"

definition PublishBatch ::
  "(PubMessage \<Rightarrow> string res) \<Rightarrow> 'w amqp \<Rightarrow> string \<Rightarrow> PubMessage list \<Rightarrow> 'w \<times> Connection
     \<Rightarrow> (('w \<times> Connection) \<times> unit res) option" where
  "PublishBatch marshal am tenantID msgs s =
     (case NewChannel am s of
        None \<Rightarrow> None
      | Some (s1, Inl e) \<Rightarrow> Some (s1, Inl (Wrapf ''failed to get channel: '' e))
      | Some ((w1, c1), Inr ch) \<Rightarrow>
          (case am_Tx am ch w1 of
             (w2, Inl e) \<Rightarrow> Some ((am_Close am ch w2, c1), Inl (Wrapf ''failed to start transaction: '' e))
           | (w2, Inr _) \<Rightarrow>
               (case batch_loop marshal am ch tenantID msgs w2 of
                  (w3, Inl e) \<Rightarrow> Some ((am_Close am ch w3, c1), Inl e)
                | (w3, Inr _) \<Rightarrow>
                    (case am_TxCommit am ch w3 of
                       (w4, Inl e) \<Rightarrow> Some ((am_Close am ch w4, c1), Inl (Wrapf ''failed to commit transaction: '' e))
                     | (w4, Inr _) \<Rightarrow> Some ((am_Close am ch w4, c1), Inr ())))))"

section \<open>Lemmas\<close>

lemma Connect_cases:
  assumes "\<not> cn_mu c"
  obtains (closed) "cn_closed c" "Connect am (w, c) = Some ((w, c), Inl err_conn_closed)"
  | (failed) w' e where "\<not> cn_closed c" "Connect am (w, c) = Some ((w', c), Inl e)"
  | (connected) w' conn ch where "\<not> cn_closed c"
      "Connect am (w, c) = Some ((w', c\<lparr>cn_conn := Some conn, cn_channel := Some ch,
         cn_handlers := cn_handlers c @ [HStart]\<rparr>), Inr ())"
proof (cases "cn_closed c")
  case True
  with assms show thesis by (intro closed) (simp_all add: Connect_def)
next
  case False
  obtain w1 r1 where d: "am_Dial am (cn_url c) w = (w1, r1)" by force
  show thesis
  proof (cases r1)
    case (Inl e)
    with False assms d show thesis by (intro failed) (simp_all add: Connect_def)
  next
    case (Inr conn)
    obtain w2 r2 where "am_Channel am conn w1 = (w2, r2)" by force
    with Inr False assms d show thesis
      by (cases r2) (auto intro: failed connected simp: Connect_def)
  qed
qed

lemma Connect_held: "cn_mu c \<Longrightarrow> Connect am (w, c) = None"
  by (simp add: Connect_def)

lemma live_handlers_snoc:
  "cn_handlers c' = cn_handlers c @ [HStart] \<Longrightarrow> live_handlers c' = Suc (live_handlers c)"
  by (simp add: live_handlers_def)

lemma live_handlers_update:
  assumes "i < length (cn_handlers c)" "cn_handlers c ! i \<noteq> HReturned"
  shows "live_handlers (c\<lparr>cn_handlers := (cn_handlers c)[i := h]\<rparr>) + (if h = HReturned then 1 else 0) =
    live_handlers c"
proof -
  let ?l = "\<lambda>hs. length (filter (\<lambda>h. h \<noteq> HReturned) hs)"
  have "?l (cn_handlers c) = ?l (take i (cn_handlers c)) + 1 + ?l (drop (Suc i) (cn_handlers c))"
    using assms by (subst id_take_nth_drop [OF assms(1)]) simp
  moreover have "?l ((cn_handlers c)[i := h]) =
      ?l (take i (cn_handlers c)) + (if h = HReturned then 0 else 1) + ?l (drop (Suc i) (cn_handlers c))"
    using assms(1) by (simp add: upd_conv_take_nth_drop)
  ultimately show ?thesis by (simp add: live_handlers_def)
qed

fun gave_up :: "nat \<times> handler_label \<Rightarrow> nat" where
  "gave_up (i, Woke (Inl e)) = 1"
| "gave_up (i, ReconnectClosed) = 1"
| "gave_up l = 0"

lemma handleReconnect_live:
  assumes "handleReconnect am s l s'" "\<not> cn_mu (snd s)"
  shows "\<not> cn_mu (snd s') \<and> live_handlers (snd s') + gave_up l = live_handlers (snd s)"
  using assms
proof (induction rule: handleReconnect.induct)
  case (wakes i c w s' r)
  let ?c = "c\<lparr>cn_handlers := (cn_handlers c)[i := HReturned]\<rparr>"
  have l: "live_handlers ?c + 1 = live_handlers c"
    using live_handlers_update [OF wakes(1), of HReturned] wakes(2) by simp
  have "\<not> cn_mu ?c" using wakes(4) by simp
  then show ?case
  proof (cases rule: Connect_cases [of ?c am w])
    case (connected w' conn ch)
    then have "r = Inr ()" "live_handlers (snd s') = Suc (live_handlers ?c)" "\<not> cn_mu (snd s')"
      using wakes(3,4) live_handlers_snoc [of "snd s'" ?c] by auto
    with l show ?thesis by simp
  qed (use wakes(3,4) l in auto)
next
  case (registers i c w)
  then show ?case using live_handlers_update [of i c "HWatching (cn_conn c)"] by simp
next
  case (error i c conn w e)
  then show ?case using live_handlers_update [of i c HSleeping] by simp
next
  case (stops i c conn w)
  then show ?case using live_handlers_update [of i c HReturned] by simp
qed simp

interpretation handlers: accounted_machine "handleReconnect am" "\<lambda>s. \<not> cn_mu (snd s)"
    "\<lambda>s. live_handlers (snd s)" "\<lambda>l. 0" gave_up for am
  using handleReconnect_live [of am] by unfold_locales simp_all

lemma no_live_handlers: "live_handlers c = 0 \<Longrightarrow> \<not> handleReconnect am (w, c) l s'"
  by (auto simp: live_handlers_def filter_empty_conv elim!: handleReconnectE dest!: nth_mem)

lemma NewChannel_returns:
  assumes "\<not> cn_mu c"
  shows "\<exists>s' r. NewChannel am (w, c) = Some (s', r)"
  by (cases rule: Connect_cases [OF assms, of am w])
    (use assms in \<open>simp_all add: NewChannel_def conn_down_def Let_def split: option.split prod.split\<close>)

lemma Close_returns:
  assumes "\<not> cn_mu c" "\<not> ch_closed (cn_reconnect c)"
  shows "\<exists>w' r. Close am (w, c) = Some (Returns ((w',
    c\<lparr>cn_closed := True, cn_reconnect := (cn_reconnect c)\<lparr>ch_closed := True\<rparr>\<rparr>), r))"
  using assms by (auto simp: Close_def Let_def chan_close_def split: option.splits prod.splits)

section \<open>Properties of the connection\<close>

text \<open>
  C37: \<^verbatim>\<open>Channel\<close> never returns exactly when no channel is cached and the connection is absent or
  down: it then calls \<^verbatim>\<open>Connect\<close> with the mutex held. \<^verbatim>\<open>NewChannel\<close>, which takes the mutex only to
  read, always returns.
\<close>

theorem Connection_Channel_deadlock:
  assumes "\<not> cn_mu c"
  shows "(Connection_Channel am (w, c) = None \<longleftrightarrow> cn_channel c = None \<and> conn_down am w (cn_conn c)) \<and>
    NewChannel am (w, c) \<noteq> None"
proof
  have "am_Channel am n w = (fst (am_Channel am n w), snd (am_Channel am n w))" for n by simp
  then show "Connection_Channel am (w, c) = None \<longleftrightarrow> cn_channel c = None \<and> conn_down am w (cn_conn c)"
    using assms
    by (auto simp: Connection_Channel_def Connect_held conn_down_def Let_def
        split: option.splits prod.splits sum.splits)
  show "NewChannel am (w, c) \<noteq> None"
    using NewChannel_returns [OF assms, of am w] by auto
qed

theorem Connection_Channel_deadlock_witness:
  "Connection_Channel mem_amqp (mem_empty, NewConnection ''amqp://localhost'') = None \<and>
   NewChannel mem_amqp (mem_empty, NewConnection ''amqp://localhost'') \<noteq> None"
  using Connection_Channel_deadlock [of "NewConnection ''amqp://localhost''" mem_amqp mem_empty]
  by (simp add: NewConnection_def conn_down_def)

text \<open>
  Closing. \<^verbatim>\<open>Close\<close> returns and the connection reports itself closed; from then on \<^verbatim>\<open>Connect\<close>
  is refused without dialling, \<^verbatim>\<open>NewChannel\<close> is refused once the broker's connection is down, and
  a second \<^verbatim>\<open>Close\<close> panics on the closed channel.
\<close>

lemma Close_is_final:
  assumes "\<not> cn_mu c" "\<not> ch_closed (cn_reconnect c)"
  shows "\<exists>w' c' r. Close am (w, c) = Some (Returns ((w', c'), r)) \<and> Connection_IsClosed c' \<and>
    (\<forall>v. Connect am (v, c') = Some ((v, c'), Inl err_conn_closed) \<and>
       (conn_down am v (cn_conn c') \<longrightarrow> NewChannel am (v, c') = Some ((v, c'), Inl err_conn_closed)) \<and>
       (\<exists>m. Close am (v, c') = Some (Panics m)))"
proof -
  let ?c = "c\<lparr>cn_closed := True, cn_reconnect := (cn_reconnect c)\<lparr>ch_closed := True\<rparr>\<rparr>"
  have "\<exists>w' r. Close am (w, c) = Some (Returns ((w', ?c), r))" by (rule Close_returns [OF assms])
  moreover have "Connect am (v, ?c) = Some ((v, ?c), Inl err_conn_closed)" for v
    using assms by (simp add: Connect_def)
  moreover have "\<exists>m. Close am (v, ?c) = Some (Panics m)" for v
    using assms by (simp add: Close_def chan_close_def)
  ultimately show ?thesis
    using assms(1) by (auto simp: Connection_IsClosed_def NewChannel_def Let_def)
qed

text \<open>
  C38: reconnection. Each handler goroutine connects at most once after an error, so a connection
  that has one handler loses it at the first failed attempt (or when it is closed): no handler
  is left and nothing reconnects any more. As long as every attempt succeeds there is exactly one.
\<close>

theorem reconnect_gives_up:
  assumes "\<not> cn_mu c" "live_handlers c = 1" "run (handleReconnect am) (w, c) ls (w', c')"
  shows "if \<exists>i e. (i, Woke (Inl e)) \<in> set ls \<or> (i, ReconnectClosed) \<in> set ls
    then live_handlers c' = 0 \<and> (\<forall>l s. \<not> handleReconnect am (w', c') l s)
    else live_handlers c' = 1"
proof -
  have b: "live_handlers c' + sum_list (map gave_up ls) = 1"
    using handlers.run_balance [OF assms(3)] assms(1,2) by (simp add: sum_list_0)
  show ?thesis
  proof (cases "\<exists>i e. (i, Woke (Inl e)) \<in> set ls \<or> (i, ReconnectClosed) \<in> set ls")
    case True
    then obtain l where "l \<in> set ls" "gave_up l = 1" by fastforce
    then have "1 \<le> sum_list (map gave_up ls)"
      by (metis elem_le_sum_list in_set_conv_nth length_map nth_map)
    with b have "live_handlers c' = 0" by simp
    with True no_live_handlers [OF this, of am w'] show ?thesis by simp
  next
    case False
    have "gave_up l = 0" if "l \<in> set ls" for l
      using that False by (cases l rule: gave_up.cases) auto
    then have "sum_list (map gave_up ls) = 0" by (simp add: sum_list_nonneg_eq_0_iff)
    with b False show ?thesis by simp
  qed
qed


theorem reconnect_gives_up_witness:
  "\<exists>am :: mem_broker amqp. \<exists>c w' c' i e. live_handlers c = 1 \<and>
     run (handleReconnect am) (mem_empty, c)
       [(0, Registered), (0, ConnError (ErrorNew ''reset'')), (0, Woke (Inl e))] (w', c') \<and>
     live_handlers c' = 0 \<and> (\<forall>l s. \<not> handleReconnect am (w', c') l s)"
proof -
  let ?am = "mem_amqp\<lparr>am_Dial := \<lambda>url b. (b, Inl (ErrorNew ''refused''))\<rparr>"
  let ?c = "\<lambda>h. (NewConnection ''amqp://localhost'')\<lparr>cn_conn := Some 0, cn_channel := Some 0, cn_handlers := [h]\<rparr>"
  let ?e = "Wrapf ''failed to connect to RabbitMQ: '' (ErrorNew ''refused'')"
  let ?ls = "[(0, Registered), (0, ConnError (ErrorNew ''reset'')), (0, Woke (Inl ?e))]"
  have c: "\<not> cn_mu (?c h)" "live_handlers (?c HStart) = 1" "cn_handlers (?c h) = [h]" for h
    by (simp_all add: NewConnection_def live_handlers_def)
  have "handleReconnect ?am (mem_empty, ?c HStart) (0, Registered) (mem_empty, ?c (HWatching (Some 0)))"
    using handleReconnect.registers [of 0 "?c HStart" ?am mem_empty] by (simp add: NewConnection_def)
  moreover have "handleReconnect ?am (mem_empty, ?c (HWatching (Some 0))) (0, ConnError (ErrorNew ''reset''))
      (mem_empty, ?c HSleeping)"
    using handleReconnect.error [of 0 "?c (HWatching (Some 0))" 0 ?am mem_empty "ErrorNew ''reset''"] by simp
  moreover have "handleReconnect ?am (mem_empty, ?c HSleeping) (0, Woke (Inl ?e)) (mem_empty, ?c HReturned)"
    by (rule handleReconnect.wakes) (simp_all add: Connect_def NewConnection_def)
  ultimately have r: "run (handleReconnect ?am) (mem_empty, ?c HStart) ?ls (mem_empty, ?c HReturned)"
    by (blast intro: run_ConsI run_NilI)
  from reconnect_gives_up [OF c(1,2) r] have
    "live_handlers (?c HReturned) = 0 \<and> (\<forall>l s. \<not> handleReconnect ?am (mem_empty, ?c HReturned) l s)"
    by simp
  with c(2) r show ?thesis by blast
qed

section \<open>Publishing\<close>

text \<open>
  What AMQP promises of transactions, seen through the messages each queue received (\<open>recv\<close>, with
  no value for a queue that does not exist) and the publishings a channel in a transaction holds
  back (\<open>held\<close>, with no value outside a transaction): a commit that succeeds delivers them in
  order to their queues, a rollback and a failed publish deliver nothing, and neither does opening
  or closing a channel or a connection. Of a commit that fails nothing is said.
\<close>

type_synonym 'w recv = "'w \<Rightarrow> string \<Rightarrow> Publishing list option"
type_synonym 'w held = "nat \<Rightarrow> 'w \<Rightarrow> (string \<times> Publishing) list option"

definition delivered :: "(string \<times> Publishing) list \<Rightarrow> string \<Rightarrow> Publishing list option \<Rightarrow> Publishing list option" where
  "delivered kps q = map_option (\<lambda>ps. ps @ map snd (filter (\<lambda>kp. fst kp = q) kps))"

definition tx_lawful :: "'w amqp \<Rightarrow> 'w recv \<Rightarrow> 'w held \<Rightarrow> bool" where
  "tx_lawful am recv held \<longleftrightarrow>
     (\<forall>url w. recv (fst (am_Dial am url w)) = recv w) \<and>
     (\<forall>cn w. recv (fst (am_ConnClose am cn w)) = recv w) \<and>
     (\<forall>cn w. recv (fst (am_Channel am cn w)) = recv w) \<and>
     (\<forall>ch w. recv (am_Close am ch w) = recv w) \<and>
     (\<forall>ch w. recv (am_TxRollback am ch w) = recv w) \<and>
     (\<forall>ch w. recv (fst (am_Tx am ch w)) = recv w) \<and>
     (\<forall>ch w. \<not> isl (snd (am_Tx am ch w)) \<longrightarrow> held ch (fst (am_Tx am ch w)) = Some []) \<and>
     (\<forall>ch k m i p w kps. held ch w = Some kps \<longrightarrow>
        recv (fst (am_Publish am ch [] k m i p w)) = recv w \<and>
        (\<not> isl (snd (am_Publish am ch [] k m i p w)) \<longrightarrow>
           held ch (fst (am_Publish am ch [] k m i p w)) = Some (kps @ [(k, p)]))) \<and>
     (\<forall>ch w kps q. held ch w = Some kps \<longrightarrow> \<not> isl (snd (am_TxCommit am ch w)) \<longrightarrow>
        recv (fst (am_TxCommit am ch w)) q = delivered kps q (recv w q))"

lemma tx_lawfulD:
  assumes "tx_lawful am recv held"
  shows "am_Dial am url w = (w', rn) \<Longrightarrow> recv w' = recv w"
    and "recv (fst (am_ConnClose am cn w)) = recv w"
    and "am_Channel am cn w = (w', rn) \<Longrightarrow> recv w' = recv w"
    and "recv (am_Close am ch w) = recv w"
    and "recv (am_TxRollback am ch w) = recv w"
    and "am_Tx am ch w = (w', r) \<Longrightarrow> recv w' = recv w"
    and "am_Tx am ch w = (w', Inr u) \<Longrightarrow> held ch w' = Some []"
    and "held ch w = Some kps \<Longrightarrow> am_Publish am ch [] k m i p w = (w', r) \<Longrightarrow> recv w' = recv w"
    and "held ch w = Some kps \<Longrightarrow> am_Publish am ch [] k m i p w = (w', Inr u) \<Longrightarrow> held ch w' = Some (kps @ [(k, p)])"
    and "held ch w = Some kps \<Longrightarrow> am_TxCommit am ch w = (w', Inr u) \<Longrightarrow> recv w' q = delivered kps q (recv w q)"
  using assms unfolding tx_lawful_def by (metis fst_conv snd_conv sum.disc(2))+

lemma Connect_recv:
  assumes "tx_lawful am recv held" "Connect am (w, c) = Some ((w', c'), r)"
  shows "recv w' = recv w"
  using assms(2)
  by (auto simp: Connect_def tx_lawfulD(2) [OF assms(1)] dest!: tx_lawfulD(1,3) [OF assms(1)]
      split: if_splits prod.splits sum.splits)

lemma NewChannel_recv:
  assumes "tx_lawful am recv held" "NewChannel am (w, c) = Some ((w', c'), r)"
  shows "recv w' = recv w"
  using assms(2)
  by (auto simp: NewChannel_def Let_def dest!: Connect_recv [OF assms(1)] tx_lawfulD(3) [OF assms(1)]
      split: if_splits option.splits prod.splits sum.splits)

text \<open>What a batch is to put on the tenant's queue.\<close>

definition batch_publishings :: "string \<Rightarrow> PubMessage list \<Rightarrow> string list \<Rightarrow> Publishing list" where
  "batch_publishings tid msgs bodies = map (\<lambda>(m, b). publishing tid m b) (zip msgs bodies)"

lemma batch_loop_held:
  assumes law: "tx_lawful am recv held"
  shows "held ch w = Some kps \<Longrightarrow> batch_loop marshal am ch tid msgs w = (w', r) \<Longrightarrow>
    recv w' = recv w \<and>
    (r = Inr () \<longrightarrow> (\<exists>bodies. map marshal msgs = map Inr bodies \<and>
       held ch w' = Some (kps @ map (Pair (main_queue_name tid)) (batch_publishings tid msgs bodies))))"
proof (induction msgs arbitrary: w kps)
  case Nil
  then show ?case by (simp add: batch_publishings_def)
next
  case (Cons m msgs)
  show ?case
  proof (cases "marshal m")
    case (Inl e)
    with Cons.prems tx_lawfulD(5) [OF law] show ?thesis by auto
  next
    case (Inr body)
    obtain w1 r1 where p: "am_Publish am ch [] (main_queue_name tid) False False (publishing tid m body) w = (w1, r1)"
      by force
    note w1 = tx_lawfulD(8) [OF law Cons.prems(1) p]
    show ?thesis
    proof (cases r1)
      case (Inl e)
      with Inr p Cons.prems tx_lawfulD(5) [OF law] w1 show ?thesis by auto
    next
      case (Inr u)
      with p have "held ch w1 = Some (kps @ [(main_queue_name tid, publishing tid m body)])"
        using tx_lawfulD(9) [OF law Cons.prems(1)] by simp
      from Cons.IH [OF this] Cons.prems(2) \<open>marshal m = Inr body\<close> p Inr w1
      have IH: "recv w' = recv w" "r = Inr () \<Longrightarrow> \<exists>bodies. map marshal msgs = map Inr bodies \<and>
          held ch w' = Some ((kps @ [(main_queue_name tid, publishing tid m body)]) @
            map (Pair (main_queue_name tid)) (batch_publishings tid msgs bodies))"
        by simp_all
      have "\<exists>bodies. map marshal (m # msgs) = map Inr bodies \<and>
          held ch w' = Some (kps @ map (Pair (main_queue_name tid)) (batch_publishings tid (m # msgs) bodies))"
        if "r = Inr ()"
      proof -
        from IH(2) [OF that] obtain bodies where "map marshal msgs = map Inr bodies"
          "held ch w' = Some ((kps @ [(main_queue_name tid, publishing tid m body)]) @
            map (Pair (main_queue_name tid)) (batch_publishings tid msgs bodies))" by auto
        then show ?thesis using \<open>marshal m = Inr body\<close>
          by (intro exI [of _ "body # bodies"]) (simp add: batch_publishings_def)
      qed
      with IH(1) show ?thesis by blast
    qed
  qed
qed

lemma delivered_same_queue: "delivered (map (Pair k) ps) q = map_option (\<lambda>xs. xs @ (if q = k then ps else []))"
  by (auto simp: delivered_def filter_map o_def fun_eq_iff)

lemma PublishBatch_effect:
  assumes "tx_lawful am recv held" "\<not> cn_mu c"
  shows "\<exists>w' c' r. PublishBatch marshal am tid msgs (w, c) = Some ((w', c'), r) \<and>
    (case r of
       Inr _ \<Rightarrow> \<exists>bodies. map marshal msgs = map Inr bodies \<and>
         (\<forall>q. recv w' q = map_option (\<lambda>ps. ps @ (if q = main_queue_name tid
            then batch_publishings tid msgs bodies else [])) (recv w q))
     | Inl e \<Rightarrow> recv w' = recv w \<or> (\<exists>e'. e = Wrapf ''failed to commit transaction: '' e'))"
proof -
  note law = tx_lawfulD [OF assms(1)]
  obtain w1 c1 r1 where n: "NewChannel am (w, c) = Some ((w1, c1), r1)"
    using NewChannel_returns [OF assms(2), of am w] by auto
  note w1 = NewChannel_recv [OF assms(1) n]
  show ?thesis
  proof (cases r1)
    case (Inl e)
    with n w1 show ?thesis by (simp add: PublishBatch_def)
  next
    case (Inr ch)
    obtain w2 r2 where t: "am_Tx am ch w1 = (w2, r2)" by force
    obtain w3 r3 where b: "batch_loop marshal am ch tid msgs w2 = (w3, r3)" by force
    obtain w4 r4 where k: "am_TxCommit am ch w3 = (w4, r4)" by force
    show ?thesis
    proof (cases r2)
      case (Inl e)
      with n w1 \<open>r1 = Inr ch\<close> t law(4,6) show ?thesis by (simp add: PublishBatch_def)
    next
      case (Inr u)
      with t have h: "held ch w2 = Some []" using law(7) by simp
      note L = batch_loop_held [OF assms(1) h b]
      have w3: "recv w3 = recv w" using L w1 law(6) [OF t] by simp
      show ?thesis
      proof (cases r3)
        case (Inl e)
        with n t b \<open>r1 = Inr ch\<close> \<open>r2 = Inr u\<close> w3 law(4) show ?thesis by (simp add: PublishBatch_def)
      next
        case (Inr u3)
        then obtain bodies where B: "map marshal msgs = map Inr bodies"
          "held ch w3 = Some (map (Pair (main_queue_name tid)) (batch_publishings tid msgs bodies))"
          using L by auto
        show ?thesis
        proof (cases r4)
          case (Inl e)
          with n t b k \<open>r1 = Inr ch\<close> \<open>r2 = Inr u\<close> \<open>r3 = Inr u3\<close> show ?thesis by (simp add: PublishBatch_def)
        next
          case (Inr u4)
          with k law(10) [OF B(2)] w3 have "recv w4 q = map_option (\<lambda>ps. ps @ (if q = main_queue_name tid
              then batch_publishings tid msgs bodies else [])) (recv w q)" for q
            by (simp add: delivered_same_queue)
          with B(1) n t b k \<open>r1 = Inr ch\<close> \<open>r2 = Inr u\<close> \<open>r3 = Inr u3\<close> Inr law(4) show ?thesis
            by (auto simp: PublishBatch_def)
        qed
      qed
    qed
  qed
qed

text \<open>
  C20: publishing a batch is all or nothing. The call returns; on success the tenant's queue
  received exactly the batch, in order, behind what it had, and no other queue received anything;
  on failure no queue received anything, unless it was the commit itself that failed.
\<close>

theorem PublishBatch_atomic:
  assumes "tx_lawful am recv held" "\<not> cn_mu c"
  shows "\<exists>w' c' r. PublishBatch marshal am tid msgs (w, c) = Some ((w', c'), r) \<and>
    (case r of
       Inr _ \<Rightarrow> \<exists>bodies. map marshal msgs = map Inr bodies \<and>
         (\<forall>q. recv w' q = map_option (\<lambda>ps. ps @ (if q = main_queue_name tid
            then batch_publishings tid msgs bodies else [])) (recv w q))
     | Inl e \<Rightarrow> recv w' = recv w \<or> (\<exists>e'. e = Wrapf ''failed to commit transaction: '' e'))"
  by (rule PublishBatch_effect [OF assms])

text \<open>The broker in memory obeys the laws of transactions.\<close>

definition mem_recv :: "mem_broker recv" where
  "mem_recv b q = (if queues (mb_topology b) q = None then None else Some (mb_messages b q))"

lemma mem_deliver_topology [simp]:
  "mb_topology (mem_deliver k p b) = mb_topology b" "mb_tx (mem_deliver k p b) = mb_tx b"
  by (simp_all add: mem_deliver_def)

lemma mem_recv_deliver: "mem_recv (mem_deliver k p b) q = delivered [(k, p)] q (mem_recv b q)"
  by (simp add: mem_recv_def delivered_def mem_deliver_def)

lemma delivered_append: "delivered ys q (delivered xs q z) = delivered (xs @ ys) q z"
  by (cases z) (simp_all add: delivered_def)

lemma mem_recv_fold:
  "mem_recv (fold (\<lambda>(k, p). mem_deliver k p) kps b) q = delivered kps q (mem_recv b q)"
proof (induction kps arbitrary: b)
  case Nil
  then show ?case by (cases "mem_recv b q") (simp_all add: delivered_def)
next
  case (Cons kp kps)
  then show ?case using delivered_append [of kps q "[kp]"]
    by (cases kp) (simp add: mem_recv_deliver)
qed

lemma mem_recv_cong:
  "mb_topology b' = mb_topology b \<Longrightarrow> mb_messages b' = mb_messages b \<Longrightarrow> mem_recv b' = mem_recv b"
  by (simp add: mem_recv_def fun_eq_iff)

lemma mem_amqp_tx_lawful: "tx_lawful mem_amqp mem_recv (\<lambda>ch. mb_tx)"
proof -
  have "mem_recv (b\<lparr>mb_tx := x\<rparr>) = mem_recv b" "mem_recv (b\<lparr>mb_next := n\<rparr>) = mem_recv b" for b x n
    by (simp_all add: mem_recv_def fun_eq_iff)
  then show ?thesis
    by (simp add: tx_lawful_def mem_amqp_def mem_recv_fold)
qed

definition sample_pub :: "string \<Rightarrow> PubMessage" where
  "sample_pub i = \<lparr>pm_ID = i, pm_TenantID = uuid_b, pm_Payload = JNull, pm_Timestamp = 0\<rparr>"

definition sample_broker :: mem_broker where
  "sample_broker = mem_empty\<lparr>mb_topology := (mb_topology mem_empty)
     \<lparr>queues := [main_queue_name uuid_b \<mapsto> Map.empty]\<rparr>\<rparr>"

theorem PublishBatch_atomic_witness:
  "\<exists>w' c'. PublishBatch (\<lambda>m. Inr (pm_ID m)) mem_amqp uuid_b [sample_pub uuid_a, sample_pub uuid_c]
       (sample_broker, NewConnection ''amqp://localhost'') = Some ((w', c'), Inr ()) \<and>
     mem_recv w' (main_queue_name uuid_b) =
       Some (batch_publishings uuid_b [sample_pub uuid_a, sample_pub uuid_c]
         [pm_ID (sample_pub uuid_a), pm_ID (sample_pub uuid_c)])"
proof -
  have mu: "\<not> cn_mu (NewConnection ''amqp://localhost'')" by (simp add: NewConnection_def)
  have "\<exists>s. PublishBatch (\<lambda>m. Inr (pm_ID m)) mem_amqp uuid_b [sample_pub uuid_a, sample_pub uuid_c]
       (sample_broker, NewConnection ''amqp://localhost'') = Some (s, Inr ())"
    by (simp add: PublishBatch_def NewChannel_def Connect_def conn_down_def mem_amqp_def NewConnection_def)
  moreover have "mem_recv sample_broker (main_queue_name uuid_b) = Some []"
    by (simp add: mem_recv_def sample_broker_def mem_empty_def)
  ultimately show ?thesis
    using PublishBatch_atomic [OF mem_amqp_tx_lawful mu, of "\<lambda>m. Inr (pm_ID m)" uuid_b
        "[sample_pub uuid_a, sample_pub uuid_c]" sample_broker] by auto
qed

end
