(* ===== verification/Program.thy ===== *)
theory Program
  imports Routes Config
begin

text \<open>
  What \<^verbatim>\<open>cmd/api/main.go\<close> puts together between the start and the shutdown: the services and the
  middleware with the secret of the configuration, the address the server listens on, how the program ends, and a
  sequence of requests served one after the other.
\<close>

definition wire ::
  "'w amqp \<Rightarrow> go_json \<Rightarrow> go_crypto \<Rightarrow> pg_server \<Rightarrow> go_time \<Rightarrow> (string \<Rightarrow> bool) \<Rightarrow> fiber \<Rightarrow> Config \<Rightarrow> 'w deps" where
  "wire am js cr pg tm uuid_Parse fb cfg =
     \<lparr>dp_amqp = am, dp_js = js, dp_crypto = cr, dp_pg = pg, dp_time = tm, dp_uuid_Parse = uuid_Parse, dp_fiber = fb,
      dp_auth = \<lparr>as_jwtSecret = cf_JWTSecret cfg, as_jwtExpiry = cf_JWTExpiry cfg\<rparr>\<rparr>"

definition listen_address :: "Config \<Rightarrow> string" where
  "listen_address cfg = (let port = (if cf_Port cfg = [] then ''8080'' else cf_Port cfg) in '':'' @ port)"

text \<open>
  \<^verbatim>\<open>main\<close> while the server runs: either \<^verbatim>\<open>app.Listen\<close> fails, in its goroutine, and \<^verbatim>\<open>log.Fatalf\<close> ends the
  program as it is, without the consumers' shutdown and without the deferred calls; or a signal arrives, and the shutdown
  follows. The first component is the text of the fatal error.
\<close>

datatype main_event = Listen_failed go_error | Signalled

definition listening ::
  "'w amqp \<Rightarrow> main_event \<Rightarrow> ('w \<times> Manager) \<times> Connection
     \<Rightarrow> (string option \<times> (('w \<times> Manager) \<times> Connection) \<times> TenantConsumer list) outcome option" where
  "listening am ev s =
     (case ev of
        Listen_failed e \<Rightarrow> Some (Returns (Some (''Failed to start server: '' @ Error e), s, []))
      | Signalled \<Rightarrow>
          (case shutdown am s of
             None \<Rightarrow> None
           | Some (Panics m) \<Rightarrow> Some (Panics m)
           | Some (Returns (s', cs)) \<Rightarrow> Some (Returns (None, s', cs))))"

text \<open>Requests in sequence; after a panic the state is not followed further.\<close>

fun serve_all :: "'w deps \<Rightarrow> (req_env \<times> Request) list \<Rightarrow> 'w app \<Rightarrow> 'w app option \<times> http list" where
  "serve_all dp [] s = (Some s, [])"
| "serve_all dp ((env, rq) # rqs) s =
     (case serve dp env rq s of
        (None, h) \<Rightarrow> (None, [h])
      | (Some s', h) \<Rightarrow> (let (x, hs) = serve_all dp rqs s' in (x, h # hs)))"

lemma wire_simps [simp]:
  "dp_pg (wire am js cr pg tm up fb cfg) = pg" "dp_fiber (wire am js cr pg tm up fb cfg) = fb"
  "dp_crypto (wire am js cr pg tm up fb cfg) = cr"
  "as_jwtSecret (dp_auth (wire am js cr pg tm up fb cfg)) = cf_JWTSecret cfg"
  by (simp_all add: wire_def)

lemma serve_all_good:
  "app_ok (dp_pg dp) s \<Longrightarrow> fiber_lawful (dp_fiber dp) \<Longrightarrow>
     \<exists>s' hs. serve_all dp rqs s = (Some s', hs) \<and> length hs = length rqs \<and> list_all response_ok hs \<and> app_ok (dp_pg dp) s'"
proof (induction rqs arbitrary: s)
  case (Cons rq rqs)
  obtain env q where rq: "rq = (env, q)" by force
  from serve_good [OF Cons.prems] obtain s1 h where
    s1: "serve dp env q s = (Some s1, h)" "app_ok (dp_pg dp) s1" "response_ok h" by blast
  from Cons.IH [OF s1(2) Cons.prems(2)] s1 show ?case by (auto simp: rq)
qed simp

end
