(* ===== verification/System.thy ===== *)
theory System
  imports Http
begin

text \<open>
  The running program: the HTTP requests that change something, the manager, every consumer with
  its pool, and the database, as one labelled step relation. A request that makes two calls (a
  statement, then a call of the manager) is two steps, with other steps in between; a consumer
  that was stopped goes on until its goroutines have returned; a worker that has an item in hand
  may run any of the statements of \<^verbatim>\<open>processWork\<close> for it, under any fault.
\<close>

section \<open>Statements of a worker\<close>

datatype stmt =
    Upsert_processing time int
  | Set_completed time
  | Insert_dead_letter time string int
  | Set_failed time

fun run_stmt :: "pg_server \<Rightarrow> WorkItem \<Rightarrow> stmt \<Rightarrow> db \<Rightarrow> db \<times> unit res" where
  "run_stmt pg x (Upsert_processing now n) =
     sql_upsert_processing pg now (wi_MessageID x) (wi_TenantID x) (wi_Payload x) n"
| "run_stmt pg x (Set_completed now) = sql_set_status pg now ''completed'' (wi_MessageID x) (wi_TenantID x)"
| "run_stmt pg x (Insert_dead_letter now why n) =
     sql_insert_dead_letter pg now (wi_MessageID x) (wi_TenantID x) (wi_Payload x) why n"
| "run_stmt pg x (Set_failed now) = sql_set_status pg now ''failed'' (wi_MessageID x) (wi_TenantID x)"

section \<open>One consumer and the database\<close>

datatype consumer_label =
    Arrives Delivery ack_call
  | Works pool_label
  | Issues WorkItem stmt fault

inductive consumer_step ::
  "go_json \<Rightarrow> pg_server \<Rightarrow> TenantConsumer \<times> db \<Rightarrow> consumer_label \<Rightarrow> TenantConsumer \<times> db \<Rightarrow> bool"
  for js pg where
  arrives: "processMessage js pick ack c dv = (c', [a], r) \<Longrightarrow> consumer_step js pg (c, d) (Arrives dv a) (c', d)"
| works: "worker_label l \<Longrightarrow> pool_step (tc_WorkerPool c) l wp \<Longrightarrow>
     consumer_step js pg (c, d) (Works l) (c\<lparr>tc_WorkerPool := wp\<rparr>, d)"
| issues: "x \<in> set (in_hand (tc_WorkerPool c)) \<Longrightarrow>
     consumer_step js pg (c, d) (Issues x st flt) (c, fst (with_fault flt (run_stmt pg x st) d))"

section \<open>The system\<close>

text \<open>
  A request between its statement and its call of the manager, and within \<^verbatim>\<open>UpdateConcurrency\<close>, which
  looks the consumer up under the mutex and resizes its pool without it: \<open>Pend_apply\<close> has found the consumer
  that is registered under a key, \<open>Pend_late\<close> one that was stopped since, by its place among the stopping ones.
\<close>

datatype pending =
    Pend_spawn string int | Pend_stop string | Pend_resize string int
  | Pend_apply string int | Pend_late nat int

record 'w system =
  sy_mgr :: "'w \<times> Manager"
  sy_db :: db
  sy_stopping :: "(string \<times> TenantConsumer) list"
  sy_pending :: "pending multiset"

datatype sys_label =
    Req_create svc_env CreateTenantRequest "TenantResponse res"
  | Req_delete svc_env string "unit res"
  | Req_update svc_env string int "TenantResponse res"
  | Do_spawn string int "unit res"
  | Do_stop string "unit res"
  | Do_lookup string int
  | Do_resize string int "unit res"
  | Req_message svc_env CreateMessageRequest
  | Req_user auth_env string string string string
  | At string consumer_label
  | Shut_down

definition spawn_next :: "TenantResponse res \<Rightarrow> pending multiset" where
  "spawn_next r = (case r of Inl _ \<Rightarrow> {#} | Inr t \<Rightarrow> {#Pend_spawn (tr_ID t) (tr_Workers t)#})"

definition next_call :: "'a res \<Rightarrow> pending \<Rightarrow> pending multiset" where
  "next_call r p = (case r of Inl _ \<Rightarrow> {#} | Inr _ \<Rightarrow> {#p#})"

definition stopped :: "string \<Rightarrow> Manager \<Rightarrow> (string \<times> TenantConsumer) list" where
  "stopped t mg = (case map_of (mg_consumers mg) t of None \<Rightarrow> [] | Some c \<Rightarrow> [(t, closed_consumer c)])"

text \<open>Consumers that stop: the resizes that have found one of them will reach it where it is now.\<close>

definition retarget :: "(string \<rightharpoonup> nat) \<Rightarrow> pending \<Rightarrow> pending" where
  "retarget f p =
     (case p of
        Pend_apply t n \<Rightarrow> (case f t of Some i \<Rightarrow> Pend_late i n | None \<Rightarrow> p)
      | _ \<Rightarrow> p)"

definition stop_consumers :: "(string \<times> TenantConsumer) list \<Rightarrow> 'w system \<Rightarrow> 'w system" where
  "stop_consumers xs s =
     s\<lparr>sy_stopping := sy_stopping s @ xs,
       sy_pending := image_mset (retarget (map_of (zip (map fst xs)
         [length (sy_stopping s) ..< length (sy_stopping s) + length xs]))) (sy_pending s)\<rparr>"

definition resize_pool :: "int \<Rightarrow> TenantConsumer \<Rightarrow> TenantConsumer" where
  "resize_pool k c = c\<lparr>tc_WorkerPool := Resize k (tc_WorkerPool c)\<rparr>"

inductive sys_step ::
  "'w amqp \<Rightarrow> go_json \<Rightarrow> go_crypto \<Rightarrow> pg_server \<Rightarrow> go_time \<Rightarrow> 'w system \<Rightarrow> sys_label \<Rightarrow> 'w system \<Rightarrow> bool"
  for am js cr pg tm where
  create: "CreateTenant pg tm env req (sy_db s) = (d', r) \<Longrightarrow>
     sys_step am js cr pg tm s (Req_create env req r)
       (s\<lparr>sy_db := d', sy_pending := sy_pending s + spawn_next r\<rparr>)"
| delete: "DeleteTenant pg env t (sy_db s) = (d', ru) \<Longrightarrow>
     sys_step am js cr pg tm s (Req_delete env t ru)
       (s\<lparr>sy_db := d', sy_pending := sy_pending s + next_call ru (Pend_stop t)\<rparr>)"
| update: "TenantService_UpdateConcurrency pg tm env t n (sy_db s) = (d', r) \<Longrightarrow>
     sys_step am js cr pg tm s (Req_update env t n r)
       (s\<lparr>sy_db := d', sy_pending := sy_pending s + next_call r (Pend_resize t n)\<rparr>)"
| spawn: "Pend_spawn t n \<in># sy_pending s \<Longrightarrow> SpawnConsumer am t n (sy_mgr s) = Returns (m', ru) \<Longrightarrow>
     sys_step am js cr pg tm s (Do_spawn t n ru)
       (s\<lparr>sy_mgr := m', sy_pending := sy_pending s - {#Pend_spawn t n#}\<rparr>)"
| stop: "Pend_stop t \<in># sy_pending s \<Longrightarrow> StopConsumer am t (sy_mgr s) = Returns (m', ru) \<Longrightarrow>
     sys_step am js cr pg tm s (Do_stop t ru)
       (stop_consumers (stopped t (snd (sy_mgr s))) (s\<lparr>sy_mgr := m', sy_pending := sy_pending s - {#Pend_stop t#}\<rparr>))"
| lookup: "Pend_resize t n \<in># sy_pending s \<Longrightarrow> GetConsumer t (snd (sy_mgr s)) = Some c \<Longrightarrow>
     sys_step am js cr pg tm s (Do_lookup t n)
       (s\<lparr>sy_pending := sy_pending s - {#Pend_resize t n#} + {#Pend_apply t n#}\<rparr>)"
| lookup_fails: "Pend_resize t n \<in># sy_pending s \<Longrightarrow> UpdateConcurrency t n (sy_mgr s) = Returns (m', Inl e) \<Longrightarrow>
     sys_step am js cr pg tm s (Do_resize t n (Inl e)) (s\<lparr>sy_pending := sy_pending s - {#Pend_resize t n#}\<rparr>)"
| resize: "Pend_apply t n \<in># sy_pending s \<Longrightarrow> UpdateConcurrency t n (sy_mgr s) = Returns (m', ru) \<Longrightarrow>
     sys_step am js cr pg tm s (Do_resize t n ru)
       (s\<lparr>sy_mgr := m', sy_pending := sy_pending s - {#Pend_apply t n#}\<rparr>)"
| resize_late: "Pend_late i n \<in># sy_pending s \<Longrightarrow> i < length (sy_stopping s) \<Longrightarrow> sy_stopping s ! i = (t, c) \<Longrightarrow>
     sys_step am js cr pg tm s (Do_resize t n (Inr ()))
       (s\<lparr>sy_stopping := (sy_stopping s)[i := (t, resize_pool (clamp_update (snd (sy_mgr s)) n) c)],
          sy_pending := sy_pending s - {#Pend_late i n#}\<rparr>)"
| message: "CreateMessage pg js tm env mreq (sy_db s) = (d', rm) \<Longrightarrow>
     sys_step am js cr pg tm s (Req_message env mreq) (s\<lparr>sy_db := d'\<rparr>)"
| user: "UserRepository_Create cr pg aenv un pw t role (sy_db s) = (d', rus) \<Longrightarrow>
     sys_step am js cr pg tm s (Req_user aenv un pw t role) (s\<lparr>sy_db := d'\<rparr>)"
| at_registered: "map_of (mg_consumers (snd (sy_mgr s))) t = Some c \<Longrightarrow>
     consumer_step js pg (c, sy_db s) cl (c', d') \<Longrightarrow>
     sys_step am js cr pg tm s (At t cl)
       (s\<lparr>sy_mgr := (fst (sy_mgr s), update_consumer t (\<lambda>_. c') (snd (sy_mgr s))), sy_db := d'\<rparr>)"
| at_stopping: "i < length (sy_stopping s) \<Longrightarrow> sy_stopping s ! i = (t, c) \<Longrightarrow>
     consumer_step js pg (c, sy_db s) cl (c', d') \<Longrightarrow>
     sys_step am js cr pg tm s (At t cl) (s\<lparr>sy_stopping := (sy_stopping s)[i := (t, c')], sy_db := d'\<rparr>)"
| shut: "ShutdownAll am (sy_mgr s) = Returns (m', cs) \<Longrightarrow>
     sys_step am js cr pg tm s Shut_down
       (stop_consumers (zip (ListConsumers (snd (sy_mgr s))) cs) (s\<lparr>sy_mgr := m'\<rparr>))"

inductive_cases consumer_stepE: "consumer_step js pg s l s'"
inductive_cases sys_stepE: "sys_step am js cr pg tm s l s'"

text \<open>The program after its start.\<close>

definition sys_init :: "'w \<times> Manager \<Rightarrow> db \<Rightarrow> 'w system" where
  "sys_init m d = \<lparr>sy_mgr = m, sy_db = d, sy_stopping = [], sy_pending = {#}\<rparr>"

section \<open>Invariant\<close>

text \<open>A consumer, registered or stopping: its key is a canonical UUID, and so is every item's tenant.\<close>

definition owns :: "pg_server \<Rightarrow> string \<Rightarrow> TenantConsumer \<Rightarrow> bool" where
  "owns pg t c \<longleftrightarrow> uuid_in pg t = Some t \<and> tc_TenantID c = t \<and> pool_ok (tc_WorkerPool c) \<and>
     (\<forall>x \<in> set (queued (tc_WorkerPool c)) \<union> set (in_hand (tc_WorkerPool c)). wi_TenantID x = t)"

definition sys_ok :: "pg_server \<Rightarrow> 'w system \<Rightarrow> bool" where
  "sys_ok pg s \<longleftrightarrow> app_ok pg (sy_mgr s, sy_db s) \<and>
     (\<forall>kc \<in> set (mg_consumers (snd (sy_mgr s))) \<union> set (sy_stopping s). owns pg (fst kc) (snd kc)) \<and>
     (\<forall>t n. Pend_spawn t n \<in># sy_pending s \<longrightarrow> uuid_in pg t = Some t)"

lemma stop_consumers_frame [simp]:
  "sy_mgr (stop_consumers xs s) = sy_mgr s" "sy_db (stop_consumers xs s) = sy_db s"
  "sy_stopping (stop_consumers xs s) = sy_stopping s @ xs"
  by (simp_all add: stop_consumers_def)

lemma retarget_eq [simp]:
  "Pend_spawn t n = retarget f p \<longleftrightarrow> p = Pend_spawn t n" "Pend_stop t = retarget f p \<longleftrightarrow> p = Pend_stop t"
  by (auto simp: retarget_def split: pending.split option.split)

lemma stop_consumers_pending [simp]:
  "Pend_spawn t n \<in># sy_pending (stop_consumers xs s) \<longleftrightarrow> Pend_spawn t n \<in># sy_pending s"
  "Pend_stop t \<in># sy_pending (stop_consumers xs s) \<longleftrightarrow> Pend_stop t \<in># sy_pending s"
  by (auto simp: stop_consumers_def)

lemma stop_consumers_Nil [simp]: "stop_consumers [] s = s"
proof -
  have "retarget Map.empty = (\<lambda>p. p)" by (simp add: fun_eq_iff retarget_def split: pending.split)
  then show ?thesis by (simp add: stop_consumers_def)
qed

lemma set_items: "set xs \<union> set ys = set_mset (mset xs + mset ys)"
  by simp

lemma consumer_step_owns:
  assumes "consumer_step js pg (c, d) l (c', d')" "owns pg t c"
  shows "owns pg t c'"
  using assms(1)
proof cases
  case (arrives pick ack dv a r)
  from arrives(3) show ?thesis
  proof (cases rule: processMessage_cases)
    case (accepted m wp)
    have "wi_TenantID (item_of js (tc_TenantID c) dv) = t"
      using assms(2) by (auto simp: item_of_def owns_def split: sum.splits)
    then show ?thesis
      using assms(2) Submit_ok [OF _ accepted(2)] Submit_accounts [OF accepted(2)]
      unfolding owns_def set_items by (auto simp: accepted(3))
  qed (use assms(2) in simp_all)
next
  case (works pl wp)
  have "entered pl = []" using works(4) by (cases pl) simp_all
  then have "mset (queued wp) + mset (in_hand wp) \<subseteq># mset (queued (tc_WorkerPool c)) + mset (in_hand (tc_WorkerPool c))"
    using pool_step_balance [OF works(5)] by (metis mset_subset_eq_add_left mset_zero_iff add_0_right mset.simps(1))
  then show ?thesis
    using assms(2) pool_step_ok [OF _ works(5)] unfolding owns_def set_items
    by (auto simp: works(2) dest: mset_subset_eqD)
qed (use assms(2) in simp)

lemma consumer_step_ok:
  assumes "consumer_step js pg (c, d) l (c', d')" "consumer_ok mg t c"
  shows "consumer_ok mg t c'"
  using assms(1)
proof cases
  case (arrives pick ack dv a r)
  from arrives(3) show ?thesis
  proof (cases rule: processMessage_cases)
    case (accepted m wp)
    from accepted(2) have "wp_doneChan wp = wp_doneChan (tc_WorkerPool c) \<and>
        wp_tenantID wp = wp_tenantID (tc_WorkerPool c) \<and> wp_workers wp = wp_workers (tc_WorkerPool c)"
      by (cases rule: Submit_cases) simp_all
    then show ?thesis using assms(2) Submit_ok [OF _ accepted(2)]
      by (simp add: accepted(3) consumer_ok_def GetWorkerCount_def)
  qed (use assms(2) in simp_all)
next
  case (works pl wp)
  have "pool_internal pl" using works(4) by (cases pl) simp_all
  from pool_internal_frame [OF works(5) this] pool_step_ok [OF _ works(5)] assms(2) show ?thesis
    by (simp add: works(2) consumer_ok_def GetWorkerCount_def)
qed (use assms(2) in simp)

lemma run_stmt_ok: "uuid_lawful pg \<Longrightarrow> db_ok pg d \<Longrightarrow> db_ok pg (fst (run_stmt pg x st d))"
  by (cases st) (auto intro!: sql_ok simp: message_statuses_def)

lemma consumer_step_db_ok:
  "consumer_step js pg (c, d) l (c', d') \<Longrightarrow> uuid_lawful pg \<Longrightarrow> db_ok pg d \<Longrightarrow> db_ok pg d'"
  by (erule consumer_stepE) (auto intro: with_fault_keeps [where P = "db_ok pg"] run_stmt_ok)

text \<open>What each call of the manager does to the registry.\<close>

abbreviation consumers :: "'w \<times> Manager \<Rightarrow> (string \<times> TenantConsumer) list" where
  "consumers m \<equiv> mg_consumers (snd m)"

lemma spawn_consumers:
  assumes "SpawnConsumer am t n m = Returns (m', r)"
  shows "consumers m' = consumers m \<or> (\<exists>c. consumers m' = consumers m @ [(t, c)] \<and> tc_TenantID c = t \<and>
    pool_ok (tc_WorkerPool c) \<and> queued (tc_WorkerPool c) = [] \<and> in_hand (tc_WorkerPool c) = [])"
proof -
  obtain w mg where m: "m = (w, mg)" by force
  from assms have "consumers m' = consumers m \<or> (\<exists>c. consumers m' = consumers m @ [(t, c)] \<and>
      tc_TenantID c = t \<and> NewWorkerPool t (clamp_spawn mg n) (mg_maxRetry mg) = Returns (tc_WorkerPool c))"
    by (auto simp: SpawnConsumer_def m split: if_splits prod.splits sum.splits)
  then show ?thesis using NewWorkerPool_Returns(1-3) by blast
qed

lemma no_key: "map_of kcs t = None \<Longrightarrow> kc \<in> set kcs \<Longrightarrow> fst kc \<noteq> t"
  by (auto simp: map_of_eq_None_iff)

lemma stop_consumers:
  "StopConsumer am t m = Returns (m', r) \<Longrightarrow> consumers m' = filter (\<lambda>kc. fst kc \<noteq> t) (consumers m)"
  by (auto simp: StopConsumer_def remove_consumer_def dest: no_key
      split: prod.splits option.splits intro!: filter_True [symmetric])

definition resize_at :: "string \<Rightarrow> int \<Rightarrow> string \<times> TenantConsumer \<Rightarrow> string \<times> TenantConsumer" where
  "resize_at t k kc =
     (if fst kc = t then (fst kc, resize_pool k (snd kc)) else kc)"

lemma resize_consumers:
  assumes "UpdateConcurrency t n m = Returns (m', r)"
  shows "consumers m' = map (resize_at t (clamp_update (snd m) n)) (consumers m)"
proof (cases "map_of (consumers m) t")
  case None
  then have "map (resize_at t (clamp_update (snd m) n)) (consumers m) = consumers m"
    by (intro map_idI) (auto simp: resize_at_def dest: no_key)
  with assms None show ?thesis by (cases m) (auto simp: UpdateConcurrency_def)
next
  case (Some c)
  with assms show ?thesis
    by (cases m) (auto simp: UpdateConcurrency_def update_consumer_def resize_at_def resize_pool_def)
qed

lemma owns_closed: "owns pg t c \<Longrightarrow> owns pg t (closed_consumer c)"
  by (simp add: owns_def closed_consumer_def pool_ok_def)

lemma owns_resize: "owns pg t c \<Longrightarrow> owns pg t (resize_pool k c)"
  by (simp add: owns_def pool_ok_def resize_pool_def)

lemma update_consumer_const:
  "set (mg_consumers (update_consumer t (\<lambda>_. c') mg)) \<subseteq> insert (t, c') (set (mg_consumers mg))"
  by (auto simp: update_consumer_def)

lemma sys_step_db:
  assumes "sys_step am js cr pg tm s l s'" "uuid_lawful pg" "db_ok pg (sy_db s)"
  shows "db_ok pg (sy_db s')"
  using assms
proof (induction rule: sys_step.induct)
  case (create env req s d' r)
  then show ?case using service_ok(1) [of pg "sy_db s" tm env req] by simp
next
  case (delete env t s d' ru)
  then show ?case using service_ok(2) [of pg "sy_db s" env t] by simp
next
  case (update env t n s d' r)
  then show ?case using service_ok(3) [of pg "sy_db s" tm env t n] by simp
next
  case (message env mreq s d' rm)
  then show ?case using requests_ok(1) [of pg "sy_db s" js tm env mreq] by simp
next
  case (user aenv un pw t role s d' rus)
  then show ?case using requests_ok(2) [of pg "sy_db s" cr aenv un pw t role] by simp
qed (auto dest: consumer_step_db_ok)

lemma sys_step_world:
  assumes "sys_step am js cr pg tm s l s'" "world_ok (sy_mgr s)"
  shows "world_ok (sy_mgr s')"
  using assms
proof (induction rule: sys_step.induct)
  case (spawn t n s m' ru)
  then show ?case using manager.spawn_ok [of "sy_mgr s" am t n m' ru] by simp
next
  case (stop t s m' ru)
  then show ?case using manager.stop_total [of "sy_mgr s" am t] by auto
next
  case (resize t n s m' ru)
  then show ?case using manager.resize_total [of "sy_mgr s" t n] by auto
next
  case (at_registered s t c cl c' d')
  have "consumer_ok (snd (sy_mgr s)) t c'"
    using consumer_step_ok [OF at_registered(2)] mgr_okD [OF at_registered(3,1)] by simp
  with at_registered(3) show ?case by (auto intro: update_consumer_ok)
next
  case (shut s m' cs)
  then show ?case
    using ShutdownAll_contract [of "snd (sy_mgr s)" am "fst (sy_mgr s)"] mgr_ok_clear [of "snd (sy_mgr s)"] by auto
qed simp_all

text \<open>What holds of every consumer, registered or stopping, when no step of one can break it.\<close>

definition every :: "(string \<Rightarrow> TenantConsumer \<Rightarrow> bool) \<Rightarrow> 'w system \<Rightarrow> bool" where
  "every Q s \<longleftrightarrow> (\<forall>kc \<in> set (consumers (sy_mgr s)) \<union> set (sy_stopping s). Q (fst kc) (snd kc))"

lemma every_cong:
  "every Q s \<Longrightarrow> set (consumers (sy_mgr s')) \<union> set (sy_stopping s') \<subseteq>
     set (consumers (sy_mgr s)) \<union> set (sy_stopping s) \<union> {kc. Q (fst kc) (snd kc)} \<Longrightarrow> every Q s'"
  by (auto simp: every_def)

lemma every_registered: "every Q s \<Longrightarrow> map_of (consumers (sy_mgr s)) t = Some c \<Longrightarrow> Q t c"
  by (force simp: every_def dest: map_of_SomeD)

lemma every_stopping: "every Q s \<Longrightarrow> i < length (sy_stopping s) \<Longrightarrow> sy_stopping s ! i = (t, c) \<Longrightarrow> Q t c"
  using nth_mem [of i "sy_stopping s"] by (force simp: every_def)

lemma sys_step_every:
  assumes "sys_step am js cr pg tm s l s'" "mgr_ok (snd (sy_mgr s))" "every Q s"
    and close: "\<And>t c. Q t c \<Longrightarrow> Q t (closed_consumer c)"
    and resize: "\<And>t c k. Q t c \<Longrightarrow> Q t (resize_pool k c)"
    and step: "\<And>t c d cl c' d'. l = At t cl \<Longrightarrow> consumer_step js pg (c, d) cl (c', d') \<Longrightarrow> Q t c \<Longrightarrow> Q t c'"
    and spawn: "\<And>t n wp c. Pend_spawn t n \<in># sy_pending s \<Longrightarrow> tc_TenantID c = t \<Longrightarrow> pool_ok (tc_WorkerPool c) \<Longrightarrow>
      queued (tc_WorkerPool c) = [] \<Longrightarrow> in_hand (tc_WorkerPool c) = [] \<Longrightarrow> Q t c"
  shows "every Q s'"
proof -
  note q = assms(3)
  from assms(1) show ?thesis
  proof cases
    case (spawn t n m' ru)
    from spawn_consumers [OF spawn(4)] assms(7) [OF spawn(3)] show ?thesis
      by (intro every_cong [OF q]) (auto simp: spawn(2))
  next
    case (stop t m' ru)
    have "Q (fst kc) (snd kc)" if "kc \<in> set (stopped t (snd (sy_mgr s)))" for kc
      using that close every_registered [OF q] by (auto simp: stopped_def split: option.splits)
    then show ?thesis using stop_consumers [OF stop(4)] by (intro every_cong [OF q]) (auto simp: stop(2))
  next
    case (resize t n m' ru)
    have "Q (fst (resize_at t k kc)) (snd (resize_at t k kc))" if "kc \<in> set (consumers (sy_mgr s))" for k kc
      using q that by (auto simp: every_def resize_at_def intro: assms(5))
    then show ?thesis using resize(2) resize_consumers [OF resize(4)] by (intro every_cong [OF q]) auto
  next
    case (resize_late i n t c)
    have "Q t (resize_pool k c)" for k by (rule assms(5) [OF every_stopping [OF q resize_late(4,5)]])
    with set_update_subset_insert [of "sy_stopping s" i] show ?thesis
      by (intro every_cong [OF q]) (fastforce simp: resize_late(2))
  next
    case (at_registered t c cl c' d')
    have "Q t c'" by (rule step [OF at_registered(1,4) every_registered [OF q at_registered(3)]])
    then show ?thesis using update_consumer_const [of t c' "snd (sy_mgr s)"]
      by (intro every_cong [OF q]) (auto simp: at_registered(2))
  next
    case (at_stopping i t c cl c' d')
    have "Q t c'" by (rule step [OF at_stopping(1,5) every_stopping [OF q at_stopping(3,4)]])
    with set_update_subset_insert [of "sy_stopping s" i "(t, c')"] show ?thesis
      by (intro every_cong [OF q]) (auto simp: at_stopping(2))
  next
    case (shut m' cs)
    from ShutdownAll_contract [OF assms(2), of am "fst (sy_mgr s)"] shut(3)
    have cs: "cs = map closed_consumer (map snd (consumers (sy_mgr s)))" "consumers m' = []" by auto
    have "zip (ListConsumers (snd (sy_mgr s))) cs = map (\<lambda>kc. (fst kc, closed_consumer (snd kc))) (consumers (sy_mgr s))"
      by (simp add: cs(1) ListConsumers_def zip_map_map zip_same_conv_map)
    moreover have "Q (fst kc) (closed_consumer (snd kc))" if "kc \<in> set (consumers (sy_mgr s))" for kc
      using q that by (auto simp: every_def intro: close)
    ultimately show ?thesis by (intro every_cong [OF q]) (auto simp: shut(2) cs(2))
  qed (use q in \<open>auto simp: every_def\<close>)
qed

lemma sys_step_own:
  assumes "sys_step am js cr pg tm s l s'" "sys_ok pg s"
  shows "every (owns pg) s'"
proof (rule sys_step_every [OF assms(1)])
  show "mgr_ok (snd (sy_mgr s))" "every (owns pg) s" using assms(2) by (simp_all add: sys_ok_def app_ok_def every_def)
next
  fix t n and c :: TenantConsumer
  assume "Pend_spawn t n \<in># sy_pending s" "tc_TenantID c = t" "pool_ok (tc_WorkerPool c)"
    "queued (tc_WorkerPool c) = []" "in_hand (tc_WorkerPool c) = []"
  moreover from this have "uuid_in pg t = Some t" using assms(2) unfolding sys_ok_def by blast
  ultimately show "owns pg t c" by (simp add: owns_def)
qed (use consumer_step_owns owns_closed owns_resize in blast)+

lemma sys_step_pending:
  assumes "sys_step am js cr pg tm s l s'" "uuid_lawful pg" "db_ok pg (sy_db s)"
    and "\<forall>t n. Pend_spawn t n \<in># sy_pending s \<longrightarrow> uuid_in pg t = Some t"
  shows "\<forall>t n. Pend_spawn t n \<in># sy_pending s' \<longrightarrow> uuid_in pg t = Some t"
  using assms(1)
proof cases
  case (create env req d' r)
  have "uuid_in pg (tr_ID x) = Some (tr_ID x)" if "r = Inr x" for x
    using tenants.create_Inr [of pg "sy_db s" tm env req d' x] create(3) that assms(2,3) by simp
  then show ?thesis using assms(4) create(2) by (auto simp: spawn_next_def split: sum.splits)
qed (use assms(4) in \<open>auto simp: next_call_def dest: in_diffD split: sum.splits\<close>)

lemma sys_step_ok:
  assumes "sys_ok pg s" "sys_step am js cr pg tm s l s'"
  shows "sys_ok pg s'"
proof -
  have s: "uuid_lawful pg" "db_ok pg (sy_db s)" "world_ok (sy_mgr s)"
    "\<forall>t n. Pend_spawn t n \<in># sy_pending s \<longrightarrow> uuid_in pg t = Some t"
    using assms(1) by (simp_all add: sys_ok_def app_ok_def)
  from sys_step_db [OF assms(2) s(1,2)] sys_step_world [OF assms(2) s(3)]
    sys_step_own [OF assms(2,1)] sys_step_pending [OF assms(2) s(1,2,4)] s(1)
  show ?thesis by (simp add: sys_ok_def app_ok_def every_def)
qed

interpretation sys: machine "sys_step am js cr pg tm" "sys_ok pg" for am :: "'w amqp" and js cr pg tm
  by unfold_locales (rule sys_step_ok)

section \<open>What a tenant sees\<close>

text \<open>
  The part of the state that belongs to tenant \<open>u\<close>: its row, its messages, its dead letters, the
  accounts bound to it, its consumer with the pool, and its consumers that are stopping.
\<close>

record tenant_part =
  tp_row :: "tenant_row option"
  tp_messages :: "message_row list"
  tp_dead :: "dead_letter_row list"
  tp_users :: "user_row list"
  tp_consumer :: "TenantConsumer option"
  tp_stopping :: "(string \<times> TenantConsumer) list"

definition db_part :: "string \<Rightarrow> db \<Rightarrow> tenant_row option \<times> message_row list \<times> dead_letter_row list \<times> user_row list" where
  "db_part u d = (find_by t_id u (tenants d), filter (\<lambda>r. m_tenant_id r = u) (messages d),
     filter (\<lambda>r. d_tenant_id r = u) (dead_letter_messages d), filter (\<lambda>r. u_tenant_id r = Some u) (users d))"

definition part_of :: "string \<Rightarrow> 'w system \<Rightarrow> tenant_part" where
  "part_of u s = (let (row, ms, ds, us) = db_part u (sy_db s) in
     \<lparr>tp_row = row, tp_messages = ms, tp_dead = ds, tp_users = us,
      tp_consumer = map_of (consumers (sy_mgr s)) u, tp_stopping = filter (\<lambda>kc. fst kc = u) (sy_stopping s)\<rparr>)"

text \<open>The steps that concern a tenant: those whose identifier the server reads as that tenant's.\<close>

fun concerns :: "pg_server \<Rightarrow> string \<Rightarrow> sys_label \<Rightarrow> bool" where
  "concerns pg u (Req_create env req r) \<longleftrightarrow> uuid_in pg (se_uuid env) = Some u"
| "concerns pg u (Req_delete env t r) \<longleftrightarrow> uuid_in pg t = Some u"
| "concerns pg u (Req_update env t n r) \<longleftrightarrow> uuid_in pg t = Some u"
| "concerns pg u (Do_spawn t n r) \<longleftrightarrow> t = u"
| "concerns pg u (Do_stop t r) \<longleftrightarrow> t = u"
| "concerns pg u (Do_lookup t n) \<longleftrightarrow> t = u"
| "concerns pg u (Do_resize t n r) \<longleftrightarrow> t = u"
| "concerns pg u (Req_message env req) \<longleftrightarrow> uuid_in pg (cm_TenantID req) = Some u"
| "concerns pg u (Req_user env un pw t role) \<longleftrightarrow> uuid_in pg t = Some u"
| "concerns pg u (At t cl) \<longleftrightarrow> t = u"
| "concerns pg u Shut_down \<longleftrightarrow> True"

lemma find_by_append_other: "key r \<noteq> k \<Longrightarrow> find_by key k (rs @ [r]) = find_by key k rs"
  by (induction rs) (auto simp: find_by_def)

lemma filter_update_by_other:
  "(\<And>r. p (f r) = p r) \<Longrightarrow> (\<And>r. key r = k \<Longrightarrow> \<not> p r) \<Longrightarrow> filter p (update_by key k f rs) = filter p rs"
  by (induction rs) (auto simp: update_by_def)

lemma filter_set_null:
  "u \<noteq> t \<Longrightarrow> filter (\<lambda>r. u_tenant_id r = Some u)
     (map (\<lambda>r. if u_tenant_id r = Some t then r\<lparr>u_tenant_id := None, u_updated_at := now\<rparr> else r) rs) =
   filter (\<lambda>r. u_tenant_id r = Some u) rs"
  by (induction rs) auto

lemma sql_db_part:
  "uuid_in pg t \<noteq> Some u \<Longrightarrow> db_part u (fst (sql_insert_tenant pg now t name n d)) = db_part u d"
  "uuid_in pg t \<noteq> Some u \<Longrightarrow> db_part u (fst (sql_delete_tenant pg now t d)) = db_part u d"
  "uuid_in pg t \<noteq> Some u \<Longrightarrow> db_part u (fst (sql_update_concurrency pg now t n d)) = db_part u d"
  "uuid_in pg t \<noteq> Some u \<Longrightarrow> db_part u (fst (sql_insert_message pg now mid t p d)) = db_part u d"
  "uuid_in pg t \<noteq> Some u \<Longrightarrow> db_part u (fst (sql_upsert_processing pg now mid t p n d)) = db_part u d"
  "uuid_in pg t \<noteq> Some u \<Longrightarrow> db_part u (fst (sql_set_status pg now st mid t d)) = db_part u d"
  "uuid_in pg t \<noteq> Some u \<Longrightarrow> db_part u (fst (sql_insert_dead_letter pg now mid t p why n d)) = db_part u d"
  "uuid_in pg t \<noteq> Some u \<Longrightarrow> db_part u (fst (sql_insert_user pg now uid un h t role d)) = db_part u d"
  by (auto simp: db_part_def sql_insert_tenant_def sql_delete_tenant_def sql_update_concurrency_def
      sql_insert_message_def sql_upsert_processing_def sql_set_status_def sql_insert_dead_letter_def
      sql_insert_user_def Let_def find_by_append_other find_by_delete_by find_by_update_by
      filter_set_null split: option.split intro!: filter_update_by_other)

lemma run_stmt_part: "uuid_in pg (wi_TenantID x) \<noteq> Some u \<Longrightarrow> db_part u (fst (run_stmt pg x st d)) = db_part u d"
  by (cases st) (simp_all add: sql_db_part)

lemma with_fault_part:
  "db_part u (fst (f d)) = db_part u d \<Longrightarrow> db_part u (fst (with_fault flt f d)) = db_part u d"
  by (cases flt) (auto split: prod.splits sum.splits)

lemma request_part:
  "uuid_in pg (se_uuid env) \<noteq> Some u \<Longrightarrow> db_part u (fst (CreateTenant pg tm env req d)) = db_part u d"
  "uuid_in pg t \<noteq> Some u \<Longrightarrow> db_part u (fst (DeleteTenant pg env t d)) = db_part u d"
  "uuid_in pg t \<noteq> Some u \<Longrightarrow> db_part u (fst (TenantService_UpdateConcurrency pg tm env t n d)) = db_part u d"
  "uuid_in pg (cm_TenantID mreq) \<noteq> Some u \<Longrightarrow> db_part u (fst (CreateMessage pg js tm env mreq d)) = db_part u d"
  "uuid_in pg t \<noteq> Some u \<Longrightarrow> db_part u (fst (UserRepository_Create cr pg aenv un pw t role d)) = db_part u d"
  by (simp_all add: service_state CreateMessage_state UserRepository_Create_state with_fault_part sql_db_part
      split: sum.split)

lemma consumer_step_part:
  assumes "consumer_step js pg (c, d) l (c', d')" "owns pg t c" "t \<noteq> u"
  shows "db_part u d' = db_part u d"
  using assms(1)
proof cases
  case (issues x st flt)
  then have "uuid_in pg (wi_TenantID x) \<noteq> Some u" using assms(2,3) by (auto simp: owns_def)
  then show ?thesis by (simp add: issues with_fault_part run_stmt_part)
qed simp_all

lemma map_of_filter_other: "u \<noteq> t \<Longrightarrow> map_of (filter (\<lambda>kc. fst kc \<noteq> t) kcs) u = map_of kcs u"
  by (induction kcs) auto

lemma map_of_update_other:
  "u \<noteq> t \<Longrightarrow> map_of (mg_consumers (update_consumer t f mg)) u = map_of (mg_consumers mg) u"
proof -
  assume "u \<noteq> t"
  then have "map_of (map (\<lambda>kc. if fst kc = t then (fst kc, f (snd kc)) else kc) kcs) u = map_of kcs u" for kcs
    by (induction kcs) auto
  then show ?thesis by (simp add: update_consumer_def)
qed

lemma map_of_resize_other: "u \<noteq> t \<Longrightarrow> map_of (map (resize_at t k) kcs) u = map_of kcs u"
  by (induction kcs) (auto simp: resize_at_def)

lemma filter_list_update_other:
  "\<not> p x \<Longrightarrow> \<not> p (xs ! i) \<Longrightarrow> filter p (xs[i := x]) = filter p xs"
  by (induction xs arbitrary: i) (auto split: nat.splits)

lemma part_of_cong:
  "db_part u (sy_db s') = db_part u (sy_db s) \<Longrightarrow> map_of (consumers (sy_mgr s')) u = map_of (consumers (sy_mgr s)) u \<Longrightarrow>
   filter (\<lambda>kc. fst kc = u) (sy_stopping s') = filter (\<lambda>kc. fst kc = u) (sy_stopping s) \<Longrightarrow> part_of u s' = part_of u s"
  by (simp add: part_of_def)

lemma sys_step_isolated:
  assumes "sys_ok pg s" "sys_step am js cr pg tm s l s'" "\<not> concerns pg u l"
  shows "part_of u s' = part_of u s"
proof -
  have own: "owns pg (fst kc) (snd kc)" if "kc \<in> set (consumers (sy_mgr s)) \<union> set (sy_stopping s)" for kc
    using assms(1) that by (simp add: sys_ok_def)
  from assms(2) show ?thesis
  proof cases
    case (create env req d' r)
    with assms(3) request_part(1) [of pg env u tm req "sy_db s"] show ?thesis by (intro part_of_cong) simp_all
  next
    case (delete env t d' ru)
    with assms(3) request_part(2) [of pg t u env "sy_db s"] show ?thesis by (intro part_of_cong) simp_all
  next
    case (update env t n d' r)
    with assms(3) request_part(3) [of pg t u tm env n "sy_db s"] show ?thesis by (intro part_of_cong) simp_all
  next
    case (message env mreq d' rm)
    with assms(3) request_part(4) [of pg mreq u js tm env "sy_db s"] show ?thesis by (intro part_of_cong) simp_all
  next
    case (user aenv un pw t role d' rus)
    with assms(3) request_part(5) [of pg t u cr aenv un pw role "sy_db s"] show ?thesis by (intro part_of_cong) simp_all
  next
    case (spawn t n m' ru)
    from spawn_consumers [OF spawn(4)] spawn(1,2) assms(3) show ?thesis
      by (intro part_of_cong) (auto simp: map_add_def split: option.split)
  next
    case (stop t m' ru)
    with assms(3) stop_consumers [OF stop(4)] show ?thesis
      by (intro part_of_cong) (auto simp: map_of_filter_other stopped_def split: option.split)
  next
    case (resize t n m' ru)
    with assms(3) resize_consumers [OF resize(4)] show ?thesis
      by (intro part_of_cong) (simp_all add: map_of_resize_other)
  next
    case (resize_late i n t c)
    with assms(3) show ?thesis by (intro part_of_cong) (simp_all add: filter_list_update_other)
  next
    case (lookup t n c)
    then show ?thesis by (intro part_of_cong) simp_all
  next
    case (lookup_fails t n m' e)
    then show ?thesis by (intro part_of_cong) simp_all
  next
    case (at_registered t c cl c' d')
    have "owns pg t c" using own [of "(t, c)"] map_of_SomeD [OF at_registered(3)] by simp
    with at_registered assms(3) consumer_step_part [OF at_registered(4)] show ?thesis
      by (intro part_of_cong) (simp_all add: map_of_update_other)
  next
    case (at_stopping i t c cl c' d')
    have "owns pg t c" using own [of "(t, c)"] at_stopping(3,4) by (metis UnI2 nth_mem fst_conv snd_conv)
    with at_stopping assms(3) consumer_step_part [OF at_stopping(5)] show ?thesis
      by (intro part_of_cong) (simp_all add: filter_list_update_other)
  qed (use assms(3) in simp)
qed

lemma run_isolated:
  "run (sys_step am js cr pg tm) s ls s' \<Longrightarrow> sys_ok pg s \<Longrightarrow> \<forall>l \<in> set ls. \<not> concerns pg u l \<Longrightarrow>
     part_of u s' = part_of u s"
proof (induction ls arbitrary: s)
  case (Cons l ls)
  then obtain s1 where s1: "sys_step am js cr pg tm s l s1" "run (sys_step am js cr pg tm) s1 ls s'" by auto
  with Cons.IH [OF s1(2) sys_step_ok [OF Cons.prems(2) s1(1)]] sys_step_isolated [OF Cons.prems(2) s1(1)] Cons.prems(3)
  show ?case by simp
qed simp

section \<open>A consumer without a tenant\<close>

definition leaked :: "string \<Rightarrow> 'w system \<Rightarrow> bool" where
  "leaked u s \<longleftrightarrow> u \<in> registered (sy_mgr s) \<and> u \<notin> t_id ` set (tenants (sy_db s)) \<and> Pend_stop u \<notin># sy_pending s"

text \<open>A step after which a leaked consumer may be stopped or have a tenant again.\<close>

fun reclaims :: "pg_server \<Rightarrow> string \<Rightarrow> sys_label \<Rightarrow> bool" where
  "reclaims pg u (Req_create env req r) \<longleftrightarrow> uuid_in pg (se_uuid env) = Some u"
| "reclaims pg u Shut_down \<longleftrightarrow> True"
| "reclaims pg u _ \<longleftrightarrow> False"

lemma with_fault_tenant_ids:
  "t_id ` set (tenants (fst (f d))) \<subseteq> A \<Longrightarrow> t_id ` set (tenants d) \<subseteq> A \<Longrightarrow>
     t_id ` set (tenants (fst (with_fault flt f d))) \<subseteq> A"
  by (cases flt) (auto split: prod.splits sum.splits)

lemma request_tenant_ids:
  "t_id ` set (tenants (fst (CreateTenant pg tm env req d))) \<subseteq>
     t_id ` set (tenants d) \<union> {u. uuid_in pg (se_uuid env) = Some u}"
  "t_id ` set (tenants (fst (DeleteTenant pg env t d))) \<subseteq> t_id ` set (tenants d)"
  "t_id ` set (tenants (fst (TenantService_UpdateConcurrency pg tm env t n d))) \<subseteq> t_id ` set (tenants d)"
  "tenants (fst (CreateMessage pg js tm env mreq d)) = tenants d"
  "tenants (fst (UserRepository_Create cr pg aenv un pw t role d)) = tenants d"
  "tenants (fst (with_fault flt (run_stmt pg x st) d)) = tenants d"
proof -
  show "t_id ` set (tenants (fst (CreateTenant pg tm env req d))) \<subseteq>
      t_id ` set (tenants d) \<union> {u. uuid_in pg (se_uuid env) = Some u}"
    unfolding service_state
    by (rule with_fault_tenant_ids) (auto simp: sql_insert_tenant_def Let_def split: option.splits if_splits)
  show "t_id ` set (tenants (fst (DeleteTenant pg env t d))) \<subseteq> t_id ` set (tenants d)"
    unfolding service_state
    by (rule with_fault_tenant_ids) (auto simp: sql_delete_tenant_def set_delete_by split: option.splits)
  show "t_id ` set (tenants (fst (TenantService_UpdateConcurrency pg tm env t n d))) \<subseteq> t_id ` set (tenants d)"
    using with_fault_tenant_ids [of "sql_update_concurrency pg (se_now env) t n" d "t_id ` set (tenants d)"]
    unfolding service_state by (simp add: sql_update_concurrency_def Let_def split: option.splits)
  show "tenants (fst (CreateMessage pg js tm env mreq d)) = tenants d"
    unfolding CreateMessage_state
    by (cases "se_fault env") (auto simp: sql_insert_message_def Let_def split: sum.split option.split prod.split)
  show "tenants (fst (UserRepository_Create cr pg aenv un pw t role d)) = tenants d"
    unfolding UserRepository_Create_state
    by (cases "au_fault_insert aenv") (auto simp: sql_insert_user_def Let_def split: sum.split option.split prod.split)
  show "tenants (fst (with_fault flt (run_stmt pg x st) d)) = tenants d"
    by (cases flt; cases st) (auto simp: sql_upsert_processing_def sql_set_status_def sql_insert_dead_letter_def
        split: sum.split option.split prod.split)
qed

lemma consumer_step_tenants: "consumer_step js pg (c, d) l (c', d') \<Longrightarrow> tenants d' = tenants d"
  by (erule consumer_stepE) (auto simp: request_tenant_ids(6))

lemma sys_step_tenant_ids:
  assumes "sys_step am js cr pg tm s l s'" "u \<notin> t_id ` set (tenants (sy_db s))" "\<not> reclaims pg u l"
  shows "u \<notin> t_id ` set (tenants (sy_db s'))"
  using assms
proof (induction rule: sys_step.induct)
  case (create env req s d' r)
  then show ?case using request_tenant_ids(1) [of pg tm env req "sy_db s"] by auto
next
  case (delete env t s d' ru)
  then show ?case using request_tenant_ids(2) [of pg env t "sy_db s"] by auto
next
  case (update env t n s d' r)
  then show ?case using request_tenant_ids(3) [of pg tm env t n "sy_db s"] by auto
next
  case (message env mreq s d' rm)
  then show ?case using request_tenant_ids(4) [of pg js tm env mreq "sy_db s"] by auto
next
  case (user aenv un pw t role s d' rus)
  then show ?case using request_tenant_ids(5) [of cr pg aenv un pw t role "sy_db s"] by auto
qed (auto dest: consumer_step_tenants)

lemma sys_step_registered:
  assumes "sys_step am js cr pg tm s l s'" "sys_ok pg s" "u \<in> registered (sy_mgr s)"
    "Pend_stop u \<notin># sy_pending s" "l \<noteq> Shut_down"
  shows "u \<in> registered (sy_mgr s')"
  using assms(1)
proof cases
  case (spawn t n m' ru)
  from spawn_consumers [OF spawn(4)] assms(3) spawn(2) show ?thesis
    by (auto simp: registered_def ListConsumers_def)
next
  case (stop t m' ru)
  with assms(4) have "t \<noteq> u" by auto
  with stop_consumers [OF stop(4)] assms(3) stop(2) show ?thesis
    by (auto simp: registered_def ListConsumers_def)
next
  case (resize t n m' ru)
  have "map fst (consumers m') = map fst (consumers (sy_mgr s))"
    using resize_consumers [OF resize(4)] by (simp add: resize_at_def)
  then have "set (map fst (consumers m')) = set (map fst (consumers (sy_mgr s)))" by simp
  with assms(3) resize(2) show ?thesis by (simp add: registered_def ListConsumers_def)
next
  case (at_registered t c cl c' d')
  with assms(3) show ?thesis by (simp add: registered_def)
qed (use assms(3,5) in simp_all)

lemma sys_step_leaked:
  assumes "sys_ok pg s" "sys_step am js cr pg tm s l s'" "\<not> reclaims pg u l" "leaked u s" "uuid_in pg u = Some u"
  shows "leaked u s'"
proof -
  have ok: "uuid_lawful pg \<and> db_ok pg (sy_db s)" using assms(1) by (simp add: sys_ok_def app_ok_def)
  have l: "u \<notin> t_id ` set (tenants (sy_db s))" "Pend_stop u \<notin># sy_pending s" "u \<in> registered (sy_mgr s)"
    using assms(4) by (simp_all add: leaked_def)
  have "Pend_stop u \<notin># sy_pending s'"
    using assms(2)
  proof cases
    case (delete env t d' ru)
    have "ru \<noteq> Inr ()" if "t = u"
      using tenants.delete_Inr [OF ok, of env t d' sample_time] delete(3) l(1) that assms(5) dom_tenant_view by auto
    then show ?thesis using l(2) delete(2) by (auto simp: next_call_def split: sum.splits)
  qed (use l(2) in \<open>auto simp: next_call_def spawn_next_def dest: in_diffD split: sum.splits\<close>)
  moreover have "l \<noteq> Shut_down" using assms(3) by auto
  ultimately show ?thesis
    using sys_step_tenant_ids [OF assms(2) l(1) assms(3)] sys_step_registered [OF assms(2,1) l(3,2)]
    by (simp add: leaked_def)
qed

lemma run_leaked:
  "run (sys_step am js cr pg tm) s ls s' \<Longrightarrow> sys_ok pg s \<Longrightarrow> \<forall>l \<in> set ls. \<not> reclaims pg u l \<Longrightarrow>
     leaked u s \<Longrightarrow> uuid_in pg u = Some u \<Longrightarrow> leaked u s'"
proof (induction ls arbitrary: s)
  case (Cons l ls)
  then obtain s1 where s1: "sys_step am js cr pg tm s l s1" "run (sys_step am js cr pg tm) s1 ls s'" by auto
  with Cons.IH [OF s1(2) sys_step_ok [OF Cons.prems(2) s1(1)]]
    sys_step_leaked [OF Cons.prems(2) s1(1) _ Cons.prems(4,5)] Cons.prems(3,5)
  show ?case by simp
qed simp

section \<open>The functions of one request and of one item are runs\<close>

lemma createTenant_run:
  assumes "createTenant am pg tm env (Inr req) (sy_mgr s, sy_db s) = Returns ((m', d'), h)"
  shows "\<exists>ls. run (sys_step am js cr pg tm) s ls (s\<lparr>sy_mgr := m', sy_db := d'\<rparr>)"
proof -
  obtain d1 r where c: "CreateTenant pg tm env req (sy_db s) = (d1, r)" by force
  note st = sys_step.create [OF c, of am js cr]
  show ?thesis
  proof (cases r)
    case (Inl e)
    with assms c have "m' = sy_mgr s" "d' = d1" by (auto simp: createTenant_def)
    with Inl st have "run (sys_step am js cr pg tm) s [Req_create env req r] (s\<lparr>sy_mgr := m', sy_db := d'\<rparr>)"
      by (simp add: spawn_next_def)
    then show ?thesis ..
  next
    case (Inr t)
    let ?s1 = "s\<lparr>sy_db := d1, sy_pending := sy_pending s + spawn_next r\<rparr>"
    from assms c Inr obtain ru where sp: "SpawnConsumer am (tr_ID t) (tr_Workers t) (sy_mgr s) = Returns (m', ru)" "d' = d1"
      by (auto simp: createTenant_def)
    have "sys_step am js cr pg tm ?s1 (Do_spawn (tr_ID t) (tr_Workers t) ru)
        (?s1\<lparr>sy_mgr := m', sy_pending := sy_pending ?s1 - {#Pend_spawn (tr_ID t) (tr_Workers t)#}\<rparr>)"
      by (rule sys_step.spawn) (simp_all add: Inr spawn_next_def sp(1))
    moreover have "?s1\<lparr>sy_mgr := m', sy_pending := sy_pending ?s1 - {#Pend_spawn (tr_ID t) (tr_Workers t)#}\<rparr> =
        s\<lparr>sy_mgr := m', sy_db := d'\<rparr>" by (simp add: Inr spawn_next_def sp(2))
    ultimately have "run (sys_step am js cr pg tm) s [Req_create env req r, Do_spawn (tr_ID t) (tr_Workers t) ru]
        (s\<lparr>sy_mgr := m', sy_db := d'\<rparr>)"
      using st by (intro run_ConsI run_NilI) simp_all
    then show ?thesis ..
  qed
qed

lemma deleteTenant_run:
  assumes "deleteTenant am pg env t (sy_mgr s, sy_db s) = Returns ((m', d'), h)"
  shows "\<exists>ls st. run (sys_step am js cr pg tm) s ls (stop_consumers st (s\<lparr>sy_mgr := m', sy_db := d'\<rparr>))"
proof -
  obtain d1 r where c: "DeleteTenant pg env t (sy_db s) = (d1, r)" by force
  note st = sys_step.delete [OF c, of am js cr tm]
  show ?thesis
  proof (cases r)
    case (Inl e)
    with assms c have "m' = sy_mgr s" "d' = d1" by (auto simp: deleteTenant_def)
    with Inl st have "run (sys_step am js cr pg tm) s [Req_delete env t r] (stop_consumers [] (s\<lparr>sy_mgr := m', sy_db := d'\<rparr>))"
      by (simp add: next_call_def)
    then show ?thesis by blast
  next
    case (Inr u)
    let ?s1 = "s\<lparr>sy_db := d1, sy_pending := sy_pending s + next_call r (Pend_stop t)\<rparr>"
    from assms c Inr obtain ru where sp: "StopConsumer am t (sy_mgr s) = Returns (m', ru)" "d' = d1"
      by (auto simp: deleteTenant_def)
    let ?s2 = "stop_consumers (stopped t (snd (sy_mgr s))) (s\<lparr>sy_mgr := m', sy_db := d'\<rparr>)"
    have p: "Pend_stop t \<in># sy_pending ?s1" by (simp add: Inr next_call_def)
    have "StopConsumer am t (sy_mgr ?s1) = Returns (m', ru)" by (simp add: sp(1))
    note sys_step.stop [OF p this, of js cr pg tm]
    moreover have "stop_consumers (stopped t (snd (sy_mgr ?s1))) (?s1\<lparr>sy_mgr := m', sy_pending := sy_pending ?s1 - {#Pend_stop t#}\<rparr>) = ?s2"
      by (cases s) (simp add: Inr next_call_def sp(2))
    ultimately have "run (sys_step am js cr pg tm) s [Req_delete env t r, Do_stop t ru] ?s2"
      using st by (intro run_ConsI run_NilI) simp_all
    then show ?thesis by blast
  qed
qed

text \<open>
  \<^verbatim>\<open>processWork\<close>, run to its end by a worker that has the item in hand, is a run of statements.
\<close>

definition by_stmts :: "pg_server \<Rightarrow> WorkItem \<Rightarrow> db \<Rightarrow> db \<Rightarrow> bool" where
  "by_stmts pg x d0 d \<longleftrightarrow>
     (\<exists>sts. fold (\<lambda>(flt, st) d. fst (with_fault flt (run_stmt pg x st) d)) sts d0 = d)"

lemma by_stmts_refl: "by_stmts pg x d d"
  unfolding by_stmts_def by (rule exI [of _ "[]"]) simp

lemma by_stmts_step: "by_stmts pg x d0 d \<Longrightarrow> by_stmts pg x d0 (fst (with_fault flt (run_stmt pg x st) d))"
proof -
  assume "by_stmts pg x d0 d"
  then obtain sts where "fold (\<lambda>(flt, st) d. fst (with_fault flt (run_stmt pg x st) d)) sts d0 = d"
    by (auto simp: by_stmts_def)
  then show ?thesis unfolding by_stmts_def by (intro exI [of _ "sts @ [(flt, st)]"]) simp
qed

lemma processWork_by_stmts: "by_stmts pg x d (fst (processWork js pg ovf env de maxRetry x d))"
proof -
  have k: "attempt_keeps pg x (by_stmts pg x d)"
    unfolding attempt_keeps_def
    using by_stmts_step [of pg x d _ _ "Upsert_processing _ _"] by_stmts_step [of pg x d _ _ "Set_completed _"] by simp
  obtain d1 r ps where p: "processWithRetry js pg ovf env maxRetry x d = (d1, r, ps)" by (metis prod_cases3)
  have d1: "by_stmts pg x d d1" using processWithRetry_keeps [OF k by_stmts_refl, of js ovf env maxRetry] p by simp
  have "by_stmts pg x d (moveToDeadLetter pg de x e d1)" for e
    using by_stmts_step [OF by_stmts_step [OF d1, of "dl_insert de"
        "Insert_dead_letter (dl_insert_now de) (Error e) (wi_RetryCount x)"], of "dl_update de" "Set_failed (dl_update_now de)"]
    by (simp add: moveToDeadLetter_def)
  with d1 show ?thesis by (simp add: processWork_cases p split: option.split)
qed

lemma processWork_run:
  assumes "x \<in> set (in_hand (tc_WorkerPool c))"
  shows "\<exists>ls. run (consumer_step js pg) (c, d) ls (c, fst (processWork js pg ovf env de maxRetry x d))"
proof -
  have "\<exists>ls. run (consumer_step js pg) (c, d) ls
      (c, fold (\<lambda>(flt, st) d. fst (with_fault flt (run_stmt pg x st) d)) sts d)" for sts
  proof (induction sts arbitrary: d)
    case Nil
    show ?case by (rule exI [of _ "[]"]) simp
  next
    case (Cons a sts)
    obtain flt st where a: "a = (flt, st)" by force
    from Cons [of "fst (with_fault flt (run_stmt pg x st) d)"] obtain ls where
      "run (consumer_step js pg) (c, fst (with_fault flt (run_stmt pg x st) d)) ls
         (c, fold (\<lambda>(flt, st) d. fst (with_fault flt (run_stmt pg x st) d)) (a # sts) d)" by (auto simp: a)
    from run_ConsI [OF consumer_step.issues [OF assms] this] show ?case ..
  qed
  with processWork_by_stmts [of pg x d js ovf env de maxRetry] show ?thesis unfolding by_stmts_def by metis
qed

section \<open>Properties\<close>

lemma sys_init_ok:
  "uuid_lawful pg \<Longrightarrow> db_ok pg d \<Longrightarrow> limits_ok (NewManager cn dw mw mr ttl) \<Longrightarrow>
     sys_ok pg (sys_init (w, NewManager cn dw mw mr ttl) d)"
  using mgr_ok_New [of cn dw mw mr ttl]
  by (simp add: sys_ok_def app_ok_def sys_init_def) (simp add: NewManager_def)

text \<open>
  C4: the whole program, from its start with a database that satisfies its constraints, in every
  interleaving of requests, consumers and workers, and under every fault of the database. The
  constraints of the tables hold; every registered consumer is sound, so the manager's calls do
  not panic; and every item, queued or in hand, in a registered or in a stopping consumer, carries
  the tenant of that consumer, whose key is the canonical text of a UUID.
\<close>

theorem system_invariant:
  assumes "uuid_lawful pg" "db_ok pg d" "limits_ok (NewManager cn dw mw mr ttl)"
    and "run (sys_step am js cr pg tm) (sys_init (w, NewManager cn dw mw mr ttl) d) ls s"
  shows "db_ok pg (sy_db s) \<and> mgr_ok (snd (sy_mgr s)) \<and>
    (\<exists>x. SpawnConsumer am t n (sy_mgr s) = Returns x) \<and> (\<exists>x. StopConsumer am t (sy_mgr s) = Returns x) \<and>
    (\<exists>x. ShutdownAll am (sy_mgr s) = Returns x) \<and>
    (\<forall>kc \<in> set (mg_consumers (snd (sy_mgr s))) \<union> set (sy_stopping s). uuid_in pg (fst kc) = Some (fst kc) \<and>
       (\<forall>x \<in> set (queued (tc_WorkerPool (snd kc))) \<union> set (in_hand (tc_WorkerPool (snd kc))). wi_TenantID x = fst kc))"
proof -
  have ok: "sys_ok pg s" by (rule sys.run_inv [OF assms(4) sys_init_ok [OF assms(1-3)]])
  then have m: "world_ok (sy_mgr s)" "db_ok pg (sy_db s)" by (simp_all add: sys_ok_def app_ok_def)
  have calls: "\<exists>x. SpawnConsumer am t n (sy_mgr s) = Returns x" "\<exists>x. StopConsumer am t (sy_mgr s) = Returns x"
    "\<exists>x. ShutdownAll am (sy_mgr s) = Returns x"
    using manager.spawn_total [OF m(1), of am t n] manager.stop_total [OF m(1), of am t]
      ShutdownAll_contract [OF m(1), of am "fst (sy_mgr s)"] by auto
  have "uuid_in pg (fst kc) = Some (fst kc) \<and>
      (\<forall>x \<in> set (queued (tc_WorkerPool (snd kc))) \<union> set (in_hand (tc_WorkerPool (snd kc))). wi_TenantID x = fst kc)"
    if "kc \<in> set (mg_consumers (snd (sy_mgr s))) \<union> set (sy_stopping s)" for kc
    using ok that by (simp add: sys_ok_def owns_def)
  with m calls show ?thesis by blast
qed

text \<open>
  C1: isolation of the tenants. In every run, under every interleaving and every fault, as long as
  no step concerns a tenant (no request names it in any spelling, nothing arrives at or happens in
  its consumers), its row, its messages, its dead letters, its accounts, its consumer with every
  item of the pool, and its stopping consumers stay exactly as they are.
\<close>

theorem tenant_isolation:
  assumes "sys_ok pg s" "run (sys_step am js cr pg tm) s ls s'" "\<forall>l \<in> set ls. \<not> concerns pg u l"
  shows "part_of u s' = part_of u s"
  by (rule run_isolated [OF assms(2,1,3)])

text \<open>
  C24: a race. A tenant is created; before the request reaches the manager, another request deletes
  the tenant, finds no consumer to stop (status 500), and the first request then spawns it (status
  201). From then on the consumer stays registered without a tenant, whatever requests are
  made, until the program is shut down or a new tenant draws the same UUID.
\<close>

theorem delete_during_create_leaks:
  assumes "sys_ok pg s" "Pend_stop (tr_ID t) \<notin># sy_pending s" "tr_ID t \<notin> registered (sy_mgr s)"
    and "run (sys_step am js cr pg tm) s
      [Req_create env req (Inr t), Req_delete env' (tr_ID t) (Inr ()), Do_stop (tr_ID t) r,
       Do_spawn (tr_ID t) (tr_Workers t) (Inr ())] s1"
    and "run (sys_step am js cr pg tm) s1 ls s2" "\<forall>l \<in> set ls. \<not> reclaims pg (tr_ID t) l"
  shows "r = Inl (err_not_found (tr_ID t)) \<and> tr_ID t \<in> registered (sy_mgr s2) \<and>
    tr_ID t \<notin> t_id ` set (tenants (sy_db s2))"
proof -
  let ?u = "tr_ID t"
  from assms(4) obtain sa sb sc where
    st: "sys_step am js cr pg tm s (Req_create env req (Inr t)) sa" "sys_step am js cr pg tm sa (Req_delete env' ?u (Inr ())) sb"
    "sys_step am js cr pg tm sb (Do_stop ?u r) sc" "sys_step am js cr pg tm sc (Do_spawn ?u (tr_Workers t) (Inr ())) s1"
    by auto
  note ok = assms(1) sys_step_ok [OF assms(1) st(1)]
  note ok' = ok(2) sys_step_ok [OF ok(2) st(2)]
  note ok'' = sys_step_ok [OF ok'(2) st(3)]
  have d: "uuid_lawful pg \<and> db_ok pg (sy_db s)" "uuid_lawful pg \<and> db_ok pg (sy_db sa)"
    using ok by (simp_all add: sys_ok_def app_ok_def)
  from st(1) have a: "CreateTenant pg tm env req (sy_db s) = (sy_db sa, Inr t)" "sy_mgr sa = sy_mgr s"
    "sy_pending sa = sy_pending s + {#Pend_spawn ?u (tr_Workers t)#}"
    by (auto elim!: sys_stepE simp: spawn_next_def)
  from st(2) have b: "DeleteTenant pg env' ?u (sy_db sa) = (sy_db sb, Inr ())" "sy_mgr sb = sy_mgr sa"
    "sy_pending sb = sy_pending sa + {#Pend_stop ?u#}"
    by (auto elim!: sys_stepE simp: next_call_def)
  from st(3) have c: "StopConsumer am ?u (sy_mgr sb) = Returns (sy_mgr sc, r)" "sy_db sc = sy_db sb"
    "Pend_stop ?u \<in># sy_pending sc \<longleftrightarrow> Pend_stop ?u \<in># sy_pending sb - {#Pend_stop ?u#}"
    by (auto elim!: sys_stepE)
  from st(4) have e: "SpawnConsumer am ?u (tr_Workers t) (sy_mgr sc) = Returns (sy_mgr s1, Inr ())" "sy_db s1 = sy_db sc"
    "sy_pending s1 = sy_pending sc - {#Pend_spawn ?u (tr_Workers t)#}"
    by (auto elim!: sys_stepE)
  have u: "uuid_in pg ?u = Some ?u" using tenants.create_Inr [OF d(1) a(1)] by simp
  have gone: "?u \<notin> t_id ` set (tenants (sy_db sb))"
    using tenants.delete_Inr [OF d(2) b(1), of sample_time] u dom_tenant_view [of ?u sample_time "sy_db sb"] by auto
  have r: "r = Inl (err_not_found ?u)"
    using manager.stop_miss [of ?u "sy_mgr sb" am] c(1) assms(3) a(2) b(2) by simp
  have "world_ok (sy_mgr sc)" using ok'' by (simp add: sys_ok_def app_ok_def)
  from manager.spawn_reg [OF this e(1)] have "?u \<in> registered (sy_mgr s1)" by simp
  moreover have "Pend_stop ?u \<notin># sy_pending s1" using assms(2) a(3) b(3) c(3) e(3) by (auto dest: in_diffD)
  ultimately have "leaked ?u s1" using gone c(2) e(2) by (simp add: leaked_def)
  from run_leaked [OF assms(5) sys_step_ok [OF ok'' st(4)] assms(6) this u] r show ?thesis by (simp add: leaked_def)
qed

lemma Resize_grows:
  assumes "0 \<le> wp_workers wp" "wp_workers wp < k" "k < 2 ^ 31"
  shows "wp_goroutines (Resize k wp) = wp_goroutines wp @ replicate (nat (k - wp_workers wp)) Idle"
proof -
  have "int64 (k - wp_workers wp) = k - wp_workers wp" using assms by (intro int64_id) auto
  then show ?thesis using assms by (simp add: Resize_def Let_def)
qed

text \<open>
  C25: another race. \<^verbatim>\<open>UpdateConcurrency\<close> resizes the pool after it has let go of the mutex. If the
  tenant's deletion stops the consumer in between and \<^verbatim>\<open>Stop\<close> has already returned, the resize that asks for more
  workers starts goroutines in the stopped pool, so the pool is running again behind \<^verbatim>\<open>Stop\<close>; they take, and process for the
  deleted tenant, what was left in its queue.
\<close>

theorem late_resize_restarts:
  assumes "Pend_late i n \<in># sy_pending s" "i < length (sy_stopping s)" "sy_stopping s ! i = (t, c)"
    and "Stop_returns (tc_WorkerPool c)" "limits_ok (snd (sy_mgr s))"
    and "0 \<le> wp_workers (tc_WorkerPool c)" "wp_workers (tc_WorkerPool c) < clamp_update (snd (sy_mgr s)) n"
  shows "\<exists>c'. sys_step am js cr pg tm s (Do_resize t n (Inr ()))
      (s\<lparr>sy_stopping := (sy_stopping s)[i := (t, c')], sy_pending := sy_pending s - {#Pend_late i n#}\<rparr>) \<and>
    \<not> Stop_returns (tc_WorkerPool c') \<and>
    (\<forall>x ch. chan_recv (wp_workChan (tc_WorkerPool c)) = Some (x, ch) \<longrightarrow> (\<exists>j wp. pool_step (tc_WorkerPool c') (Took j x) wp))"
proof -
  let ?k = "clamp_update (snd (sy_mgr s)) n"
  let ?wp = "tc_WorkerPool c"
  let ?gs = "wp_goroutines (Resize ?k ?wp)"
  have "?k < 2 ^ 31" using assms(5) by (auto simp: limits_ok_def clamp_update_def Let_def)
  then have g: "?gs = wp_goroutines ?wp @ replicate (nat (?k - wp_workers ?wp)) Idle"
    using assms(6,7) by (intro Resize_grows)
  let ?j = "length (wp_goroutines ?wp)"
  have j: "?j < length ?gs" "?gs ! ?j = Idle" using assms(7) by (simp_all add: g nth_append)
  then have "Idle \<in> set ?gs" by (metis nth_mem)
  then have "\<not> Stop_returns (tc_WorkerPool (resize_pool ?k c))" by (auto simp: Stop_returns_def resize_pool_def)
  moreover have "\<exists>j wp. pool_step (tc_WorkerPool (resize_pool ?k c)) (Took j x) wp"
    if "chan_recv (wp_workChan ?wp) = Some (x, ch)" for x ch
    using pool_step.take [OF j, of x ch] that by (auto simp: resize_pool_def)
  ultimately show ?thesis using sys_step.resize_late [OF assms(1-3), of am js cr pg tm] by blast
qed

theorem system_invariant_witness:
  "\<exists>ls s. run (sys_step mem_amqp sample_js sample_crypto sample_pg sample_time)
       (sys_init (mem_empty, NewManager 0 1 5 3 30000000000) db_empty) ls s \<and>
     registered (sy_mgr s) = {uuid_a} \<and> db_ok sample_pg (sy_db s)"
proof -
  let ?s = "sys_init (mem_empty, NewManager 0 1 5 3 30000000000) db_empty"
  from sample_app_created [of sample_time] obtain m' :: "mem_broker \<times> Manager" and h where
    m': "createTenant mem_amqp sample_pg sample_time (sample_env uuid_a 1000) (Inr (sample_request 90))
       (sy_mgr ?s, sy_db ?s) = Returns ((m', tenant_db), h)" "registered m' = {uuid_a}"
    by (auto simp: sys_init_def sample_manager_def)
  from createTenant_run [OF m'(1)] obtain ls where
    r: "run (sys_step mem_amqp sample_js sample_crypto sample_pg sample_time) ?s ls (?s\<lparr>sy_mgr := m', sy_db := tenant_db\<rparr>)" ..
  have "db_ok sample_pg (sy_db (?s\<lparr>sy_mgr := m', sy_db := tenant_db\<rparr>))"
    using system_invariant [OF sample_uuid_lawful db_ok_empty sample_limits [unfolded sample_manager_def] r] by blast
  with r m'(2) show ?thesis by (intro exI conjI) (assumption, simp, assumption)
qed

definition sample_sys :: "mem_broker \<Rightarrow> WorkItem list \<Rightarrow> mem_broker system" where
  "sample_sys w xs = sys_init (w, sample_manager\<lparr>mg_consumers :=
     [(uuid_b, sample_consumer (sample_pool False xs Idle))]\<rparr>) tenant_db"

lemma sample_sys_ok: "\<exists>w. sys_ok sample_pg (sample_sys w [])"
proof -
  from sample_spawn obtain w where sp: "SpawnConsumer mem_amqp uuid_b 0 (mem_empty, sample_manager) =
     Returns ((w, sample_manager\<lparr>mg_consumers := [(uuid_b, sample_consumer (sample_pool False [] Idle))]\<rparr>), Inr ())" by auto
  have "world_ok (w, sample_manager\<lparr>mg_consumers := [(uuid_b, sample_consumer (sample_pool False [] Idle))]\<rparr>)"
    using manager.spawn_ok [OF _ sp] sample_manager_ok(1) by simp
  moreover have "owns sample_pg uuid_b (sample_consumer (sample_pool False [] Idle))"
    by (simp add: owns_def sample_consumer_def sample_pool_def pool_ok_def chan_wf_def in_hand_def)
  ultimately have "sys_ok sample_pg (sample_sys w [])"
    by (simp add: sys_ok_def app_ok_def sample_sys_def sys_init_def sample_uuid_lawful tenant_db_ok)
  then show ?thesis ..
qed

theorem tenant_isolation_witness:
  "\<exists>w. sys_step mem_amqp sample_js sample_crypto sample_pg sample_time (sample_sys w [])
       (At uuid_b (Arrives sample_delivery Ack)) (sample_sys w [sample_item 0]) \<and>
     part_of uuid_a (sample_sys w [sample_item 0]) = part_of uuid_a (sample_sys w [])"
proof -
  from sample_sys_ok obtain w where ok: "sys_ok sample_pg (sample_sys w [])" ..
  from sample_processMessage [of Idle] obtain r where
    p: "processMessage sample_js True (Inr ()) (sample_consumer (sample_pool False [] Idle)) sample_delivery =
      (sample_consumer (sample_pool False [sample_item 0] Idle), [Ack], r)" by auto
  have "sys_step mem_amqp sample_js sample_crypto sample_pg sample_time (sample_sys w [])
      (At uuid_b (Arrives sample_delivery Ack))
      ((sample_sys w [])\<lparr>sy_mgr := (fst (sy_mgr (sample_sys w [])),
         update_consumer uuid_b (\<lambda>_. sample_consumer (sample_pool False [sample_item 0] Idle)) (snd (sy_mgr (sample_sys w [])))),
         sy_db := sy_db (sample_sys w [])\<rparr>)"
    by (rule sys_step.at_registered [OF _ consumer_step.arrives [OF p]]) (simp add: sample_sys_def sys_init_def)
  then have st: "sys_step mem_amqp sample_js sample_crypto sample_pg sample_time (sample_sys w [])
      (At uuid_b (Arrives sample_delivery Ack)) (sample_sys w [sample_item 0])"
    by (simp add: sample_sys_def sys_init_def update_consumer_def)
  have "run (sys_step mem_amqp sample_js sample_crypto sample_pg sample_time) (sample_sys w [])
      [At uuid_b (Arrives sample_delivery Ack)] (sample_sys w [sample_item 0])" by (simp add: st)
  from tenant_isolation [OF ok this, of uuid_a] st show ?thesis by auto
qed

lemma sample_race:
  "\<exists>s1. run (sys_step mem_amqp sample_js sample_crypto sample_pg sample_time) (sys_init (mem_empty, sample_manager) db_empty)
     [Req_create (sample_env uuid_a 1000) (sample_request 90) (Inr (scan_tenant sample_time (sample_tenant 3 1000))),
      Req_delete (sample_env [] 5) uuid_a (Inr ()), Do_stop uuid_a (Inl (err_not_found uuid_a)), Do_spawn uuid_a 3 (Inr ())] s1"
proof -
  let ?S = "sys_step mem_amqp sample_js sample_crypto sample_pg sample_time"
    and ?s = "sys_init (mem_empty, sample_manager) db_empty" and ?t = "scan_tenant sample_time (sample_tenant 3 1000)"
  have t: "tr_ID ?t = uuid_a" "tr_Workers ?t = 3" by (simp_all add: scan_tenant_def sample_tenant_def)
  have reg: "map_of (mg_consumers sample_manager) uuid_a = None" by (simp add: sample_manager_ok)
  have "CreateTenant sample_pg sample_time (sample_env uuid_a 1000) (sample_request 90) (sy_db ?s) = (tenant_db, Inr ?t)"
    using sample_create [of sample_time] by (simp add: tenant_db_def sys_init_def)
  note a = sys_step.create [OF this, of mem_amqp sample_js sample_crypto]
  obtain d' where "DeleteTenant sample_pg (sample_env [] 5) uuid_a tenant_db = (d', Inr ())"
    using tenants.create_delete [OF conjI [OF sample_uuid_lawful db_ok_empty] sample_create, of "sample_env [] 5" sample_time]
    by (auto simp: tenant_db_def t)
  then have b: "?S (?s\<lparr>sy_db := tenant_db, sy_pending := {#Pend_spawn uuid_a 3#}\<rparr>)
      (Req_delete (sample_env [] 5) uuid_a (Inr ()))
      (?s\<lparr>sy_db := d', sy_pending := {#Pend_stop uuid_a, Pend_spawn uuid_a 3#}\<rparr>)"
    using sys_step.delete [of sample_pg "sample_env [] 5" uuid_a
        "?s\<lparr>sy_db := tenant_db, sy_pending := {#Pend_spawn uuid_a 3#}\<rparr>" d' "Inr ()"]
    by (simp add: next_call_def)
  have "StopConsumer mem_amqp uuid_a (mem_empty, sample_manager) = Returns ((mem_empty, sample_manager), Inl (err_not_found uuid_a))"
    using StopConsumer_miss [of "(mem_empty, sample_manager)" uuid_a mem_amqp] reg by simp
  then have c: "?S (?s\<lparr>sy_db := d', sy_pending := {#Pend_stop uuid_a, Pend_spawn uuid_a 3#}\<rparr>)
      (Do_stop uuid_a (Inl (err_not_found uuid_a))) (?s\<lparr>sy_db := d', sy_pending := {#Pend_spawn uuid_a 3#}\<rparr>)"
    using sys_step.stop [of uuid_a "?s\<lparr>sy_db := d', sy_pending := {#Pend_stop uuid_a, Pend_spawn uuid_a 3#}\<rparr>" mem_amqp
        "(mem_empty, sample_manager)" "Inl (err_not_found uuid_a)"] reg
    by (simp add: sys_init_def stopped_def)
  from mem_spawn [OF sample_manager_ok(1) reg, of 3 mem_empty] obtain m' where
    "SpawnConsumer mem_amqp uuid_a 3 (mem_empty, sample_manager) = Returns (m', Inr ())" ..
  then have d: "?S (?s\<lparr>sy_db := d', sy_pending := {#Pend_spawn uuid_a 3#}\<rparr>) (Do_spawn uuid_a 3 (Inr ()))
      (?s\<lparr>sy_mgr := m', sy_db := d', sy_pending := {#}\<rparr>)"
    using sys_step.spawn [of uuid_a 3 "?s\<lparr>sy_db := d', sy_pending := {#Pend_spawn uuid_a 3#}\<rparr>" mem_amqp m' "Inr ()"]
    by (simp add: sys_init_def)
  from a have "?S ?s (Req_create (sample_env uuid_a 1000) (sample_request 90) (Inr ?t))
      (?s\<lparr>sy_db := tenant_db, sy_pending := {#Pend_spawn uuid_a 3#}\<rparr>)"
    by (simp add: spawn_next_def t sys_init_def)
  from this b c d show ?thesis
    by (intro exI [of _ "?s\<lparr>sy_mgr := m', sy_db := d', sy_pending := {#}\<rparr>"]) (rule run_ConsI, assumption, rule run_ConsI, assumption,
        rule run_ConsI, assumption, rule run_ConsI, assumption, rule run_NilI)
qed

theorem delete_during_create_leaks_witness:
  "\<exists>s1. run (sys_step mem_amqp sample_js sample_crypto sample_pg sample_time) (sys_init (mem_empty, sample_manager) db_empty)
     [Req_create (sample_env uuid_a 1000) (sample_request 90) (Inr (scan_tenant sample_time (sample_tenant 3 1000))),
      Req_delete (sample_env [] 5) uuid_a (Inr ()), Do_stop uuid_a (Inl (err_not_found uuid_a)), Do_spawn uuid_a 3 (Inr ())] s1 \<and>
     uuid_a \<in> registered (sy_mgr s1) \<and> uuid_a \<notin> t_id ` set (tenants (sy_db s1))"
proof -
  let ?s = "sys_init (mem_empty, sample_manager) db_empty" and ?t = "scan_tenant sample_time (sample_tenant 3 1000)"
  have t: "tr_ID ?t = uuid_a" "tr_Workers ?t = 3" by (simp_all add: scan_tenant_def sample_tenant_def)
  have ok: "sys_ok sample_pg ?s"
    unfolding sample_manager_def
    by (rule sys_init_ok [OF sample_uuid_lawful db_ok_empty sample_limits [unfolded sample_manager_def]])
  from sample_race obtain s1 where r: "run (sys_step mem_amqp sample_js sample_crypto sample_pg sample_time) ?s
     [Req_create (sample_env uuid_a 1000) (sample_request 90) (Inr ?t), Req_delete (sample_env [] 5) uuid_a (Inr ()),
      Do_stop uuid_a (Inl (err_not_found uuid_a)), Do_spawn uuid_a 3 (Inr ())] s1" ..
  have "uuid_a \<in> registered (sy_mgr s1) \<and> uuid_a \<notin> t_id ` set (tenants (sy_db s1))"
    using delete_during_create_leaks [OF ok, of ?t, unfolded t, OF _ _ r run_NilI]
    by (simp add: sys_init_def registered_def ListConsumers_def sample_manager_ok)
  with r show ?thesis by blast
qed

lemma sample_late:
  assumes "s = (sample_sys w [sample_item 3])\<lparr>sy_pending := {#Pend_resize uuid_b 3, Pend_stop uuid_b#}\<rparr>"
  shows "\<exists>s1 c. run (sys_step mem_amqp js cr pg tm) s
      [Do_lookup uuid_b 3, Do_stop uuid_b (Inr ()), At uuid_b (Works (Returned 0))] s1 \<and>
    sy_stopping s1 = [(uuid_b, c)] \<and> tc_WorkerPool c = sample_pool True [sample_item 3] Exited \<and>
    sy_pending s1 = {#Pend_late 0 3#} \<and> snd (sy_mgr s1) = sample_manager"
proof -
  let ?S = "sys_step mem_amqp js cr pg tm"
  let ?c = "sample_consumer (sample_pool False [sample_item 3] Idle)"
  let ?c1 = "closed_consumer ?c"
  let ?c2 = "?c1\<lparr>tc_WorkerPool := sample_pool True [sample_item 3] Exited\<rparr>"
  let ?s1 = "s\<lparr>sy_pending := {#Pend_stop uuid_b, Pend_apply uuid_b 3#}\<rparr>"
  let ?m = "(am_Close mem_amqp 0 w, sample_manager)"
  let ?s2 = "s\<lparr>sy_mgr := ?m, sy_stopping := [(uuid_b, ?c1)], sy_pending := {#Pend_late 0 3#}\<rparr>"
  have mg: "snd (sy_mgr s) = sample_manager\<lparr>mg_consumers := [(uuid_b, ?c)]\<rparr>" "fst (sy_mgr s) = w" "sy_stopping s = []"
    "sy_pending s = {#Pend_resize uuid_b 3, Pend_stop uuid_b#}" by (simp_all add: assms sample_sys_def sys_init_def)
  have "?S s (Do_lookup uuid_b 3) (s\<lparr>sy_pending := sy_pending s - {#Pend_resize uuid_b 3#} + {#Pend_apply uuid_b 3#}\<rparr>)"
    by (rule sys_step.lookup [of _ _ _ ?c]) (simp_all add: mg GetConsumer_def)
  then have a: "?S s (Do_lookup uuid_b 3) ?s1" by (simp add: mg add_mset_commute)
  have sm: "sample_manager\<lparr>mg_consumers := []\<rparr> = sample_manager" by (simp add: sample_manager_def NewManager_def)
  have m: "sy_mgr ?s1 = (w, sample_manager\<lparr>mg_consumers := [(uuid_b, ?c)]\<rparr>)" using mg(1,2) by (simp add: prod_eq_iff)
  have st: "StopConsumer mem_amqp uuid_b (sy_mgr ?s1) = Returns (?m, Inr ())"
    unfolding m by (simp add: StopConsumer_def shutdown_consumer_def chan_close_def Stop_signal_def remove_consumer_def sm
        sample_consumer_def sample_pool_def)
  have "?S ?s1 (Do_stop uuid_b (Inr ()))
      (stop_consumers (stopped uuid_b (snd (sy_mgr ?s1))) (?s1\<lparr>sy_mgr := ?m, sy_pending := sy_pending ?s1 - {#Pend_stop uuid_b#}\<rparr>))"
    by (rule sys_step.stop [OF _ st]) simp
  moreover have "stopped uuid_b (snd (sy_mgr ?s1)) = [(uuid_b, ?c1)]" by (simp add: mg stopped_def)
  ultimately have b: "?S ?s1 (Do_stop uuid_b (Inr ())) ?s2"
    by (cases s) (simp add: stop_consumers_def retarget_def assms sample_sys_def sys_init_def)
  have "pool_step (tc_WorkerPool ?c1) (Returned 0) (sample_pool True [sample_item 3] Exited)"
    using pool_step.exit [of 0 "tc_WorkerPool ?c1"] by (simp add: closed_consumer_def sample_consumer_def sample_pool_def)
  from consumer_step.works [OF _ this, of js pg "sy_db ?s2"]
  have "consumer_step js pg (?c1, sy_db ?s2) (Works (Returned 0)) (?c2, sy_db ?s2)" by simp
  from sys_step.at_stopping [OF _ _ this, of 0 uuid_b mem_amqp cr tm]
  have c: "?S ?s2 (At uuid_b (Works (Returned 0))) (?s2\<lparr>sy_stopping := [(uuid_b, ?c2)]\<rparr>)" by simp
  from a b c have "run ?S s [Do_lookup uuid_b 3, Do_stop uuid_b (Inr ()), At uuid_b (Works (Returned 0))] (?s2\<lparr>sy_stopping := [(uuid_b, ?c2)]\<rparr>)"
    by - (rule run_ConsI, assumption, rule run_ConsI, assumption, rule run_ConsI, assumption, rule run_NilI)
  then show ?thesis by (intro exI [of _ "?s2\<lparr>sy_stopping := [(uuid_b, ?c2)]\<rparr>"] exI [of _ ?c2] conjI) simp_all
qed

theorem late_resize_restarts_witness:
  "\<exists>w s s1. run (sys_step mem_amqp sample_js sample_crypto sample_pg sample_time) s
      [Do_lookup uuid_b 3, Do_stop uuid_b (Inr ()), At uuid_b (Works (Returned 0)), Do_resize uuid_b 3 (Inr ())] s1 \<and>
    s = (sample_sys w [sample_item 3])\<lparr>sy_pending := {#Pend_resize uuid_b 3, Pend_stop uuid_b#}\<rparr> \<and>
    uuid_b \<notin> registered (sy_mgr s1) \<and> (\<exists>c. sy_stopping s1 = [(uuid_b, c)] \<and> \<not> Stop_returns (tc_WorkerPool c))"
proof -
  let ?S = "sys_step mem_amqp sample_js sample_crypto sample_pg sample_time"
  let ?s = "(sample_sys mem_empty [sample_item 3])\<lparr>sy_pending := {#Pend_resize uuid_b 3, Pend_stop uuid_b#}\<rparr>"
  from sample_late [OF refl, of sample_js sample_crypto sample_pg sample_time mem_empty] obtain s1 c where
    s1: "run ?S ?s [Do_lookup uuid_b 3, Do_stop uuid_b (Inr ()), At uuid_b (Works (Returned 0))] s1"
    "sy_stopping s1 = [(uuid_b, c)]" "tc_WorkerPool c = sample_pool True [sample_item 3] Exited"
    "sy_pending s1 = {#Pend_late 0 3#}" "snd (sy_mgr s1) = sample_manager" by (elim exE conjE)
  have p: "Pend_late 0 3 \<in># sy_pending s1" "0 < length (sy_stopping s1)" "sy_stopping s1 ! 0 = (uuid_b, c)"
    "Stop_returns (tc_WorkerPool c)" "limits_ok (snd (sy_mgr s1))"
    "0 \<le> wp_workers (tc_WorkerPool c)" "wp_workers (tc_WorkerPool c) < clamp_update (snd (sy_mgr s1)) 3"
    by (simp_all add: s1 sample_limits Stop_returns_def sample_pool_def)
      (simp add: clamp_update_def sample_manager_def NewManager_def)
  from late_resize_restarts [OF p, of mem_amqp sample_js sample_crypto sample_pg sample_time] obtain c' where
    c': "?S s1 (Do_resize uuid_b 3 (Inr ())) (s1\<lparr>sy_stopping := [(uuid_b, c')], sy_pending := {#}\<rparr>)"
    "\<not> Stop_returns (tc_WorkerPool c')" by (auto simp: s1)
  have "run ?S ?s ([Do_lookup uuid_b 3, Do_stop uuid_b (Inr ()), At uuid_b (Works (Returned 0))] @ [Do_resize uuid_b 3 (Inr ())])
      (s1\<lparr>sy_stopping := [(uuid_b, c')], sy_pending := {#}\<rparr>)"
    unfolding run_append using s1(1) c'(1) by (intro exI [of _ s1] conjI) (assumption, simp)
  moreover have "uuid_b \<notin> registered (sy_mgr s1)" by (simp add: registered_def ListConsumers_def s1 sample_manager_ok)
  ultimately show ?thesis using c'(2)
    by (intro exI [of _ mem_empty] exI [of _ ?s] exI [of _ "s1\<lparr>sy_stopping := [(uuid_b, c')], sy_pending := {#}\<rparr>"]) auto
qed

end
