(* ===== verification/Tenant_Spec.thy ===== *)
theory Tenant_Spec
  imports Tenant_Service
begin

text \<open>
  What the tenant service promises, without a database: a map from identifiers to names and worker
  counts. The operations of \<^verbatim>\<open>TenantService\<close> refine it, in every sequence: exactly when the database
  answers, and up to the two outcomes of a lost statement when it does not.
\<close>

section \<open>Refinement of sequences of operations\<close>

text \<open>
  Running operations one after the other, with their answers.
\<close>

fun run_ops :: "('o \<Rightarrow> 's \<Rightarrow> 's \<times> 'a) \<Rightarrow> 'o list \<Rightarrow> 's \<Rightarrow> 's \<times> 'a list" where
  "run_ops ex [] s = (s, [])"
| "run_ops ex (p # ps) s = (let (s', a) = ex p s; (s'', as) = run_ops ex ps s' in (s'', a # as))"

text \<open>The answers and states that a specification with several outcomes allows.\<close>

inductive allowed :: "('o \<Rightarrow> 'm \<Rightarrow> 'm \<Rightarrow> 'a \<Rightarrow> bool) \<Rightarrow> 'o list \<Rightarrow> 'm \<Rightarrow> 'm \<Rightarrow> 'a list \<Rightarrow> bool"
  for sp where
  allowed_Nil: "allowed sp [] m m []"
| allowed_Cons: "sp p m m1 a \<Longrightarrow> allowed sp ps m1 m2 as \<Longrightarrow> allowed sp (p # ps) m m2 (a # as)"

locale refinement =
  fixes ex :: "'o \<Rightarrow> 's \<Rightarrow> 's \<times> 'a"
    and spec :: "'o \<Rightarrow> 'm \<Rightarrow> 'm \<times> 'a"
    and outcome :: "'o \<Rightarrow> 'm \<Rightarrow> 'm \<Rightarrow> 'a \<Rightarrow> bool"
    and inv :: "'s \<Rightarrow> bool"
    and abstr :: "'s \<Rightarrow> 'm"
    and healthy :: "'o \<Rightarrow> bool"
    and plausible :: "'o \<Rightarrow> bool"
  assumes keeps: "inv s \<Longrightarrow> inv (fst (ex p s))"
    and exact: "inv s \<Longrightarrow> healthy p \<Longrightarrow> ex p s = (s', a) \<Longrightarrow> spec p (abstr s) = (abstr s', a)"
    and sound: "inv s \<Longrightarrow> plausible p \<Longrightarrow> ex p s = (s', a) \<Longrightarrow> outcome p (abstr s) (abstr s') a"
begin

lemma run_exact:
  "inv s \<Longrightarrow> \<forall>p \<in> set ps. healthy p \<Longrightarrow> run_ops ex ps s = (s', as) \<Longrightarrow>
     run_ops spec ps (abstr s) = (abstr s', as) \<and> inv s'"
proof (induction ps arbitrary: s as)
  case (Cons p ps)
  obtain s1 a where p: "ex p s = (s1, a)" by force
  obtain as' where r: "run_ops ex ps s1 = (s', as')" "as = a # as'"
    using Cons.prems(3) by (auto simp: p split: prod.splits)
  have "inv s1" using keeps [OF Cons.prems(1), of p] p by simp
  from Cons.IH [OF this _ r(1)] exact [OF Cons.prems(1) _ p] Cons.prems(2) r(2) show ?case by simp
qed simp

lemma run_sound:
  "inv s \<Longrightarrow> \<forall>p \<in> set ps. plausible p \<Longrightarrow> run_ops ex ps s = (s', as) \<Longrightarrow> allowed outcome ps (abstr s) (abstr s') as"
proof (induction ps arbitrary: s as)
  case (Cons p ps)
  obtain s1 a where p: "ex p s = (s1, a)" by force
  obtain as' where r: "run_ops ex ps s1 = (s', as')" "as = a # as'"
    using Cons.prems(3) by (auto simp: p split: prod.splits)
  have "inv s1" using keeps [OF Cons.prems(1), of p] p by simp
  from Cons.IH [OF this _ r(1)] sound [OF Cons.prems(1) _ p] Cons.prems(2) r(2) show ?case
    by (auto intro: allowed_Cons)
qed (auto intro: allowed_Nil)

end

section \<open>The specification\<close>

datatype tenant_op =
    Op_create svc_env CreateTenantRequest
  | Op_get svc_env string
  | Op_delete svc_env string
  | Op_update svc_env string int

datatype tenant_answer =
    A_tenant string string int
  | A_done
  | A_missing
  | A_refused

type_synonym tenant_map = "string \<rightharpoonup> string \<times> int"

definition default_workers :: "int \<Rightarrow> int" where
  "default_workers n = (if 1 \<le> n \<and> n \<le> 50 then n else 3)"

fun spec_op :: "pg_server \<Rightarrow> tenant_op \<Rightarrow> tenant_map \<Rightarrow> tenant_map \<times> tenant_answer" where
  "spec_op pg (Op_create env req) m =
     (case uuid_in pg (se_uuid env) of
        None \<Rightarrow> (m, A_refused)
      | Some u \<Rightarrow>
          if varchar_in pg 255 (ct_Name req) \<and> m u = None \<and> ct_Name req \<notin> fst ` ran m
          then (m(u \<mapsto> (ct_Name req, default_workers (ct_Workers req))),
                A_tenant u (ct_Name req) (default_workers (ct_Workers req)))
          else (m, A_refused))"
| "spec_op pg (Op_get env t) m =
     (m, case uuid_in pg t of
           None \<Rightarrow> A_refused
         | Some u \<Rightarrow> (case m u of None \<Rightarrow> A_missing | Some (name, n) \<Rightarrow> A_tenant u name n))"
| "spec_op pg (Op_delete env t) m =
     (case uuid_in pg t of
        None \<Rightarrow> (m, A_refused)
      | Some u \<Rightarrow> (case m u of None \<Rightarrow> (m, A_missing) | Some _ \<Rightarrow> (m(u := None), A_done)))"
| "spec_op pg (Op_update env t n) m =
     (if 1 \<le> n \<and> n \<le> 50
      then (case uuid_in pg t of
              None \<Rightarrow> (m, A_refused)
            | Some u \<Rightarrow> (case m u of None \<Rightarrow> (m, A_missing) | Some (name, _) \<Rightarrow> (m(u \<mapsto> (name, n)), A_tenant u name n)))
      else (m, A_refused))"

text \<open>With a database that may lose a statement or its answer: the call is refused, its effect may have happened.\<close>

definition spec_outcome :: "pg_server \<Rightarrow> tenant_op \<Rightarrow> tenant_map \<Rightarrow> tenant_map \<Rightarrow> tenant_answer \<Rightarrow> bool" where
  "spec_outcome pg p m m' a \<longleftrightarrow> spec_op pg p m = (m', a) \<or> a = A_refused \<and> (m' = m \<or> m' = fst (spec_op pg p m))"

section \<open>The service\<close>

fun op_env :: "tenant_op \<Rightarrow> svc_env" where
  "op_env (Op_create env req) = env"
| "op_env (Op_get env t) = env"
| "op_env (Op_delete env t) = env"
| "op_env (Op_update env t n) = env"

text \<open>What the handlers distinguish of a result: \<^verbatim>\<open>err == sql.ErrNoRows\<close> or any other error.\<close>

definition tenant_answer :: "TenantResponse res \<Rightarrow> tenant_answer" where
  "tenant_answer r =
     (case r of
        Inl e \<Rightarrow> if e = ErrNoRows then A_missing else A_refused
      | Inr t \<Rightarrow> A_tenant (tr_ID t) (tr_Name t) (tr_Workers t))"

definition delete_answer :: "unit res \<Rightarrow> tenant_answer" where
  "delete_answer r = (case r of Inl e \<Rightarrow> if e = ErrNoRows then A_missing else A_refused | Inr _ \<Rightarrow> A_done)"

fun exec_op :: "pg_server \<Rightarrow> go_time \<Rightarrow> tenant_op \<Rightarrow> db \<Rightarrow> db \<times> tenant_answer" where
  "exec_op pg tm (Op_create env req) d = apsnd tenant_answer (CreateTenant pg tm env req d)"
| "exec_op pg tm (Op_get env t) d = apsnd tenant_answer (GetTenant pg tm env t d)"
| "exec_op pg tm (Op_delete env t) d = apsnd delete_answer (DeleteTenant pg env t d)"
| "exec_op pg tm (Op_update env t n) d = apsnd tenant_answer (TenantService_UpdateConcurrency pg tm env t n d)"

text \<open>The abstraction: what the table says of an identifier.\<close>

definition tenant_abs :: "db \<Rightarrow> tenant_map" where
  "tenant_abs d u = map_option (\<lambda>r. (t_name r, t_concurrency r)) (find_by t_id u (tenants d))"

text \<open>The errors of a fault are the driver's, never \<^verbatim>\<open>sql.ErrNoRows\<close>, which \<^verbatim>\<open>Scan\<close> makes up.\<close>

definition fault_plausible :: "svc_env \<Rightarrow> bool" where
  "fault_plausible env \<longleftrightarrow> se_fault env \<noteq> Lost_request ErrNoRows \<and> se_fault env \<noteq> Lost_reply ErrNoRows \<and>
     se_rows_err env \<noteq> Some ErrNoRows"

lemma names_abs: "distinct (map t_id (tenants d)) \<Longrightarrow> fst ` ran (tenant_abs d) = t_name ` set (tenants d)"
proof -
  assume "distinct (map t_id (tenants d))"
  then have "ran (tenant_abs d) = (\<lambda>r. (t_name r, t_concurrency r)) ` set (tenants d)"
    by (fastforce simp: ran_def tenant_abs_def dest: find_by_SomeD find_by_unique)
  then show ?thesis by (simp add: image_image)
qed

lemma tenant_abs_None: "tenant_abs d u = None \<longleftrightarrow> u \<notin> t_id ` set (tenants d)"
  by (simp add: tenant_abs_def)

lemma tenant_abs_insert:
  "t_id r \<notin> t_id ` set (tenants d) \<Longrightarrow>
     tenant_abs (d\<lparr>tenants := tenants d @ [r]\<rparr>) = (tenant_abs d)(t_id r \<mapsto> (t_name r, t_concurrency r))"
  by (auto simp: tenant_abs_def fun_eq_iff find_by_append dest: find_by_image split: option.splits)

lemma tenant_abs_delete:
  "tenant_abs (d\<lparr>tenants := delete_by t_id u (tenants d), users := us\<rparr>) = (tenant_abs d)(u := None)"
  by (simp add: tenant_abs_def fun_eq_iff find_by_delete_by)

lemma tenant_abs_update:
  "tenant_abs (d\<lparr>tenants := update_by t_id u (\<lambda>r. r\<lparr>t_concurrency := n, t_updated_at := now\<rparr>) (tenants d)\<rparr>) =
     (case tenant_abs d u of None \<Rightarrow> tenant_abs d | Some (name, _) \<Rightarrow> (tenant_abs d)(u \<mapsto> (name, n)))"
  by (cases "find_by t_id u (tenants d)")
    (auto simp: tenant_abs_def fun_eq_iff find_by_update_by simp del: find_by_None)

text \<open>The same operation with a database that answers.\<close>

definition heal :: "svc_env \<Rightarrow> svc_env" where
  "heal env = env\<lparr>se_fault := Delivered, se_rows_err := None\<rparr>"

fun heal_op :: "tenant_op \<Rightarrow> tenant_op" where
  "heal_op (Op_create env req) = Op_create (heal env) req"
| "heal_op (Op_get env t) = Op_get (heal env) t"
| "heal_op (Op_delete env t) = Op_delete (heal env) t"
| "heal_op (Op_update env t n) = Op_update (heal env) t n"

lemma heal_simps [simp]:
  "se_fault (heal env) = Delivered" "se_rows_err (heal env) = None" "se_now (heal env) = se_now env"
  "se_uuid (heal env) = se_uuid env" "svc_healthy env \<Longrightarrow> heal env = env"
  by (simp_all add: heal_def svc_healthy_def)

lemma spec_op_heal [simp]: "spec_op pg (heal_op p) m = spec_op pg p m"
  by (cases p) simp_all

lemma exec_create:
  assumes "db_ok pg d" "exec_op pg tm (Op_create (heal env) req) d = (d', a)"
  shows "spec_op pg (Op_create env req) (tenant_abs d) = (tenant_abs d', a)"
proof -
  have ok: "distinct (map t_id (tenants d))" using assms(1) by (simp add: db_ok_def tenants_ok_def)
  have n: "(if 0 < ct_Workers req \<and> ct_Workers req \<le> 50 then ct_Workers req else 3) = default_workers (ct_Workers req)"
    "int4_ok (default_workers (ct_Workers req))"
    by (auto simp: default_workers_def int4_ok_def)
  note e = assms(2) [unfolded exec_op.simps CreateTenant_def n(1) Let_def heal_simps with_fault.simps]
  show ?thesis
  proof (cases "uuid_in pg (se_uuid env)")
    case None
    with e show ?thesis by (auto simp: sql_insert_tenant_def tenant_answer_def ErrNoRows_def)
  next
    case (Some u)
    let ?new = "varchar_in pg 255 (ct_Name req) \<and> tenant_abs d u = None \<and> ct_Name req \<notin> fst ` ran (tenant_abs d)"
    show ?thesis
    proof (cases ?new)
      case True
      with e Some n(2) show ?thesis
        by (auto simp: sql_insert_tenant_def tenant_answer_def scan_tenant_def Let_def names_abs [OF ok]
            tenant_abs_None tenant_abs_insert)
    next
      case False
      with e Some n(2) show ?thesis
        by (auto simp: sql_insert_tenant_def tenant_answer_def ErrNoRows_def names_abs [OF ok] tenant_abs_None
            split: if_splits)
    qed
  qed
qed

lemma exec_exact_heal:
  assumes "db_ok pg d" "exec_op pg tm (heal_op p) d = (d', a)"
  shows "spec_op pg p (tenant_abs d) = (tenant_abs d', a)"
proof (cases p)
  case (Op_create env req)
  with assms show ?thesis by (simp only: heal_op.simps exec_create)
next
  case (Op_get env t)
  with assms(2) show ?thesis
    by (cases "uuid_in pg t"; cases "find_by t_id (the (uuid_in pg t)) (tenants d)")
      (auto simp: GetTenant_def sql_select_tenant_def tenant_answer_def scan_tenant_def tenant_abs_def
        simp del: find_by_None dest: find_by_SomeD)
next
  case (Op_delete env t)
  show ?thesis
  proof (cases "uuid_in pg t")
    case None
    with assms(2) Op_delete show ?thesis
      by (auto simp: DeleteTenant_def sql_delete_tenant_def delete_answer_def ErrNoRows_def)
  next
    case (Some u)
    have "length (filter (\<lambda>r. t_id r = u) (tenants d)) = 0 \<longleftrightarrow> tenant_abs d u = None"
      by (auto simp: tenant_abs_None filter_empty_conv)
    with Some assms(2) Op_delete show ?thesis
      by (cases "tenant_abs d u")
        (auto simp: DeleteTenant_def sql_delete_tenant_def delete_answer_def tenant_abs_delete)
  qed
next
  case (Op_update env t n)
  have "int4_ok n" if "1 \<le> n" "n \<le> 50" using that by (simp add: int4_ok_def)
  with assms(2) Op_update show ?thesis
    by (cases "uuid_in pg t"; cases "find_by t_id (the (uuid_in pg t)) (tenants d)")
      (auto simp: TenantService_UpdateConcurrency_def sql_update_concurrency_def tenant_answer_def scan_tenant_def
        tenant_abs_update tenant_abs_def Let_def err_workers_def ErrNoRows_def invalid_text_def simp del: find_by_None
        dest: find_by_SomeD split: if_splits)
qed

lemma heal_op_id: "svc_healthy (op_env p) \<Longrightarrow> heal_op p = p"
  by (cases p) simp_all

lemma exec_faulty:
  assumes "fault_plausible (op_env p)" "exec_op pg tm (heal_op p) d = (d1, a1)" "exec_op pg tm p d = (d', a)"
  shows "(d', a) = (d1, a1) \<or> a = A_refused \<and> (d' = d \<or> d' = d1)"
proof -
  have f: "Inl e \<noteq> Inl ErrNoRows" if "se_fault (op_env p) = Lost_request e \<or> se_fault (op_env p) = Lost_reply e" for e
    using assms(1) that by (auto simp: fault_plausible_def)
  have r: "e \<noteq> ErrNoRows" if "se_rows_err (op_env p) = Some e" for e
    using assms(1) that by (auto simp: fault_plausible_def)
  show ?thesis
    by (cases p; cases "se_fault (op_env p)"; insert assms(2,3) f r)
      (auto simp: CreateTenant_def GetTenant_def DeleteTenant_def TenantService_UpdateConcurrency_def Let_def
        tenant_answer_def delete_answer_def ErrNoRows_def
        split: prod.splits sum.splits if_splits option.splits)
qed

lemma exec_op_ok: "uuid_lawful pg \<Longrightarrow> db_ok pg d \<Longrightarrow> db_ok pg (fst (exec_op pg tm p d))"
proof (cases p)
  case (Op_get env t)
  assume "db_ok pg d"
  with Op_get show ?thesis
    by (cases "se_fault env") (auto simp: GetTenant_def sql_select_tenant_def split: sum.split prod.split)
qed (simp_all add: service_ok)

interpretation tenant_service: refinement "exec_op pg tm" "spec_op pg" "spec_outcome pg"
    "\<lambda>d. uuid_lawful pg \<and> db_ok pg d" tenant_abs "\<lambda>p. svc_healthy (op_env p)" "\<lambda>p. fault_plausible (op_env p)" for pg tm
proof (unfold_locales, goal_cases)
  case (1 s p)
  then show ?case by (simp add: exec_op_ok)
next
  case (2 s p s' a)
  then show ?case using exec_exact_heal [of pg s tm p s' a] by (simp add: heal_op_id)
next
  case (3 s p s' a)
  obtain s1 a1 where h: "exec_op pg tm (heal_op p) s = (s1, a1)" by force
  with 3 exec_exact_heal [OF _ h] exec_faulty [OF _ h, of s' a] show ?case by (auto simp: spec_outcome_def)
qed

section \<open>Property\<close>

text \<open>
  C2: the tenant service refines its specification. Any sequence of creations, reads, deletions and
  updates of the concurrency gives, from a database that satisfies its constraints, the answers that
  the same sequence gives on a map from identifiers to names and worker counts, and leaves the map
  that the table then represents, as long as the database answers. When it does not, each call either
  did what the map does or was refused, its effect present or absent.
\<close>

theorem tenant_service_refines:
  assumes "uuid_lawful pg" "db_ok pg d" "run_ops (exec_op pg tm) ps d = (d', as)"
  shows "((\<forall>p \<in> set ps. svc_healthy (op_env p)) \<longrightarrow> run_ops (spec_op pg) ps (tenant_abs d) = (tenant_abs d', as)) \<and>
    ((\<forall>p \<in> set ps. fault_plausible (op_env p)) \<longrightarrow> allowed (spec_outcome pg) ps (tenant_abs d) (tenant_abs d') as)"
  using tenant_service.run_exact [of pg d ps tm d' as] tenant_service.run_sound [of pg d ps tm d' as] assms by simp

theorem tenant_service_refines_witness:
  "\<exists>d'. run_ops (exec_op sample_pg sample_time) [Op_create (sample_env uuid_a 1000) (sample_request 90),
       Op_update (sample_env [] 2000) uuid_A_upper 7, Op_get (sample_env [] 0) uuid_a, Op_get (sample_env [] 0) uuid_b]
       db_empty = (d', [A_tenant uuid_a ''acme'' 3, A_tenant uuid_a ''acme'' 7, A_tenant uuid_a ''acme'' 7, A_missing]) \<and>
     tenant_abs d' = [uuid_a \<mapsto> (''acme'', 7)]"
proof -
  let ?ps = "[Op_create (sample_env uuid_a 1000) (sample_request 90),
       Op_update (sample_env [] 2000) uuid_A_upper 7, Op_get (sample_env [] 0) uuid_a, Op_get (sample_env [] 0) uuid_b]"
  obtain d' as where r: "run_ops (exec_op sample_pg sample_time) ?ps db_empty = (d', as)" by force
  have e: "tenant_abs db_empty = Map.empty" by (auto simp: tenant_abs_def fun_eq_iff db_empty_def find_by_def)
  have u: "se_uuid (sample_env t n) = t" for t n by (simp add: sample_env_def)
  have v: "varchar_in sample_pg 255 ''acme''" by (simp add: sample_pg_def)
  have "run_ops (spec_op sample_pg) ?ps Map.empty = (tenant_abs d', as)"
    using tenant_service_refines [OF sample_uuid_lawful db_ok_empty r] e by simp
  then have "tenant_abs d' = [uuid_a \<mapsto> (''acme'', 7)] \<and>
      as = [A_tenant uuid_a ''acme'' 3, A_tenant uuid_a ''acme'' 7, A_tenant uuid_a ''acme'' 7, A_missing]"
    by (auto simp: u sample_request_def default_workers_def v)
  with r show ?thesis by auto
qed

end
