(* ===== verification/Base64.thy ===== *)
theory Base64
  imports Prelude
begin

text \<open>
  \<^verbatim>\<open>base64.URLEncoding\<close> of Go's \<^verbatim>\<open>encoding/base64\<close>: \<^verbatim>\<open>EncodeToString\<close> and \<^verbatim>\<open>DecodeString\<close>, on the bytes of
  a string. The decoder skips line breaks, wants the padding and ignores the bits it pads.
\<close>

definition b64_chr :: "nat \<Rightarrow> char" where
  "b64_chr n =
     (if n < 26 then char_of (n + 65) else if n < 52 then char_of (n + 71)
      else if n < 62 then char_of (n - 4) else if n = 62 then CHR ''-'' else CHR ''_'')"

definition b64_val :: "char \<Rightarrow> nat option" where
  "b64_val c =
     (let n = of_char c in
      if 65 \<le> n \<and> n \<le> 90 then Some (n - 65) else if 97 \<le> n \<and> n \<le> 122 then Some (n - 71)
      else if 48 \<le> n \<and> n \<le> 57 then Some (n + 4) else if n = 45 then Some 62
      else if n = 95 then Some 63 else None)"

definition sextets :: "nat \<Rightarrow> string" where
  "sextets v = [b64_chr (v div 262144), b64_chr (v div 4096 mod 64), b64_chr (v div 64 mod 64), b64_chr (v mod 64)]"

fun EncodeToString :: "string \<Rightarrow> string" where
  "EncodeToString (a # b # c # s) =
     sextets (of_char a * 65536 + of_char b * 256 + of_char c) @ EncodeToString s"
| "EncodeToString [a, b] = take 3 (sextets (of_char a * 65536 + of_char b * 256)) @ ''=''"
| "EncodeToString [a] = take 2 (sextets (of_char a * 65536)) @ ''==''"
| "EncodeToString [] = []"

definition sextets_val :: "string \<Rightarrow> nat option" where
  "sextets_val cs =
     (case map b64_val cs of
        [Some w, Some x, Some y, Some z] \<Rightarrow> Some (w * 262144 + x * 4096 + y * 64 + z)
      | _ \<Rightarrow> None)"

definition octets :: "nat \<Rightarrow> string" where
  "octets v = [char_of (v div 65536), char_of (v div 256), char_of v]"

text \<open>The quanta of four; the last one may be padded, which stands for bits that are dropped.\<close>

fun quanta :: "string \<Rightarrow> string option" where
  "quanta [] = Some []"
| "quanta (p # q # r # t # s) =
     (if s = [] \<and> r = CHR ''='' \<and> t = CHR ''=''
      then map_option (\<lambda>v. take 1 (octets v)) (sextets_val [p, q, CHR ''A'', CHR ''A''])
      else if s = [] \<and> t = CHR ''=''
      then map_option (\<lambda>v. take 2 (octets v)) (sextets_val [p, q, r, CHR ''A''])
      else (case sextets_val [p, q, r, t] of
              None \<Rightarrow> None
            | Some v \<Rightarrow> map_option (\<lambda>bs. octets v @ bs) (quanta s)))"
| "quanta _ = None"

definition DecodeString :: "string \<Rightarrow> string res" where
  "DecodeString s =
     (case quanta (filter (\<lambda>c. c \<noteq> CHR 0x0A \<and> c \<noteq> CHR 0x0D) s) of
        None \<Rightarrow> Inl (ErrorNew ''illegal base64 data'')
      | Some b \<Rightarrow> Inr b)"

section \<open>Round trip\<close>

lemma of_char_b64_chr:
  "n < 64 \<Longrightarrow> (of_char (b64_chr n) :: nat) =
     (if n < 26 then n + 65 else if n < 52 then n + 71 else if n < 62 then n - 4 else if n = 62 then 45 else 95)"
  by (auto simp: b64_chr_def)

lemma b64_val_chr [simp]: "n < 64 \<Longrightarrow> b64_val (b64_chr n) = Some n"
  unfolding b64_val_def of_char_b64_chr Let_def by (simp split: if_splits) linarith

lemma b64_chr_plain: "n < 64 \<Longrightarrow> b64_chr n \<noteq> CHR ''='' \<and> b64_chr n \<noteq> CHR 0x0A \<and> b64_chr n \<noteq> CHR 0x0D"
proof -
  assume "n < 64"
  then have v: "b64_val (b64_chr n) = Some n" by simp
  have "b64_val (CHR ''='') = None" "b64_val (CHR 0x0A) = None" "b64_val (CHR 0x0D) = None" by code_simp+
  with v show ?thesis by auto
qed

lemma sextets_bounds:
  "v < 16777216 \<Longrightarrow> v div 262144 < 64" "(v :: nat) div 4096 mod 64 < 64" "v div 64 mod 64 < 64" "v mod 64 < 64"
  by auto

lemma sextets_join:
  "(v :: nat) div 262144 * 262144 + v div 4096 mod 64 * 4096 + v div 64 mod 64 * 64 + v mod 64 = v"
proof -
  have "v = v div 64 * 64 + v mod 64" "v div 64 = v div 4096 * 64 + v div 64 mod 64"
    "v div 4096 = v div 262144 * 64 + v div 4096 mod 64"
    using div_mult2_eq [of v 64 64] div_mult2_eq [of v 4096 64] div_mult_mod_eq [of v 64]
      div_mult_mod_eq [of "v div 64" 64] div_mult_mod_eq [of "v div 4096" 64] by simp_all
  then show ?thesis by linarith
qed

lemma sextets_val_sextets: "v < 16777216 \<Longrightarrow> sextets_val (sextets v) = Some v"
  using sextets_join [of v] by (simp add: sextets_val_def sextets_def sextets_bounds)

lemma char_of_add_256: "char_of (256 * k + of_char b :: nat) = b"
proof -
  have "char_of (256 * k + of_char b :: nat) = (char_of ((256 * k + of_char b) mod 256 :: nat) :: char)"
    by (simp only: char_of_mod_256)
  then show ?thesis by simp
qed

lemma octets_join: "octets (of_char a * 65536 + of_char b * 256 + of_char c) = [a, b, c]"
proof -
  let ?a = "of_char a :: nat" and ?b = "of_char b :: nat" and ?c = "of_char c :: nat"
  let ?v = "?a * 65536 + ?b * 256 + ?c"
  have l: "?b < 256" "?c < 256" by simp_all
  then have "?v div 65536 = ?a" "?v div 256 = 256 * ?a + ?b" by linarith+
  moreover have "?v = 256 * (256 * ?a + ?b) + ?c" by simp
  ultimately show ?thesis unfolding octets_def by (metis char_of_add_256 char_of_char)
qed

lemma octets_bound: "(of_char a :: nat) * 65536 + of_char b * 256 + of_char c < 16777216"
proof -
  have "(of_char a :: nat) < 256" "(of_char b :: nat) < 256" "(of_char c :: nat) < 256" by simp_all
  then show ?thesis by linarith
qed

lemma sextets_split:
  assumes "v < 16777216"
  obtains p q r t where "sextets v = [p, q, r, t]" "sextets_val [p, q, r, t] = Some v"
    "set [p, q, r, t] \<inter> {CHR ''='', CHR 0x0A, CHR 0x0D} = {}"
proof -
  have "b64_chr n \<notin> {CHR ''='', CHR 0x0A, CHR 0x0D}" if "n < 64" for n using b64_chr_plain [OF that] by simp
  with sextets_bounds assms sextets_val_sextets [OF assms] show thesis
    by (intro that [of "b64_chr (v div 262144)" "b64_chr (v div 4096 mod 64)" "b64_chr (v div 64 mod 64)" "b64_chr (v mod 64)"])
      (simp_all add: sextets_def)
qed

text \<open>Where the sextets carry only zero bits they are the letter A, whose place the padding takes.\<close>

lemma sextets_A: "v mod 64 = 0 \<Longrightarrow> sextets v ! 3 = CHR ''A''" "v div 64 mod 64 = 0 \<Longrightarrow> sextets v ! 2 = CHR ''A''"
proof -
  have A: "b64_chr 0 = CHR ''A''" by code_simp
  show "v mod 64 = 0 \<Longrightarrow> sextets v ! 3 = CHR ''A''" "v div 64 mod 64 = 0 \<Longrightarrow> sextets v ! 2 = CHR ''A''"
    by (simp_all only: sextets_def A nth_Cons_numeral nth_Cons_0 diff_numeral_special) (simp_all add: A)
qed

lemma sextets_pad:
  "sextets (of_char a * 65536 + of_char b * 256) ! 3 = CHR ''A''"
  "sextets (of_char a * 65536) ! 2 = CHR ''A''" "sextets (of_char a * 65536) ! 3 = CHR ''A''"
proof -
  have m: "(x * 65536 + y * 256) mod 64 = 0" "x * 65536 mod 64 = 0" "x * 65536 div 64 mod 64 = 0" for x y :: nat
    using mod_mult_self1_is_0 [of 64 "x * 1024 + y * 4"] mod_mult_self1_is_0 [of 64 "x * 16"]
    by (simp_all add: algebra_simps)
  show "sextets (of_char a * 65536 + of_char b * 256) ! 3 = CHR ''A''"
    "sextets (of_char a * 65536) ! 2 = CHR ''A''" "sextets (of_char a * 65536) ! 3 = CHR ''A''"
    by (rule sextets_A, rule m)+
qed

lemma quanta_encode: "quanta (EncodeToString s) = Some s \<and> set (EncodeToString s) \<inter> {CHR 0x0A, CHR 0x0D} = {}"
proof (induction s rule: EncodeToString.induct)
  case (1 a b c s)
  obtain p q r t where x: "sextets (of_char a * 65536 + of_char b * 256 + of_char c) = [p, q, r, t]"
    "sextets_val [p, q, r, t] = Some (of_char a * 65536 + of_char b * 256 + of_char c)"
    "set [p, q, r, t] \<inter> {CHR ''='', CHR 0x0A, CHR 0x0D} = {}"
    using octets_bound by (rule sextets_split)
  with 1 show ?case by (auto simp: octets_join)
next
  case (2 a b)
  have bnd: "of_char a * 65536 + of_char b * 256 < (16777216 :: nat)" using octets_bound [of a b "CHR 0x00"] by simp
  obtain p q r t where x: "sextets (of_char a * 65536 + of_char b * 256) = [p, q, r, t]"
    "sextets_val [p, q, r, t] = Some (of_char a * 65536 + of_char b * 256)"
    "set [p, q, r, t] \<inter> {CHR ''='', CHR 0x0A, CHR 0x0D} = {}"
    using bnd by (rule sextets_split)
  have "t = CHR ''A''" using sextets_pad(1) [of a b] by (simp add: x(1))
  with x octets_join [of a b "CHR 0x00"] show ?case by auto
next
  case (3 a)
  have bnd: "of_char a * 65536 < (16777216 :: nat)" using octets_bound [of a "CHR 0x00" "CHR 0x00"] by simp
  obtain p q r t where x: "sextets (of_char a * 65536) = [p, q, r, t]" "sextets_val [p, q, r, t] = Some (of_char a * 65536)"
    "set [p, q, r, t] \<inter> {CHR ''='', CHR 0x0A, CHR 0x0D} = {}"
    using bnd by (rule sextets_split)
  have "r = CHR ''A''" "t = CHR ''A''" using sextets_pad(2,3) [of a] by (simp_all add: x(1))
  with x octets_join [of a "CHR 0x00" "CHR 0x00"] show ?case by auto
qed simp

lemma DecodeString_EncodeToString: "DecodeString (EncodeToString s) = Inr s"
proof -
  have "filter (\<lambda>c. c \<noteq> CHR 0x0A \<and> c \<noteq> CHR 0x0D) (EncodeToString s) = EncodeToString s"
    using quanta_encode [of s] by (intro filter_True) auto
  with quanta_encode [of s] show ?thesis by (simp add: DecodeString_def)
qed

end
