(* ===== verification/Json_Text.thy ===== *)
theory Json_Text
  imports Prelude
begin

text \<open>
  The text level of \<^verbatim>\<open>encoding/json\<close>: UTF-8, string literals in both directions, and the form of
  number literals. Strings are byte strings. An encoder writes the bytes of a well-formed rune as
  they are, except for the escapes; it writes a byte that belongs to no rune as \<^verbatim>\<open>\ufffd\<close>, and a
  decoder puts U+FFFD in its place.
\<close>

section \<open>UTF-8\<close>

definition cont :: "char \<Rightarrow> bool" where
  "cont c \<longleftrightarrow> (let n = of_char c :: nat in 128 \<le> n \<and> n \<le> 191)"

text \<open>The second byte of a rune of three or four bytes, whose range depends on the first.\<close>

definition second :: "nat \<Rightarrow> char \<Rightarrow> bool" where
  "second n c \<longleftrightarrow> (let k = of_char c :: nat in
     (if n = 224 then 160 else if n = 240 then 144 else 128) \<le> k \<and>
     k \<le> (if n = 237 then 159 else if n = 244 then 143 else 191))"

text \<open>The length of the well-formed rune at the start, 0 where there is none.\<close>

definition rune_len :: "string \<Rightarrow> nat" where
  "rune_len s =
     (if s = [] then 0
      else
        let n = of_char (s ! 0) :: nat in
        if n < 128 then 1
        else if 194 \<le> n \<and> n \<le> 223 then (if 2 \<le> length s \<and> cont (s ! 1) then 2 else 0)
        else if 224 \<le> n \<and> n \<le> 239
        then (if 3 \<le> length s \<and> second n (s ! 1) \<and> cont (s ! 2) then 3 else 0)
        else if 240 \<le> n \<and> n \<le> 244
        then (if 4 \<le> length s \<and> second n (s ! 1) \<and> cont (s ! 2) \<and> cont (s ! 3) then 4 else 0)
        else 0)"

definition rune :: "string \<Rightarrow> bool" where
  "rune r \<longleftrightarrow> r \<noteq> [] \<and> rune_len r = length r"

text \<open>The runes of a string; the empty list stands for a byte of none.\<close>

function runes :: "string \<Rightarrow> string list" where
  "runes s =
     (if s = [] then []
      else if rune_len s = 0 then [] # runes (drop 1 s)
      else take (rune_len s) s # runes (drop (rune_len s) s))"
  by pat_completeness auto
termination by (relation "measure length") simp_all

declare runes.simps [simp del]

definition utf8 :: "string \<Rightarrow> bool" where
  "utf8 s \<longleftrightarrow> [] \<notin> set (runes s)"

lemma rune_len_cases:
  assumes "rune_len s \<noteq> 0"
  obtains "rune_len s = 1" "1 \<le> length s" "of_char (s ! 0) < (128::nat)"
  | "rune_len s = 2" "2 \<le> length s" "194 \<le> (of_char (s ! 0) :: nat)" "of_char (s ! 0) \<le> (223::nat)" "cont (s ! 1)"
  | "rune_len s = 3" "3 \<le> length s" "224 \<le> (of_char (s ! 0) :: nat)" "of_char (s ! 0) \<le> (239::nat)"
      "second (of_char (s ! 0)) (s ! 1)" "cont (s ! 2)"
  | "rune_len s = 4" "4 \<le> length s" "240 \<le> (of_char (s ! 0) :: nat)" "of_char (s ! 0) \<le> (244::nat)"
      "second (of_char (s ! 0)) (s ! 1)" "cont (s ! 2)" "cont (s ! 3)"
proof -
  obtain n :: nat where n: "n = of_char (s ! 0)" by simp
  have "s \<noteq> []" using assms by (auto simp: rune_len_def)
  then have "1 \<le> length s" by (simp add: Suc_le_eq)
  with assms show ?thesis
    using that \<open>s \<noteq> []\<close> unfolding rune_len_def Let_def n [symmetric]
    by (simp split: if_split_asm)
qed

lemma rune_len_cong:
  assumes "rune_len s \<noteq> 0" "rune_len s \<le> length u" "\<And>i. i < rune_len s \<Longrightarrow> u ! i = s ! i"
  shows "rune_len u = rune_len s"
  using assms(1)
proof (cases rule: rune_len_cases)
  case 1
  with assms(2) assms(3) [of 0] show ?thesis by (auto simp: rune_len_def)
next
  case 2
  with assms(2) assms(3) [of 0] assms(3) [of 1] show ?thesis by (auto simp: rune_len_def)
next
  case 3
  with assms(2) assms(3) [of 0] assms(3) [of 1] assms(3) [of 2] show ?thesis by (auto simp: rune_len_def)
next
  case 4
  with assms(2) assms(3) [of 0] assms(3) [of 1] assms(3) [of 2] assms(3) [of 3] show ?thesis by (auto simp: rune_len_def)
qed

lemma rune_len_le: "rune_len s \<le> length s"
proof (cases "rune_len s = 0")
  case False
  then show ?thesis by (cases rule: rune_len_cases) simp_all
qed simp

lemma rune_len_take: "rune_len s = n \<Longrightarrow> 0 < n \<Longrightarrow> n \<le> length s \<and> rune_len (take n s @ t) = n"
  using rune_len_le [of s] rune_len_cong [of s "take n s @ t"] by (simp add: nth_append)

lemma rune_append: "rune r \<Longrightarrow> rune_len (r @ t) = length r"
  using rune_len_take [of r "length r" t] by (simp add: rune_def)

lemma rune_ascii: "of_char c < (128::nat) \<Longrightarrow> rune [c]"
  by (simp add: rune_def rune_len_def)

lemma runes_rune: "rune r \<Longrightarrow> runes (r @ s) = r # runes s"
proof -
  assume r: "rune r"
  then have "r \<noteq> []" by (simp add: rune_def)
  then show ?thesis using rune_append [OF r, of s] by (simp add: runes.simps [of "r @ s"])
qed

lemma runes_Nil [simp]: "runes [] = []"
  by (simp add: runes.simps)

lemma utf8_runes: "utf8 s \<Longrightarrow> list_all rune (runes s) \<and> concat (runes s) = s"
proof (induction s rule: runes.induct)
  case (1 s)
  show ?case
  proof (cases "s = []")
    case False
    let ?n = "rune_len s"
    from 1 False have n: "?n \<noteq> 0" by (cases "?n = 0") (simp_all add: utf8_def runes.simps [of s])
    have eq: "runes s = take ?n s # runes (drop ?n s)" using False n by (simp add: runes.simps [of s])
    then have u: "utf8 (drop ?n s)" using 1 by (simp add: utf8_def)
    have "rune (take ?n s)" using rune_len_take [of s ?n "[]"] n False by (simp add: rune_def)
    moreover have "list_all rune (runes (drop ?n s)) \<and> concat (runes (drop ?n s)) = drop ?n s"
      using 1(2) [OF False n u] .
    ultimately show ?thesis by (simp add: eq)
  qed simp
qed

lemma utf8_Nil [simp]: "utf8 []"
  by (simp add: utf8_def)

lemma utf8_append_rune: "rune r \<Longrightarrow> utf8 (r @ s) \<longleftrightarrow> utf8 s"
  by (auto simp: utf8_def runes_rune rune_def)

lemma utf8_ascii: "list_all (\<lambda>c. of_char c < (128::nat)) s \<Longrightarrow> utf8 s"
proof (induction s)
  case (Cons c s)
  then show ?case using utf8_append_rune [OF rune_ascii, of c s] by simp
qed simp

text \<open>The bytes of a code point.\<close>

definition encode_rune :: "nat \<Rightarrow> string" where
  "encode_rune v =
     (if v < 128 then [char_of v]
      else if v < 2048 then [char_of (192 + v div 64), char_of (128 + v mod 64)]
      else if v < 65536 then [char_of (224 + v div 4096), char_of (128 + v div 64 mod 64), char_of (128 + v mod 64)]
      else [char_of (240 + v div 262144), char_of (128 + v div 4096 mod 64), char_of (128 + v div 64 mod 64),
            char_of (128 + v mod 64)])"

definition replacement :: string where
  "replacement = encode_rune 65533"

section \<open>String literals\<close>

definition hex :: "nat \<Rightarrow> char" where
  "hex n = (if n < 10 then char_of (48 + n) else char_of (87 + n))"

definition hex_val :: "char \<Rightarrow> nat option" where
  "hex_val c =
     (let n = of_char c :: nat in
      if 48 \<le> n \<and> n \<le> 57 then Some (n - 48) else if 97 \<le> n \<and> n \<le> 102 then Some (n - 87)
      else if 65 \<le> n \<and> n \<le> 70 then Some (n - 55) else None)"

text \<open>The four digits after \<^verbatim>\<open>\u\<close>.\<close>

definition hex4 :: "string \<Rightarrow> nat option" where
  "hex4 s =
     (case s of
        a # b # c # d # r \<Rightarrow>
          (case (hex_val a, hex_val b, hex_val c, hex_val d) of
             (Some a, Some b, Some c, Some d) \<Rightarrow> Some (4096 * a + 256 * b + 16 * c + d)
           | _ \<Rightarrow> None)
      | _ \<Rightarrow> None)"

text \<open>A high surrogate, and the escape of a low one after it: their code point.\<close>

definition surrogate :: "nat \<Rightarrow> bool" where
  "surrogate u \<longleftrightarrow> 0xD800 \<le> u \<and> u \<le> 0xDFFF"

definition low_surrogate :: "nat \<Rightarrow> string \<Rightarrow> nat option" where
  "low_surrogate u s =
     (if 0xD800 \<le> u \<and> u \<le> 0xDBFF \<and> take 2 s = [CHR 0x5C, CHR ''u'']
      then (case hex4 (drop 2 s) of
              Some v \<Rightarrow> if 0xDC00 \<le> v \<and> v \<le> 0xDFFF then Some (0x10000 + (u - 0xD800) * 1024 + (v - 0xDC00)) else None
            | None \<Rightarrow> None)
      else None)"

definition unescape :: "char \<Rightarrow> char option" where
  "unescape c =
     map_of [(CHR 0x22, CHR 0x22), (CHR 0x5C, CHR 0x5C), (CHR ''/'', CHR ''/''), (CHR ''b'', CHR 0x08),
             (CHR ''f'', CHR 0x0C), (CHR ''n'', CHR 0x0A), (CHR ''r'', CHR 0x0D), (CHR ''t'', CHR 0x09)] c"

definition emit :: "string \<Rightarrow> (string \<times> string) option \<Rightarrow> (string \<times> string) option" where
  "emit x p = map_option (\<lambda>(t, r). (x @ t, r)) p"

text \<open>After the opening quote: the string up to the closing one, and the rest of the input.\<close>

function str_lit :: "string \<Rightarrow> (string \<times> string) option" where
  "str_lit [] = None"
| "str_lit (c # s) =
     (if c = CHR 0x22 then Some ([], s)
      else if c = CHR 0x5C then
        (if s = [] then None
         else if hd s = CHR ''u'' then
           (case hex4 (drop 1 s) of
              None \<Rightarrow> None
            | Some u \<Rightarrow>
                (case low_surrogate u (drop 5 s) of
                   Some v \<Rightarrow> emit (encode_rune v) (str_lit (drop 11 s))
                 | None \<Rightarrow> emit (if surrogate u then replacement else encode_rune u) (str_lit (drop 5 s))))
         else (case unescape (hd s) of None \<Rightarrow> None | Some x \<Rightarrow> emit [x] (str_lit (drop 1 s))))
      else if of_char c < (32::nat) then None
      else if rune_len (c # s) = 0 then emit replacement (str_lit s)
      else emit (take (rune_len (c # s)) (c # s)) (str_lit (drop (rune_len (c # s)) (c # s))))"
  by pat_completeness auto
termination by (relation "measure length") auto

declare str_lit.simps [simp del]

text \<open>Writing a string, with the escapes that keep the text safe inside HTML.\<close>

definition u_escape :: "nat \<Rightarrow> string" where
  "u_escape n = [CHR 0x5C, CHR ''u'', hex (n div 4096), hex (n div 256 mod 16), hex (n div 16 mod 16), hex (n mod 16)]"

definition short_escape :: "char \<Rightarrow> char option" where
  "short_escape c =
     map_of [(CHR 0x22, CHR 0x22), (CHR 0x5C, CHR 0x5C), (CHR 0x08, CHR ''b''), (CHR 0x0C, CHR ''f''),
             (CHR 0x0A, CHR ''n''), (CHR 0x0D, CHR ''r''), (CHR 0x09, CHR ''t'')] c"

definition html_special :: "char \<Rightarrow> bool" where
  "html_special c \<longleftrightarrow> c \<in> {CHR ''<'', CHR ''>'', CHR ''&''}"

definition enc_rune :: "string \<Rightarrow> string" where
  "enc_rune r =
     (case r of
        [] \<Rightarrow> u_escape 65533
      | [c] \<Rightarrow>
          (case short_escape c of
             Some e \<Rightarrow> [CHR 0x5C, e]
           | None \<Rightarrow> if of_char c < (32::nat) \<or> html_special c then u_escape (of_char c) else [c])
      | _ \<Rightarrow> if r = encode_rune 0x2028 \<or> r = encode_rune 0x2029 then u_escape (if r = encode_rune 0x2028 then 0x2028 else 0x2029)
             else r)"

definition quote :: "string \<Rightarrow> string" where
  "quote s = CHR 0x22 # concat (map enc_rune (runes s)) @ [CHR 0x22]"

lemma hex_val_hex: "n < 16 \<Longrightarrow> hex_val (hex n) = Some n"
  by (cases "n < 10") (simp_all add: hex_val_def hex_def Let_def)

lemma hex4_digits: "n < 65536 \<Longrightarrow>
  hex4 (hex (n div 4096) # hex (n div 256 mod 16) # hex (n div 16 mod 16) # hex (n mod 16) # s) = Some n"
proof -
  assume "n < 65536"
  then have h: "n div 4096 < 16" by simp
  have "n div 16 div 16 = n div 256" "n div 256 div 16 = n div 4096" by (simp_all flip: div_mult2_eq)
  then have "4096 * (n div 4096) + 256 * (n div 256 mod 16) + 16 * (n div 16 mod 16) + n mod 16 = n"
    using mult_div_mod_eq [of 16 n] mult_div_mod_eq [of 16 "n div 16"] mult_div_mod_eq [of 16 "n div 256"] by linarith
  then show ?thesis using h by (simp add: hex4_def hex_val_hex)
qed

lemma str_lit_u:
  "hex4 s = Some n \<Longrightarrow> low_surrogate n (drop 4 s) = None \<Longrightarrow>
     str_lit (CHR 0x5C # CHR ''u'' # s) = emit (if surrogate n then replacement else encode_rune n) (str_lit (drop 4 s))"
  by (subst str_lit.simps(2)) simp

lemma str_lit_u_escape:
  assumes "n < 65536" "\<not> surrogate n"
  shows "str_lit (u_escape n @ t) = emit (encode_rune n) (str_lit t)"
proof -
  have "low_surrogate n s = None" for s using assms(2) by (auto simp: low_surrogate_def surrogate_def)
  then show ?thesis using str_lit_u [OF hex4_digits [OF assms(1), of t]] assms(2) by (simp add: u_escape_def)
qed

lemma encode_rune_ascii: "of_char c < (128::nat) \<Longrightarrow> encode_rune (of_char c) = [c]"
  by (simp add: encode_rune_def)

lemma short_escape: "short_escape c = Some e \<Longrightarrow> unescape e = Some c \<and> e \<noteq> CHR ''u'' \<and> of_char c < (128::nat)"
proof -
  assume "short_escape c = Some e"
  then have "(c, e) \<in> set [(CHR 0x22, CHR 0x22), (CHR 0x5C, CHR 0x5C), (CHR 0x08, CHR ''b''), (CHR 0x0C, CHR ''f''),
             (CHR 0x0A, CHR ''n''), (CHR 0x0D, CHR ''r''), (CHR 0x09, CHR ''t'')]"
    unfolding short_escape_def by (rule map_of_SomeD)
  then show ?thesis
    by (simp only: list.set insert_iff empty_iff prod.inject simp_thms) (elim disjE conjE; simp add: unescape_def)
qed

lemma short_escape_None: "short_escape c = None \<Longrightarrow> c \<noteq> CHR 0x22 \<and> c \<noteq> CHR 0x5C"
  by (auto simp: short_escape_def)

lemma str_lit_rune:
  assumes "rune r" "hd r \<noteq> CHR 0x22" "hd r \<noteq> CHR 0x5C" "32 \<le> (of_char (hd r) :: nat)"
  shows "str_lit (r @ t) = emit r (str_lit t)"
proof -
  obtain c s where r: "r = c # s" using assms(1) by (cases r) (simp_all add: rune_def)
  have "rune_len (c # s @ t) = length r" using rune_append [OF assms(1), of t] by (simp add: r)
  then show ?thesis using assms(2-4) by (simp add: r str_lit.simps)
qed

lemma rune_Cons_head: "rune (c # d # s) \<Longrightarrow> 128 \<le> (of_char c :: nat)"
  by (auto simp: rune_def rune_len_def Let_def split: if_splits)

lemma str_lit_enc_rune:
  assumes "rune r"
  shows "str_lit (enc_rune r @ t) = emit r (str_lit t)"
proof -
  obtain c q where r: "r = c # q" using assms by (cases r) (simp_all add: rune_def)
  show ?thesis
  proof (cases q)
  case Nil
  note 2 = r [unfolded Nil]
  have c: "of_char c < (128::nat)"
    using assms by (auto simp: 2 rune_def rune_len_def Let_def split: if_splits)
  show ?thesis
  proof (cases "short_escape c")
    case (Some e)
    with short_escape [OF Some] show ?thesis by (simp add: 2 enc_rune_def str_lit.simps(2))
  next
    case None
    note n = short_escape_None [OF None]
    show ?thesis
    proof (cases "of_char c < (32::nat) \<or> html_special c")
      case True
      have "\<not> surrogate (of_char c)" using c by (simp add: surrogate_def)
      moreover have "of_char c < (65536::nat)" using c by simp
      ultimately show ?thesis
        using str_lit_u_escape [of "of_char c" t] True None c by (simp add: 2 enc_rune_def encode_rune_ascii)
    next
      case False
      then show ?thesis using str_lit_rune [OF assms, of t] None n by (simp add: 2 enc_rune_def)
    qed
  qed
next
  case (Cons d s)
  note 3 = r [unfolded Cons]
  have c: "128 \<le> (of_char c :: nat)" using assms rune_Cons_head by (simp add: 3)
  then have h: "c \<noteq> CHR 0x22" "c \<noteq> CHR 0x5C" by auto
  show ?thesis
  proof (cases "r = encode_rune 0x2028 \<or> r = encode_rune 0x2029")
    case True
    then show ?thesis
      using str_lit_u_escape [of "0x2028" t] str_lit_u_escape [of "0x2029" t]
      by (auto simp: enc_rune_def surrogate_def encode_rune_def 3)
  next
    case False
    then show ?thesis using str_lit_rune [OF assms, of t] c h by (simp add: enc_rune_def 3)
  qed
qed
qed

lemma emit_emit [simp]: "emit x (emit y p) = emit (x @ y) p"
  by (cases p) (auto simp: emit_def)

lemma emit_Some [simp]: "emit x (Some (t, r)) = Some (x @ t, r)"
  by (simp add: emit_def)

lemma str_lit_runes:
  "list_all rune rs \<Longrightarrow> str_lit (concat (map enc_rune rs) @ CHR 0x22 # t) = Some (concat rs, t)"
  by (induction rs) (simp_all add: str_lit_enc_rune, simp add: str_lit.simps)

text \<open>A string that is UTF-8 is read back as it was written.\<close>

lemma str_lit_quote: "utf8 s \<Longrightarrow> str_lit (tl (quote s) @ t) = Some (s, t)"
  using str_lit_runes [of "runes s" t] utf8_runes [of s] by (simp add: quote_def)

section \<open>What is read is UTF-8\<close>

lemma rune_of_bytes:
  "v < 128 \<Longrightarrow> rune [char_of (v :: nat)]"
  "194 \<le> a \<Longrightarrow> a \<le> 223 \<Longrightarrow> b < 64 \<Longrightarrow> rune [char_of (a :: nat), char_of (128 + b :: nat)]"
  by (auto simp: rune_def rune_len_def Let_def cont_def)

lemma rune_encode_rune:
  assumes "v \<le> 0x10FFFF" "\<not> surrogate v"
  shows "rune (encode_rune v)"
proof -
  have d: "v div 64 div 64 = v div 4096" "v div 4096 div 64 = v div 262144" by (simp_all flip: div_mult2_eq)
  note m = mult_div_mod_eq [of 64 v] mult_div_mod_eq [of 64 "v div 64"] mult_div_mod_eq [of 64 "v div 4096"]
  consider "v < 128" | "128 \<le> v" "v < 2048" | "2048 \<le> v" "v < 65536" | "65536 \<le> v" by linarith
  then show ?thesis
  proof cases
    case 1
    then show ?thesis by (simp add: encode_rune_def rune_of_bytes)
  next
    case 2
    then have "2 \<le> v div 64" "v div 64 < 32" by (simp_all add: less_mult_imp_div_less)
    with 2 show ?thesis by (simp add: encode_rune_def rune_of_bytes)
  next
    case 3
    define a b c where "a = v div 4096" and "b = v div 64 mod 64" and "c = v mod 64"
    have v: "v = 4096 * a + 64 * b + c"
      using m d unfolding a_def b_def c_def by linarith
    have l: "a < 16" "b < 64" "c < 64" using 3 by (simp_all add: a_def b_def c_def less_mult_imp_div_less)
    have "a = 0 \<Longrightarrow> 32 \<le> b" "a = 13 \<Longrightarrow> b < 32"
      using 3 l assms(2) unfolding v surrogate_def by linarith+
    moreover have "encode_rune v = [char_of (224 + a), char_of (128 + b), char_of (128 + c)]"
      using 3 by (simp add: encode_rune_def a_def b_def c_def)
    ultimately show ?thesis
      using l by (auto simp: rune_def rune_len_def Let_def cont_def second_def)
  next
    case 4
    define a b c d where "a = v div 262144" and "b = v div 4096 mod 64" and "c = v div 64 mod 64" and "d = v mod 64"
    have v: "v = 262144 * a + 4096 * b + 64 * c + d"
      using m d unfolding a_def b_def c_def d_def by linarith
    have l: "a < 5" "b < 64" "c < 64" "d < 64"
      using assms(1) by (simp_all add: a_def b_def c_def d_def less_mult_imp_div_less)
    have "a = 0 \<Longrightarrow> 16 \<le> b" "a = 4 \<Longrightarrow> b < 16"
      using 4 l assms(1) unfolding v by linarith+
    moreover have "encode_rune v = [char_of (240 + a), char_of (128 + b), char_of (128 + c), char_of (128 + d)]"
      using 4 by (simp add: encode_rune_def a_def b_def c_def d_def)
    ultimately show ?thesis
      using l by (auto simp: rune_def rune_len_def Let_def cont_def second_def)
  qed
qed

lemma utf8_encode_rune: "v \<le> 0x10FFFF \<Longrightarrow> \<not> surrogate v \<Longrightarrow> utf8 (encode_rune v @ s) \<longleftrightarrow> utf8 s"
  by (rule utf8_append_rune) (rule rune_encode_rune)

lemma utf8_replacement: "utf8 (replacement @ s) \<longleftrightarrow> utf8 s"
  unfolding replacement_def by (rule utf8_encode_rune) (simp_all add: surrogate_def)

lemma hex_val_less: "hex_val c = Some n \<Longrightarrow> n < 16"
  by (auto simp: hex_val_def Let_def split: if_split_asm)

lemma hex4_less: "hex4 s = Some n \<Longrightarrow> n < 65536"
proof -
  assume h: "hex4 s = Some n"
  then obtain a b c d where "n = 4096 * a + 256 * b + 16 * c + d" "a < 16" "b < 16" "c < 16" "d < 16"
    unfolding hex4_def by (auto split: list.split_asm option.split_asm dest!: hex_val_less)
  then show ?thesis by linarith
qed

lemma low_surrogate_range: "low_surrogate u s = Some v \<Longrightarrow> v \<le> 0x10FFFF \<and> \<not> surrogate v"
  by (auto simp: low_surrogate_def surrogate_def split: if_split_asm option.split_asm)

lemma unescape_ascii: "unescape e = Some c \<Longrightarrow> rune [c]"
proof -
  assume "unescape e = Some c"
  then have "(e, c) \<in> set [(CHR 0x22, CHR 0x22), (CHR 0x5C, CHR 0x5C), (CHR ''/'', CHR ''/''), (CHR ''b'', CHR 0x08),
             (CHR ''f'', CHR 0x0C), (CHR ''n'', CHR 0x0A), (CHR ''r'', CHR 0x0D), (CHR ''t'', CHR 0x09)]"
    unfolding unescape_def by (rule map_of_SomeD)
  then have "of_char c < (128::nat)"
    by (simp only: list.set insert_iff empty_iff prod.inject simp_thms) (elim disjE conjE; simp)
  then show ?thesis by (rule rune_ascii)
qed

lemma emit_utf8:
  assumes "emit x p = Some (t, r)" "\<And>s. utf8 (x @ s) \<longleftrightarrow> utf8 s" "\<And>u. p = Some (u, r) \<Longrightarrow> utf8 u"
  shows "utf8 t"
  using assms by (cases p) (auto simp: emit_def)

lemma str_lit_utf8: "str_lit s = Some (t, r) \<Longrightarrow> utf8 t"
proof (induction s arbitrary: t rule: length_induct)
  case (1 s)
  have IH: "\<And>u t. length u < length s \<Longrightarrow> str_lit u = Some (t, r) \<Longrightarrow> utf8 t" using "1.IH" by blast
  show ?case
  proof (cases s)
    case Nil
    with "1.prems" show ?thesis by (simp add: str_lit.simps)
  next
    case (Cons c q)
    have sh: "utf8 u" if "str_lit w = Some (u, r)" "length w \<le> length q" for w u
      using IH that by (auto simp: Cons less_Suc_eq_le)
    consider (close) "c = CHR 0x22"
      | (uni) "c = CHR 0x5C" "q \<noteq> []" "hd q = CHR ''u''" | (esc) "c = CHR 0x5C" "q \<noteq> []" "hd q \<noteq> CHR ''u''"
      | (bad) "c = CHR 0x5C" "q = []"
      | (raw) "c \<noteq> CHR 0x22" "c \<noteq> CHR 0x5C" by blast
    then show ?thesis
    proof cases
      case uni
      with "1.prems" obtain u where u: "hex4 (drop 1 q) = Some u" unfolding Cons
        by (subst (asm) str_lit.simps(2)) (auto split: option.split_asm)
      show ?thesis
      proof (cases "low_surrogate u (drop 5 q)")
        case (Some v)
        with "1.prems" uni u have "emit (encode_rune v) (str_lit (drop 11 q)) = Some (t, r)" unfolding Cons
          by (subst (asm) str_lit.simps(2)) simp
        then show ?thesis
          by (rule emit_utf8) (use low_surrogate_range [OF Some] sh in \<open>auto simp: utf8_encode_rune\<close>)
      next
        case None
        with "1.prems" uni u
        have "emit (if surrogate u then replacement else encode_rune u) (str_lit (drop 5 q)) = Some (t, r)" unfolding Cons
          by (subst (asm) str_lit.simps(2)) simp
        then show ?thesis
          by (rule emit_utf8) (use hex4_less [OF u] sh in \<open>auto simp: utf8_encode_rune utf8_replacement\<close>)
      qed
    next
      case esc
      with "1.prems" obtain x where x: "unescape (hd q) = Some x" "emit [x] (str_lit (drop 1 q)) = Some (t, r)" unfolding Cons
        by (subst (asm) str_lit.simps(2)) (auto split: option.split_asm)
      from x(2) show ?thesis
        by (rule emit_utf8) (use utf8_append_rune [OF unescape_ascii [OF x(1)]] sh in auto)
    next
      case raw
      let ?n = "rune_len (c # q)"
      show ?thesis
      proof (cases "?n = 0")
        case True
        with "1.prems" raw have "emit replacement (str_lit q) = Some (t, r)" unfolding Cons
          by (subst (asm) str_lit.simps(2)) (simp split: if_split_asm)
        then show ?thesis by (rule emit_utf8) (use sh in \<open>auto simp: utf8_replacement\<close>)
      next
        case False
        with "1.prems" raw have e: "emit (take ?n (c # q)) (str_lit (drop ?n (c # q))) = Some (t, r)" unfolding Cons
          by (subst (asm) str_lit.simps(2)) (simp split: if_split_asm)
        have "rune (take ?n (c # q))" using rune_len_take [of "c # q" ?n "[]"] False by (auto simp: rune_def)
        with e show ?thesis by (intro emit_utf8 [OF e]) (use sh False in \<open>auto simp: utf8_append_rune\<close>)
      qed
    qed (use "1.prems" in \<open>simp_all add: Cons str_lit.simps(2)\<close>)
  qed
qed

end
