(* ===== verification/Json.thy ===== *)
theory Json
  imports Json_Text Go_Json "HOL-Library.List_Lexorder" "HOL-Library.Char_ord"
begin

text \<open>
  \<^verbatim>\<open>encoding/json\<close>: \<^verbatim>\<open>Marshal\<close> and \<^verbatim>\<open>Unmarshal\<close> on the types the program uses. The scanner is a
  recursive descent parser with the nesting limit of the library; a number is kept as its text. An
  object's members keep, beside their values, the bytes they were written as, for \<^verbatim>\<open>json.RawMessage\<close>.
  Two things are parameters: the text of a syntax error, and the conversion of a number's text to a
  double and back (theory \<open>Float64\<close>).
\<close>

section \<open>Scanning\<close>

definition is_ws :: "char \<Rightarrow> bool" where
  "is_ws c \<longleftrightarrow> c \<in> {CHR '' '', CHR 0x09, CHR 0x0A, CHR 0x0D}"

definition skip :: "string \<Rightarrow> string" where
  "skip s = dropWhile is_ws s"

definition is_dig :: "char \<Rightarrow> bool" where
  "is_dig c \<longleftrightarrow> (let n = of_char c :: nat in 48 \<le> n \<and> n \<le> 57)"

text \<open>The form of a number: sign, integer part without leading zeros, fraction, exponent.\<close>

definition exponent_form :: "string \<Rightarrow> bool" where
  "exponent_form s \<longleftrightarrow> s = [] \<or>
     (hd s \<in> {CHR ''e'', CHR ''E''} \<and>
      (let r = (if tl s \<noteq> [] \<and> hd (tl s) \<in> {CHR ''+'', CHR ''-''} then tl (tl s) else tl s)
       in r \<noteq> [] \<and> list_all is_dig r))"

definition fraction_form :: "string \<Rightarrow> bool" where
  "fraction_form s \<longleftrightarrow>
     (if s \<noteq> [] \<and> hd s = CHR ''.''
      then takeWhile is_dig (tl s) \<noteq> [] \<and> exponent_form (dropWhile is_dig (tl s))
      else exponent_form s)"

definition number_form :: "string \<Rightarrow> bool" where
  "number_form t \<longleftrightarrow>
     (let s = (if t \<noteq> [] \<and> hd t = CHR ''-'' then tl t else t); ip = takeWhile is_dig s
      in ip \<noteq> [] \<and> (hd ip = CHR ''0'' \<longrightarrow> length ip = 1) \<and> fraction_form (dropWhile is_dig s))"

text \<open>A number's text goes on as long as there are characters of numbers.\<close>

definition num_char :: "char \<Rightarrow> bool" where
  "num_char c \<longleftrightarrow> is_dig c \<or> c \<in> {CHR ''-'', CHR ''+'', CHR ''.'', CHR ''e'', CHR ''E''}"

definition literals :: "(string \<times> json) list" where
  "literals = [(''null'', JNull), (''true'', JBool True), (''false'', JBool False)]"

definition literal :: "string \<Rightarrow> (json \<times> string) option" where
  "literal s =
     (case filter (\<lambda>(w, v). take (length w) s = w) literals of
        [] \<Rightarrow> None
      | (w, v) # _ \<Rightarrow> Some (v, drop (length w) s))"

text \<open>
  Values, the elements of an array after its bracket, and the members of an object after its brace.
  The first number is fuel, the second the number of brackets and braces that may still be opened.
\<close>

fun pvalue :: "nat \<Rightarrow> nat \<Rightarrow> string \<Rightarrow> (json \<times> string) option"
  and pelems :: "nat \<Rightarrow> nat \<Rightarrow> string \<Rightarrow> (json list \<times> string) option"
  and pmembers :: "nat \<Rightarrow> nat \<Rightarrow> string \<Rightarrow> ((string \<times> string \<times> json) list \<times> string) option" where
  "pvalue 0 d s = None"
| "pvalue (Suc f) d s =
     (case skip s of
        [] \<Rightarrow> None
      | c # r \<Rightarrow>
          if c = CHR 0x22 then map_option (\<lambda>(t, r'). (JString t, r')) (str_lit r)
          else if c = CHR ''['' then
            (if d = 0 then None
             else (case skip r of
                     [] \<Rightarrow> None
                   | e # r' \<Rightarrow> if e = CHR '']'' then Some (JArray [], r')
                       else map_option (\<lambda>(vs, r'). (JArray vs, r')) (pelems f (d - 1) r)))
          else if c = CHR ''{'' then
            (if d = 0 then None
             else (case skip r of
                     [] \<Rightarrow> None
                   | e # r' \<Rightarrow> if e = CHR ''}'' then Some (JObject [], r')
                       else map_option (\<lambda>(ms, r'). (JObject (map (\<lambda>(k, raw, v). (k, v)) ms), r')) (pmembers f (d - 1) r)))
          else if c = CHR ''-'' \<or> is_dig c then
            (let t = takeWhile num_char (c # r)
             in if number_form t then Some (JNumber t, dropWhile num_char (c # r)) else None)
          else literal (c # r))"
| "pelems 0 d s = None"
| "pelems (Suc f) d s =
     (case pvalue f d s of
        None \<Rightarrow> None
      | Some (v, r) \<Rightarrow>
          (case skip r of
             [] \<Rightarrow> None
           | c # r' \<Rightarrow>
               if c = CHR '']'' then Some ([v], r')
               else if c = CHR '','' then map_option (\<lambda>(vs, r''). (v # vs, r'')) (pelems f d r')
               else None))"
| "pmembers 0 d s = None"
| "pmembers (Suc f) d s =
     (case skip s of
        [] \<Rightarrow> None
      | c # r \<Rightarrow>
          if c \<noteq> CHR 0x22 then None
          else
            (case str_lit r of
               None \<Rightarrow> None
             | Some (k, r1) \<Rightarrow>
                 (case skip r1 of
                    [] \<Rightarrow> None
                  | c1 # r2 \<Rightarrow>
                      if c1 \<noteq> CHR '':'' then None
                      else
                        (case pvalue f d (skip r2) of
                           None \<Rightarrow> None
                         | Some (v, r3) \<Rightarrow>
                             let m = (k, take (length (skip r2) - length r3) (skip r2), v) in
                             (case skip r3 of
                                [] \<Rightarrow> None
                              | c3 # r4 \<Rightarrow>
                                  if c3 = CHR ''}'' then Some ([m], r4)
                                  else if c3 = CHR '','' then map_option (\<lambda>(ms, r5). (m # ms, r5)) (pmembers f d r4)
                                  else None)))))"

definition max_nesting :: nat where
  "max_nesting = 10000"

text \<open>A whole text, with white space around the value.\<close>

definition scan :: "string \<Rightarrow> json option" where
  "scan s =
     (case pvalue (2 * length s + 1) max_nesting s of
        Some (v, r) \<Rightarrow> if skip r = [] then Some v else None
      | None \<Rightarrow> None)"

text \<open>The members of a text that is an object.\<close>

definition scan_members :: "string \<Rightarrow> (string \<times> string \<times> json) list option" where
  "scan_members s =
     (case skip s of
        [] \<Rightarrow> None
      | c # r \<Rightarrow>
          if c \<noteq> CHR ''{'' then None
          else if skip r \<noteq> [] \<and> hd (skip r) = CHR ''}'' then Some []
          else map_option fst (pmembers (2 * length s) (max_nesting - 1) r))"

section \<open>Writing\<close>

fun commas :: "string list \<Rightarrow> string" where
  "commas [] = []"
| "commas [x] = x"
| "commas (x # y # xs) = x @ CHR '','' # commas (y # xs)"

definition member :: "string \<Rightarrow> string \<Rightarrow> string" where
  "member k t = quote k @ CHR '':'' # t"

fun print :: "json \<Rightarrow> string" where
  "print JNull = ''null''"
| "print (JBool b) = (if b then ''true'' else ''false'')"
| "print (JNumber t) = t"
| "print (JString s) = quote s"
| "print (JArray vs) = CHR ''['' # commas (map print vs) @ '']''"
| "print (JObject kvs) = CHR ''{'' # commas (map (\<lambda>(k, v). member k (print v)) kvs) @ ''}''"

section \<open>Every success consumes\<close>

lemma skip_le: "length (skip s) \<le> length s"
  by (simp add: skip_def length_dropWhile_le)

lemma skip_Cons_le: "skip s = c # r \<Longrightarrow> length r < length s"
  using skip_le [of s] by simp

lemma emit_eq_Some: "emit x p = Some (t, r) \<longleftrightarrow> (\<exists>u. p = Some (u, r) \<and> t = x @ u)"
  by (cases p) (auto simp: emit_def)

lemma str_lit_shorter: "str_lit s = Some (t, r) \<Longrightarrow> length r < length s"
proof (induction s arbitrary: t rule: length_induct)
  case (1 s)
  show ?case
  proof (cases s)
    case Nil
    with "1.prems" show ?thesis by (simp add: str_lit.simps)
  next
    case (Cons c q)
    have IH: "length r < Suc (length q)" if "str_lit u = Some (t, r)" "length u \<le> length q" for u t
      using "1.IH" that by (auto simp: Cons less_Suc_eq_le)
    show ?thesis using "1.prems" unfolding Cons
      by (subst (asm) str_lit.simps(2))
        (auto simp: emit_eq_Some split: if_split_asm option.split_asm intro: IH)
  qed
qed

lemma literal_shorter: "literal s = Some (v, r) \<Longrightarrow> length r < length s"
  by (cases s) (auto simp: literal_def literals_def split: if_split_asm)

lemma dropWhile_shorter: "P c \<Longrightarrow> length (dropWhile P (c # r)) < length (c # r)"
  by (simp add: length_dropWhile_le le_imp_less_Suc)

lemma p_shorter:
  "pvalue f d s = Some (v, r) \<Longrightarrow> length r < length s"
  "pelems f d s = Some (vs, r) \<Longrightarrow> length r < length s"
  "pmembers f d s = Some (ms, r) \<Longrightarrow> length r < length s"
proof (induction f d s and f d s and f d s arbitrary: v r and vs r and ms r rule: pvalue_pelems_pmembers.induct)
  case (2 f d s)
  then obtain c q where s: "skip s = c # q" by (auto split: list.split_asm)
  note l = skip_le [of s, unfolded s]
  consider (str) "c = CHR 0x22" | (arr) "c = CHR ''[''" | (obj) "c = CHR ''{''"
    | (num) "c \<notin> {CHR 0x22, CHR ''['', CHR ''{''}" "c = CHR ''-'' \<or> is_dig c"
    | (lit) "c \<notin> {CHR 0x22, CHR ''['', CHR ''{''}" "\<not> (c = CHR ''-'' \<or> is_dig c)" by blast
  then show ?case
  proof cases
    case str
    with "2.prems" l show ?thesis by (auto simp: s dest!: str_lit_shorter)
  next
    case arr
    with "2.prems" obtain e q' where q: "skip q = e # q'" "d \<noteq> 0" by (auto simp: s split: list.split_asm if_split_asm)
    show ?thesis
    proof (cases "e = CHR '']''")
      case True
      with "2.prems" arr q l skip_le [of q] show ?thesis by (simp add: s)
    next
      case False
      with "2.prems" arr q obtain vs where "pelems f (d - 1) q = Some (vs, r)" by (auto simp: s)
      from "2.IH"(1) [OF s _ _ q(2) q(1) False this] arr l show ?thesis by simp
    qed
  next
    case obj
    with "2.prems" obtain e q' where q: "skip q = e # q'" "d \<noteq> 0" by (auto simp: s split: list.split_asm if_split_asm)
    show ?thesis
    proof (cases "e = CHR ''}''")
      case True
      with "2.prems" obj q l skip_le [of q] show ?thesis by (simp add: s)
    next
      case False
      with "2.prems" obj q obtain ms where "pmembers f (d - 1) q = Some (ms, r)" by (auto simp: s)
      from "2.IH"(2) [OF s _ _ _ q(2) q(1) False this] obj l show ?thesis by simp
    qed
  next
    case num
    then have "num_char c" by (auto simp: num_char_def)
    with num "2.prems" l dropWhile_shorter [of num_char c q] show ?thesis
      by (auto simp: s Let_def split: if_split_asm)
  next
    case lit
    with "2.prems" l show ?thesis by (auto simp: s dest!: literal_shorter)
  qed
next
  case (4 f d s)
  then obtain v r1 where v: "pvalue f d s = Some (v, r1)" by (auto split: option.split_asm)
  then obtain c r2 where r1: "skip r1 = c # r2" using "4.prems" by (auto split: list.split_asm)
  have l: "length r1 < length s" "length r2 < length r1" using "4.IH"(1) [OF v] skip_Cons_le [OF r1] by auto
  show ?case
  proof (cases "c = CHR '',''")
    case True
    with "4.prems" obtain vs where "pelems f d r2 = Some (vs, r)" by (auto simp: v r1)
    with "4.IH"(2) [OF v refl r1 _ True] True l show ?thesis by fastforce
  next
    case False
    with "4.prems" l show ?thesis by (auto simp: v r1 split: if_split_asm)
  qed
next
  case (6 f d s)
  then obtain c q where s: "skip s = c # q" "c = CHR 0x22" by (auto split: list.split_asm if_split_asm)
  with "6.prems" obtain k r1 where k: "str_lit q = Some (k, r1)" by (auto split: option.split_asm)
  with "6.prems" s obtain c1 r2 where r1: "skip r1 = c1 # r2" "c1 = CHR '':''" by (auto split: list.split_asm if_split_asm)
  with "6.prems" s k obtain v r3 where v: "pvalue f d (skip r2) = Some (v, r3)" by (auto split: option.split_asm)
  with "6.prems" s k r1 obtain c3 r4 where r3: "skip r3 = c3 # r4" by (auto simp: Let_def split: list.split_asm)
  have l: "length q < length s" "length r1 < length q" "length r2 < length r1" "length r4 < length r3"
    using skip_Cons_le [OF s(1)] str_lit_shorter [OF k] skip_Cons_le [OF r1(1)] skip_Cons_le [OF r3] by auto
  have l3: "length r3 < length r2"
    using "6.IH"(1) [OF s(1) _ k refl r1(1) _ v] s(2) r1(2) skip_le [of r2] by fastforce
  show ?case
  proof (cases "c3 = CHR '',''")
    case True
    with "6.prems" obtain ms where "pmembers f d r4 = Some (ms, r)" by (auto simp: s k r1 v r3)
    with "6.IH"(2) [OF s(1) _ k refl r1(1) _ v refl _ r3 _ True] True s(2) r1(2) l l3 show ?thesis by fastforce
  next
    case False
    with "6.prems" l l3 show ?thesis by (auto simp: s k r1 v r3 Let_def split: if_split_asm)
  qed
qed simp_all

text \<open>The fuel: twice the length is enough, and more changes nothing.\<close>

lemma p_fuel_step:
  "(2 * length s < f \<longrightarrow> pvalue (Suc f) d s = pvalue f d s) \<and>
   (2 * length s + 1 < f \<longrightarrow> pelems (Suc f) d s = pelems f d s) \<and>
   (2 * length s + 1 < f \<longrightarrow> pmembers (Suc f) d s = pmembers f d s)"
proof (induction f arbitrary: d s)
  case (Suc f)
  have V: "2 * length s < f \<Longrightarrow> pvalue (Suc f) d s = pvalue f d s"
    and E: "2 * length s + 1 < f \<Longrightarrow> pelems (Suc f) d s = pelems f d s"
    and M: "2 * length s + 1 < f \<Longrightarrow> pmembers (Suc f) d s = pmembers f d s" for d s
    using Suc.IH by blast+
  have "pvalue (Suc (Suc f)) d s = pvalue (Suc f) d s" if "2 * length s < Suc f"
  proof (cases "skip s")
    case (Cons c q)
    have "2 * length q + 1 < f" using skip_Cons_le [OF Cons] that by simp
    then show ?thesis
      unfolding pvalue.simps(2) [of "Suc f" d s] pvalue.simps(2) [of f d s] Cons list.case
      by (simp add: E M split: list.split del: pvalue.simps pelems.simps pmembers.simps)
  qed simp
  moreover have "pelems (Suc (Suc f)) d s = pelems (Suc f) d s" if "2 * length s + 1 < Suc f"
  proof -
    have v: "pvalue (Suc f) d s = pvalue f d s" using V that by simp
    show ?thesis
    proof (cases "pvalue f d s")
      case (Some vr)
      then obtain v r where vr: "pvalue f d s = Some (v, r)" by force
      show ?thesis
      proof (cases "skip r")
        case (Cons c q)
        have "2 * length q + 1 < f" using skip_Cons_le [OF Cons] p_shorter(1) [OF vr] that by simp
        then show ?thesis
          unfolding pelems.simps(2) [of "Suc f" d s] pelems.simps(2) [of f d s] v vr option.case prod.case Cons list.case
          by (simp add: E del: pvalue.simps pelems.simps pmembers.simps)
      qed (unfold pelems.simps(2) [of "Suc f" d s] pelems.simps(2) [of f d s] v vr, simp)
    qed (unfold pelems.simps(2) [of "Suc f" d s] pelems.simps(2) [of f d s] v, simp)
  qed
  moreover have "pmembers (Suc (Suc f)) d s = pmembers (Suc f) d s" if "2 * length s + 1 < Suc f"
  proof (cases "skip s")
    case s: (Cons c q)
    show ?thesis
    proof (cases "str_lit q")
      case (Some kr)
      then obtain k r1 where k: "str_lit q = Some (k, r1)" by force
      show ?thesis
      proof (cases "skip r1")
        case r1: (Cons c1 r2)
        have l: "length r2 < length s" using skip_Cons_le [OF s] str_lit_shorter [OF k] skip_Cons_le [OF r1] by simp
        then have v: "pvalue (Suc f) d (skip r2) = pvalue f d (skip r2)" using V skip_le [of r2] that by simp
        have M': "pmembers (Suc f) d r4 = pmembers f d r4"
          if "pvalue f d (skip r2) = Some (v, r3)" "skip r3 = c3 # r4" for v r3 c3 r4
          using p_shorter(1) [OF that(1)] skip_Cons_le [OF that(2)] l skip_le [of r2] \<open>2 * length s + 1 < Suc f\<close> by (intro M) simp
        show ?thesis
          unfolding pmembers.simps(2) [of "Suc f" d s] pmembers.simps(2) [of f d s] s k r1 list.case option.case prod.case v
          by (auto simp: Let_def M' simp del: pvalue.simps pelems.simps pmembers.simps split: option.split list.split)
      qed (simp add: s k)
    qed (simp add: s)
  qed simp
  ultimately show ?case by blast
qed simp

lemma p_fuel:
  "2 * length s < f \<Longrightarrow> pvalue (f + n) d s = pvalue f d s"
  "2 * length s + 1 < f \<Longrightarrow> pelems (f + n) d s = pelems f d s"
  "2 * length s + 1 < f \<Longrightarrow> pmembers (f + n) d s = pmembers f d s"
  by (induction n) (use p_fuel_step [of s] in \<open>simp_all del: pvalue.simps pelems.simps pmembers.simps\<close>)

section \<open>Reading what was written\<close>

declare pvalue.simps [simp del] pelems.simps [simp del] pmembers.simps [simp del]

text \<open>Values whose numbers and strings can be written, and how deep they nest.\<close>

fun printable :: "json \<Rightarrow> bool" where
  "printable (JNumber t) \<longleftrightarrow> number_form t"
| "printable (JString s) \<longleftrightarrow> utf8 s"
| "printable (JArray vs) \<longleftrightarrow> list_all printable vs"
| "printable (JObject kvs) \<longleftrightarrow> list_all (\<lambda>(k, v). utf8 k \<and> printable v) kvs"
| "printable _ \<longleftrightarrow> True"

fun nesting :: "json \<Rightarrow> nat" where
  "nesting (JArray vs) = Suc (Max (insert 0 (set (map nesting vs))))"
| "nesting (JObject kvs) = Suc (Max (insert 0 (set (map (\<lambda>(k, v). nesting v) kvs))))"
| "nesting _ = 0"

lemma nesting_elem: "v \<in> set vs \<Longrightarrow> nesting (JArray vs) \<le> d \<Longrightarrow> nesting v \<le> d - 1 \<and> d \<noteq> 0"
  by (auto simp: Suc_le_eq)

lemma dig_num_char: "is_dig c \<Longrightarrow> num_char c"
  by (simp add: num_char_def)

lemma list_all_digits: "list_all is_dig s \<Longrightarrow> list_all num_char s" "list_all num_char (takeWhile is_dig s)"
  by (auto simp: list_all_iff dig_num_char dest: set_takeWhileD)

lemma exponent_form_chars: "exponent_form s \<Longrightarrow> list_all num_char s"
proof (cases s)
  case (Cons c r)
  assume e: "exponent_form s"
  then have "num_char c" by (auto simp: exponent_form_def Cons num_char_def)
  moreover have "list_all num_char r"
  proof (cases "r \<noteq> [] \<and> hd r \<in> {CHR ''+'', CHR ''-''}")
    case True
    then have "num_char (hd r)" by (auto simp: num_char_def)
    moreover have "list_all num_char (tl r)" using e True by (auto simp: exponent_form_def Cons list_all_digits Let_def)
    ultimately show ?thesis using True by (cases r) simp_all
  next
    case False
    with e show ?thesis by (auto simp: exponent_form_def Cons list_all_digits)
  qed
  ultimately show ?thesis by (simp add: Cons)
qed simp

lemma fraction_form_chars: "fraction_form s \<Longrightarrow> list_all num_char s"
proof -
  assume f: "fraction_form s"
  show ?thesis
  proof (cases "s \<noteq> [] \<and> hd s = CHR ''.''")
    case True
    then obtain r where s: "s = CHR ''.'' # r" by (cases s) auto
    have "list_all num_char (takeWhile is_dig r @ dropWhile is_dig r)"
      using f exponent_form_chars by (simp add: s fraction_form_def list_all_digits del: takeWhile_dropWhile_id)
    then show ?thesis by (simp add: s num_char_def)
  next
    case False
    with f exponent_form_chars show ?thesis by (simp add: fraction_form_def)
  qed
qed

lemma number_form_chars: "number_form t \<Longrightarrow> t \<noteq> [] \<and> list_all num_char t \<and> (hd t = CHR ''-'' \<or> is_dig (hd t))"
proof -
  assume n: "number_form t"
  define s where "s = (if t \<noteq> [] \<and> hd t = CHR ''-'' then tl t else t)"
  from n have s: "takeWhile is_dig s \<noteq> []" "fraction_form (dropWhile is_dig s)"
    by (simp_all add: number_form_def s_def Let_def)
  then have "list_all num_char (takeWhile is_dig s @ dropWhile is_dig s)"
    using fraction_form_chars by (simp add: list_all_digits del: takeWhile_dropWhile_id)
  then have a: "list_all num_char s" by simp
  from s(1) have h: "s \<noteq> []" "is_dig (hd s)" by (cases s; auto split: if_splits)+
  show ?thesis
  proof (cases "t \<noteq> [] \<and> hd t = CHR ''-''")
    case True
    with a show ?thesis by (cases t) (auto simp: s_def num_char_def)
  next
    case False
    with a h show ?thesis by (auto simp: s_def)
  qed
qed

text \<open>What may follow a value: nothing that could belong to a number.\<close>

definition ends :: "string \<Rightarrow> bool" where
  "ends r \<longleftrightarrow> r = [] \<or> \<not> num_char (hd r)"

lemma ends_Cons [simp]: "ends (c # r) \<longleftrightarrow> \<not> num_char c"
  by (simp add: ends_def)

lemma ends_marks [simp]: "\<not> num_char (CHR '','')" "\<not> num_char (CHR '']'')" "\<not> num_char (CHR ''}'')"
  by code_simp+

definition opens :: "string \<Rightarrow> bool" where
  "opens s \<longleftrightarrow> s \<noteq> [] \<and> \<not> is_ws (hd s) \<and> hd s \<noteq> CHR '']'' \<and> hd s \<noteq> CHR ''}''"

lemma skip_opens: "opens s \<Longrightarrow> skip (s @ r) = s @ r"
  by (cases s) (auto simp: opens_def skip_def)

lemma num_char_opens: "num_char c \<Longrightarrow> \<not> is_ws c \<and> c \<notin> {CHR '']'', CHR ''}'', CHR 0x22, CHR ''['', CHR ''{''}"
  by (auto simp: num_char_def is_ws_def is_dig_def)

lemma opens_print: "printable v \<Longrightarrow> opens (print v)"
proof (cases v)
  case (JNumber t)
  assume "printable v"
  then have "t \<noteq> [] \<and> list_all num_char t" using number_form_chars by (simp add: JNumber)
  then show ?thesis using num_char_opens [of "hd t"] by (cases t) (simp_all add: JNumber opens_def)
qed (auto simp: opens_def is_ws_def quote_def)

lemma opens_member: "opens (member k t)"
  by (simp add: opens_def is_ws_def member_def quote_def)

lemma skip_Cons [simp]: "\<not> is_ws c \<Longrightarrow> skip (c # r) = c # r"
  by (simp add: skip_def)

lemma not_ws_marks [simp]:
  "\<not> is_ws (CHR '','')" "\<not> is_ws (CHR '']'')" "\<not> is_ws (CHR ''}'')" "\<not> is_ws (CHR ''['')" "\<not> is_ws (CHR ''{'')"
  "\<not> is_ws (CHR '':'')" "\<not> is_ws (CHR 0x22)"
  by (simp_all add: is_ws_def)

definition reads :: "nat \<Rightarrow> json \<Rightarrow> bool" where
  "reads d v \<longleftrightarrow> (\<forall>f r. ends r \<longrightarrow> 2 * length (print v) \<le> f \<longrightarrow> pvalue f d (print v @ r) = Some (v, r))"

lemma readsD: "reads d v \<Longrightarrow> ends r \<Longrightarrow> 2 * length (print v) \<le> f \<Longrightarrow> pvalue f d (print v @ r) = Some (v, r)"
  by (simp add: reads_def)

lemma pelems_commas:
  "vs \<noteq> [] \<Longrightarrow> list_all (reads d) vs \<Longrightarrow> 2 * length (commas (map print vs)) + 1 \<le> f \<Longrightarrow>
     pelems f d (commas (map print vs) @ CHR '']'' # r) = Some (vs, r)"
proof (induction vs arbitrary: f rule: remdups_adj.induct)
  case (2 v)
  then obtain g where f: "f = Suc g" by (cases f) simp_all
  with 2 readsD [of d v "CHR '']'' # r" g] show ?case by (simp add: pelems.simps)
next
  case (3 v w vs)
  then obtain g where f: "f = Suc g" by (cases f) simp_all
  let ?rest = "commas (map print (w # vs)) @ CHR '']'' # r"
  have "pvalue g d (print v @ CHR '','' # ?rest) = Some (v, CHR '','' # ?rest)"
    using 3 by (intro readsD) (simp_all add: f)
  moreover have "pelems g d ?rest = Some (w # vs, r)"
    using 3 by (cases "v = w") (simp_all add: f)
  ultimately show ?case by (simp add: f pelems.simps)
qed simp

definition member_text :: "string \<times> json \<Rightarrow> string" where
  "member_text kv = member (fst kv) (print (snd kv))"

definition raw_member :: "string \<times> json \<Rightarrow> string \<times> string \<times> json" where
  "raw_member kv = (fst kv, print (snd kv), snd kv)"

lemma pmember:
  assumes "utf8 (fst kv)" "reads d (snd kv)" "printable (snd kv)" "\<not> num_char c" "\<not> is_ws c"
    "2 * length (member_text kv) \<le> f"
  shows "pmembers (Suc f) d (member_text kv @ c # r) =
    (if c = CHR ''}'' then Some ([raw_member kv], r)
     else if c = CHR '','' then map_option (\<lambda>(ms, r5). (raw_member kv # ms, r5)) (pmembers f d r) else None)"
proof -
  obtain k v where kv: "kv = (k, v)" by force
  have q: "member_text kv @ c # r = CHR 0x22 # tl (quote k) @ CHR '':'' # print v @ c # r"
    by (simp add: kv member_text_def member_def quote_def)
  have "pvalue f d (print v @ c # r) = Some (v, c # r)"
    using assms by (intro readsD) (simp_all add: kv member_text_def member_def)
  moreover have "skip (print v @ c # r) = print v @ c # r"
    using assms(3) by (intro skip_opens opens_print) (simp add: kv)
  ultimately show ?thesis
    unfolding q using str_lit_quote [of k] assms(1,4,5) by (simp add: kv raw_member_def pmembers.simps Let_def)
qed

lemma pmembers_commas:
  "kvs \<noteq> [] \<Longrightarrow> list_all (\<lambda>(k, v). utf8 k \<and> reads d v \<and> printable v) kvs \<Longrightarrow>
     2 * length (commas (map member_text kvs)) + 1 \<le> f \<Longrightarrow>
     pmembers f d (commas (map member_text kvs) @ CHR ''}'' # r) = Some (map raw_member kvs, r)"
proof (induction kvs arbitrary: f rule: remdups_adj.induct)
  case (2 kv)
  then obtain g where f: "f = Suc g" by (cases f) simp_all
  with 2 pmember [of kv d "CHR ''}''" g r] show ?case by (simp add: split_beta)
next
  case (3 kv kw kvs)
  then obtain g where f: "f = Suc g" by (cases f) simp_all
  let ?rest = "commas (map member_text (kw # kvs)) @ CHR ''}'' # r"
  have "pmembers g d ?rest = Some (map raw_member (kw # kvs), r)"
    using 3 by (cases "kv = kw") (simp_all add: f)
  with 3 pmember [of kv d "CHR '',''" g ?rest] show ?case by (simp add: f split_beta)
qed simp

lemma takeWhile_number:
  assumes "list_all num_char t" "ends r"
  shows "takeWhile num_char (t @ r) = t" "dropWhile num_char (t @ r) = r"
proof -
  have t: "takeWhile num_char (t @ r) = t @ takeWhile num_char r" "dropWhile num_char (t @ r) = dropWhile num_char r"
    using assms(1) by (auto simp: list_all_iff takeWhile_append2 dropWhile_append2)
  with assms(2) show "takeWhile num_char (t @ r) = t" "dropWhile num_char (t @ r) = r"
    by (cases r; simp)+
qed

lemma map_raw_member [simp]: "map ((\<lambda>(k, raw, v). (k, v)) \<circ> raw_member) kvs = kvs"
  by (induction kvs) (simp_all add: raw_member_def)

lemma print_JObject: "print (JObject kvs) = CHR ''{'' # commas (map member_text kvs) @ ''}''"
proof -
  have "(\<lambda>(k, v). member k (print v)) = member_text"
    by (rule ext) (simp add: member_text_def split_beta)
  then show ?thesis by (simp only: print.simps)
qed

lemma commas_opens: "ts \<noteq> [] \<Longrightarrow> opens (hd ts) \<Longrightarrow> opens (commas ts)"
  by (cases ts rule: commas.cases) (auto simp: opens_def)

lemma skip_commas: "ts \<noteq> [] \<Longrightarrow> opens (hd ts) \<Longrightarrow> \<exists>c q. skip (commas ts @ r) = c # q \<and> c \<noteq> CHR '']'' \<and> c \<noteq> CHR ''}''"
proof -
  assume ts: "ts \<noteq> []" "opens (hd ts)"
  have o': "opens (commas ts)" by (rule commas_opens [OF ts])
  then have "skip (commas ts @ r) = commas ts @ r" by (rule skip_opens)
  with o' show ?thesis by (cases "commas ts") (auto simp: opens_def)
qed

lemma pvalue_literal:
  "0 < f \<Longrightarrow> pvalue f d (''null'' @ r) = Some (JNull, r)"
  "0 < f \<Longrightarrow> pvalue f d (''true'' @ r) = Some (JBool True, r)"
  "0 < f \<Longrightarrow> pvalue f d (''false'' @ r) = Some (JBool False, r)"
  by (cases f; simp add: pvalue.simps literal_def literals_def is_ws_def is_dig_def skip_def)+

text \<open>Every value that can be written and does not nest too deep is read back, whatever follows it.\<close>

lemma printable_reads: "printable v \<Longrightarrow> nesting v \<le> d \<Longrightarrow> reads d v"
proof (induction v arbitrary: d)
  case (JNumber t)
  then have n: "number_form t" by simp
  note c = number_form_chars [OF n]
  have "pvalue f d (t @ r) = Some (JNumber t, r)" if ends: "ends r" and len: "2 * length t \<le> f" for f r
  proof -
    from c obtain x q where t: "t = x # q" by (cases t) auto
    from c have x: "num_char x" "x = CHR ''-'' \<or> is_dig x" by (simp_all add: t)
    note nx = num_char_opens [OF x(1)]
    obtain g where f: "f = Suc g" using len c by (cases f) (auto simp: t)
    have s: "skip (t @ r) = x # (q @ r)" using nx by (simp add: t)
    show ?thesis
      unfolding f pvalue.simps s list.case using takeWhile_number [OF _ ends, of t] c n nx x(2) by (simp add: t)
  qed
  then show ?case by (simp add: reads_def)
next
  case (JString s)
  have "pvalue f d (quote s @ r) = Some (JString s, r)" if len: "2 * length (quote s) \<le> f" for f r
  proof -
    obtain g where f: "f = Suc g" using len by (cases f) (auto simp: quote_def)
    have "quote s = CHR 0x22 # tl (quote s)" by (simp add: quote_def)
    then have "skip (quote s @ r) = CHR 0x22 # tl (quote s) @ r" by (metis append_Cons not_ws_marks(7) skip_Cons)
    with str_lit_quote [of s r] JString show ?thesis by (simp add: f pvalue.simps)
  qed
  then show ?case by (simp add: reads_def)
next
  case (JArray vs)
  show ?case
    unfolding reads_def
  proof (intro allI impI)
    fix f r
    assume f: "2 * length (print (JArray vs)) \<le> f"
    then obtain g where g: "f = Suc g" by (cases f) simp_all
    have d: "d \<noteq> 0" using JArray.prems(2) by (cases d) simp_all
    show "pvalue f d (print (JArray vs) @ r) = Some (JArray vs, r)"
    proof (cases "vs = []")
      case True
      with d show ?thesis by (simp add: g pvalue.simps)
    next
      case False
      have "list_all (reads (d - 1)) vs"
        using JArray.IH JArray.prems nesting_elem [OF _ JArray.prems(2)] by (simp add: list_all_iff)
      then have e: "pelems g (d - 1) (commas (map print vs) @ CHR '']'' # r) = Some (vs, r)"
        using False f by (intro pelems_commas) (simp_all add: g)
      have "opens (hd (map print vs))" using False JArray.prems(1) by (cases vs) (simp_all add: opens_print)
      with skip_commas [of "map print vs" "CHR '']'' # r"] False obtain c q where
        "skip (commas (map print vs) @ CHR '']'' # r) = c # q" "c \<noteq> CHR '']''" by auto
      with e d show ?thesis by (simp add: g pvalue.simps)
    qed
  qed
next
  case (JObject kvs)
  show ?case
    unfolding reads_def
  proof (intro allI impI)
    fix f r
    assume f: "2 * length (print (JObject kvs)) \<le> f"
    then obtain g where g: "f = Suc g" by (cases f) simp_all
    have d: "d \<noteq> 0" using JObject.prems(2) by (cases d) simp_all
    show "pvalue f d (print (JObject kvs) @ r) = Some (JObject kvs, r)"
    proof (cases "kvs = []")
      case True
      with d show ?thesis by (simp add: g pvalue.simps)
    next
      case False
      have "list_all (\<lambda>(k, v). utf8 k \<and> reads (d - 1) v \<and> printable v) kvs"
      proof -
        have "reads (d - 1) v" if kv: "(k, v) \<in> set kvs" for k v
        proof (rule JObject.IH [OF kv])
          show "v \<in> Basic_BNFs.snds (k, v)" by simp
          show "printable v" using JObject.prems(1) kv by (auto simp: list_all_iff)
          have "v \<in> set (map snd kvs)" using kv by (auto simp: image_iff intro: rev_bexI)
          moreover have "nesting (JArray (map snd kvs)) \<le> d"
            using JObject.prems(2) by (simp add: split_beta comp_def)
          ultimately show "nesting v \<le> d - 1" using nesting_elem by blast
        qed
        then show ?thesis using JObject.prems(1) by (auto simp: list_all_iff)
      qed
      then have e: "pmembers g (d - 1) (commas (map member_text kvs) @ CHR ''}'' # r) = Some (map raw_member kvs, r)"
        using False f by (intro pmembers_commas) (simp_all add: g print_JObject del: print.simps)
      have "opens (hd (map member_text kvs))" using False by (cases kvs) (simp_all add: member_text_def opens_member)
      with skip_commas [of "map member_text kvs" "CHR ''}'' # r"] False obtain c q where
        "skip (commas (map member_text kvs) @ CHR ''}'' # r) = c # q" "c \<noteq> CHR ''}''" by auto
      with e d show ?thesis unfolding print_JObject by (simp add: g pvalue.simps)
    qed
  qed
qed (use pvalue_literal in \<open>simp_all add: reads_def\<close>)

lemma scan_print: "printable v \<Longrightarrow> nesting v \<le> max_nesting \<Longrightarrow> scan (print v) = Some v"
  using readsD [OF printable_reads, of v max_nesting "[]"] by (simp add: scan_def ends_def skip_def)

lemma scan_members_print:
  assumes "printable (JObject kvs)" "nesting (JObject kvs) \<le> max_nesting"
  shows "scan_members (print (JObject kvs)) = Some (map raw_member kvs)"
proof (cases "kvs = []")
  case True
  then show ?thesis by (simp add: scan_members_def)
next
  case False
  let ?d = "max_nesting - 1" and ?ts = "map member_text kvs"
  have "nesting (JArray (map snd kvs)) \<le> max_nesting" using assms(2) by (simp add: split_beta comp_def)
  note n = nesting_elem [OF _ this]
  have "utf8 k \<and> reads ?d v \<and> printable v" if kv: "(k, v) \<in> set kvs" for k v
  proof -
    have p: "utf8 k" "printable v" using assms(1) kv by (auto simp: list_all_iff)
    have "v \<in> set (map snd kvs)" using kv by (auto simp: image_iff intro: rev_bexI)
    with n have "nesting v \<le> ?d" by blast
    with p printable_reads show ?thesis by blast
  qed
  then have "list_all (\<lambda>(k, v). utf8 k \<and> reads ?d v \<and> printable v) kvs" by (auto simp: list_all_iff)
  then have e: "pmembers (2 * length (print (JObject kvs))) ?d (commas ?ts @ ''}'') = Some (map raw_member kvs, [])"
    using False by (intro pmembers_commas) (simp_all add: print_JObject del: print.simps)
  have "opens (hd ?ts)" using False by (cases kvs) (simp_all add: member_text_def opens_member)
  with skip_commas [of ?ts "''}''"] False obtain c q where
    "skip (commas ?ts @ ''}'') = c # q" "c \<noteq> CHR ''}''" by auto
  with e show ?thesis unfolding print_JObject by (simp add: scan_members_def)
qed

section \<open>What is read can be written\<close>

definition readable :: "nat \<Rightarrow> json \<Rightarrow> bool" where
  "readable d v \<longleftrightarrow> printable v \<and> nesting v \<le> d"

lemma readable_simps [simp]:
  "readable d JNull" "readable d (JBool b)" "readable d (JNumber t) \<longleftrightarrow> number_form t" "readable d (JString s) \<longleftrightarrow> utf8 s"
  by (simp_all add: readable_def)

lemma readable_JArray: "readable d (JArray vs) \<longleftrightarrow> d \<noteq> 0 \<and> list_all (readable (d - 1)) vs"
  by (cases d) (auto simp: readable_def list_all_iff)

lemma readable_JObject: "readable d (JObject kvs) \<longleftrightarrow> d \<noteq> 0 \<and> list_all (\<lambda>(k, v). utf8 k \<and> readable (d - 1) v) kvs"
  by (cases d) (auto simp: readable_def list_all_iff)

lemma literal_readable: "literal s = Some (v, r) \<Longrightarrow> readable d v"
  by (auto simp: literal_def literals_def split: if_split_asm)

lemma p_readable:
  "pvalue f d s = Some (v, r) \<Longrightarrow> readable d v"
  "pelems f d s = Some (vs, r) \<Longrightarrow> list_all (readable d) vs"
  "pmembers f d s = Some (ms, r) \<Longrightarrow> list_all (\<lambda>(k, raw, v). utf8 k \<and> readable d v) ms"
proof (induction f d s and f d s and f d s arbitrary: v r and vs r and ms r rule: pvalue_pelems_pmembers.induct)
  case (2 f d s)
  note p = "2.prems" [unfolded pvalue.simps]
  from p obtain c q where s: "skip s = c # q" by (auto split: list.split_asm)
  consider (str) "c = CHR 0x22" | (arr) "c = CHR ''[''" | (obj) "c = CHR ''{''"
    | (num) "c \<notin> {CHR 0x22, CHR ''['', CHR ''{''}" "c = CHR ''-'' \<or> is_dig c"
    | (lit) "c \<notin> {CHR 0x22, CHR ''['', CHR ''{''}" "\<not> (c = CHR ''-'' \<or> is_dig c)" by blast
  then show ?case
  proof cases
    case str
    with p show ?thesis by (auto simp: s dest: str_lit_utf8)
  next
    case arr
    with p obtain e q' where q: "skip q = e # q'" "d \<noteq> 0" by (auto simp: s split: list.split_asm if_split_asm)
    show ?thesis
    proof (cases "e = CHR '']''")
      case True
      with p arr q show ?thesis by (auto simp: s readable_JArray)
    next
      case False
      with p arr q obtain vs where vs: "pelems f (d - 1) q = Some (vs, r)" "v = JArray vs" by (auto simp: s)
      from "2.IH"(1) [OF s _ _ q(2) q(1) False vs(1)] arr q(2) show ?thesis by (simp add: vs(2) readable_JArray)
    qed
  next
    case obj
    with p obtain e q' where q: "skip q = e # q'" "d \<noteq> 0" by (auto simp: s split: list.split_asm if_split_asm)
    show ?thesis
    proof (cases "e = CHR ''}''")
      case True
      with p obj q show ?thesis by (auto simp: s readable_JObject)
    next
      case False
      with p obj q obtain ms where ms: "pmembers f (d - 1) q = Some (ms, r)" "v = JObject (map (\<lambda>(k, raw, v). (k, v)) ms)"
        by (auto simp: s)
      from "2.IH"(2) [OF s _ _ _ q(2) q(1) False ms(1)] obj q(2) show ?thesis
        by (auto simp: ms(2) readable_JObject list_all_iff)
    qed
  next
    case num
    with p show ?thesis by (auto simp: s Let_def split: if_split_asm)
  next
    case lit
    with p show ?thesis by (auto simp: s dest: literal_readable)
  qed
next
  case (4 f d s)
  note p = "4.prems" [unfolded pelems.simps]
  from p obtain v r1 where v: "pvalue f d s = Some (v, r1)" by (auto split: option.split_asm)
  then obtain c r2 where r1: "skip r1 = c # r2" using p by (auto split: list.split_asm)
  have l: "readable d v" using "4.IH"(1) [OF v] .
  show ?case
  proof (cases "c = CHR '',''")
    case True
    with p obtain ws where ws: "pelems f d r2 = Some (ws, r)" "vs = v # ws" by (auto simp: v r1)
    with "4.IH"(2) [OF v refl r1 _ True ws(1)] True l show ?thesis by simp
  next
    case False
    with p l show ?thesis by (auto simp: v r1 split: if_split_asm)
  qed
next
  case (6 f d s)
  note p = "6.prems" [unfolded pmembers.simps]
  from p obtain c q where s: "skip s = c # q" "c = CHR 0x22" by (auto split: list.split_asm if_split_asm)
  with p obtain k r1 where k: "str_lit q = Some (k, r1)" by (auto split: option.split_asm)
  with p s obtain c1 r2 where r1: "skip r1 = c1 # r2" "c1 = CHR '':''" by (auto split: list.split_asm if_split_asm)
  with p s k obtain v r3 where v: "pvalue f d (skip r2) = Some (v, r3)" by (auto split: option.split_asm)
  with p s k r1 obtain c3 r4 where r3: "skip r3 = c3 # r4" by (auto simp: Let_def split: list.split_asm)
  have l: "utf8 k" "readable d v"
    using str_lit_utf8 [OF k] "6.IH"(1) [OF s(1) _ k refl r1(1) _ v] s(2) r1(2) by simp_all
  show ?case
  proof (cases "c3 = CHR '',''")
    case True
    with p obtain ns where ns: "pmembers f d r4 = Some (ns, r)"
      "ms = (k, take (length (skip r2) - length r3) (skip r2), v) # ns" by (auto simp: s k r1 v r3)
    with "6.IH"(2) [OF s(1) _ k refl r1(1) _ v refl _ r3 _ True ns(1)] True s(2) r1(2) l show ?thesis by simp
  next
    case False
    with p l show ?thesis by (auto simp: s k r1 v r3 Let_def split: if_split_asm)
  qed
qed (simp_all add: pvalue.simps pelems.simps pmembers.simps)

lemma scan_readable: "scan s = Some v \<Longrightarrow> readable max_nesting v"
  by (auto simp: scan_def split: option.split_asm if_split_asm prod.split_asm dest: p_readable(1))

end
