(* ===== verification/Float64.thy ===== *)
theory Float64
  imports Backoff Json
begin

text \<open>
  The numbers of \<^verbatim>\<open>encoding/json\<close> in an \<^verbatim>\<open>interface{}\<close>: a literal is read as a \<^verbatim>\<open>float64\<close>
  (\<^verbatim>\<open>strconv.ParseFloat\<close>, correctly rounded; a literal beyond the range is an error) and written with
  the fewest digits that are read back as the same number, in the layout of the library
  (\<^verbatim>\<open>strconv.AppendFloat\<close>, \<^verbatim>\<open>f\<close> or \<^verbatim>\<open>e\<close> by magnitude, the exponent without a leading zero).
\<close>

section \<open>Reading\<close>

definition val :: "string \<Rightarrow> int" where
  "val s = (case digits 0 s of Some n \<Rightarrow> n | None \<Rightarrow> 0)"

definition exponent_value :: "string \<Rightarrow> int" where
  "exponent_value s =
     (if s = [] then 0
      else if tl s \<noteq> [] \<and> hd (tl s) = CHR ''-'' then - val (tl (tl s))
      else if tl s \<noteq> [] \<and> hd (tl s) = CHR ''+'' then val (tl (tl s))
      else val (tl s))"

definition fraction_digits :: "string \<Rightarrow> string" where
  "fraction_digits s = (if s \<noteq> [] \<and> hd s = CHR ''.'' then takeWhile is_dig (tl s) else [])"

definition after_fraction :: "string \<Rightarrow> string" where
  "after_fraction s = (if s \<noteq> [] \<and> hd s = CHR ''.'' then dropWhile is_dig (tl s) else s)"

definition magnitude :: "string \<Rightarrow> rat" where
  "magnitude s =
     (let ip = takeWhile is_dig s; r = dropWhile is_dig s; fp = fraction_digits r
      in of_int (val (ip @ fp)) * 10 powi (exponent_value (after_fraction r) - int (length fp)))"

text \<open>The nearest double of a magnitude, ties to even, subnormal numbers included.\<close>

definition ulp :: "rat \<Rightarrow> rat" where
  "ulp x = 2 powi (max (binade x - 52) (- 1074))"

definition round64 :: "rat \<Rightarrow> rat option" where
  "round64 x =
     (if x = 0 then Some 0
      else (let y = of_int (round_even (x / ulp x)) * ulp x in if 2 ^ 1024 \<le> y then None else Some y))"

section \<open>Writing\<close>

text \<open>How many digits a magnitude has before the point; not positive if the first digits after it are zeros.\<close>

definition point :: "rat \<Rightarrow> int" where
  "point y =
     (if 1 \<le> y then int (length (show_nat (nat \<lfloor>y\<rfloor>)))
      else 1 - int (length (show_nat (nat (\<lceil>1 / y\<rceil> - 1)))))"

text \<open>The nearest decimal of \<open>n\<close> digits that is read back as \<open>y\<close>.\<close>

definition decimal :: "rat \<Rightarrow> nat \<Rightarrow> (int \<times> int) option" where
  "decimal y n =
     (let e = point y - int n; t = y / 10 powi e; m = \<lfloor>t\<rfloor>;
          cs = (if t - of_int m < 1 / 2 \<or> t - of_int m = 1 / 2 \<and> even m then [m, m + 1] else [m + 1, m])
      in map_option (\<lambda>c. (c, e)) (find (\<lambda>c. 0 < c \<and> round64 (of_int c * 10 powi e) = Some y) cs))"

text \<open>The shortest one. Seventeen digits are always enough, so the exact expansion is never needed.\<close>

definition shortest :: "rat \<Rightarrow> int \<times> int" where
  "shortest y =
     (case List.map_filter (decimal y) [1..<18] of
        ce # _ \<Rightarrow> ce
      | [] \<Rightarrow> (\<lfloor>y * 10 ^ 1074\<rfloor>, - 1074))"

definition trim_zeros :: "string \<Rightarrow> string" where
  "trim_zeros s = rev (dropWhile (\<lambda>c. c = CHR ''0'') (rev s))"

definition zeros :: "int \<Rightarrow> string" where
  "zeros n = replicate (nat n) (CHR ''0'')"

text \<open>The digits and the position of the point in the number they make.\<close>

definition layout :: "string \<Rightarrow> int \<Rightarrow> string" where
  "layout ds k =
     (if k \<le> - 6 \<or> 21 < k
      then hd ds # (if tl ds = [] then [] else CHR ''.'' # tl ds) @
           CHR ''e'' # (if k - 1 < 0 then CHR ''-'' else CHR ''+'') # show_nat (nat \<bar>k - 1\<bar>)
      else if k \<le> 0 then ''0.'' @ zeros (- k) @ ds
      else if k < int (length ds) then take (nat k) ds @ CHR ''.'' # drop (nat k) ds
      else ds @ zeros (k - int (length ds)))"

definition float_text :: "rat \<Rightarrow> string" where
  "float_text y =
     (if y = 0 then ''0''
      else (let (c, e) = shortest y; ds = show_nat (nat c) in layout (trim_zeros ds) (int (length ds) + e)))"

text \<open>Reading and writing again.\<close>

definition float64_text :: "string \<Rightarrow> string option" where
  "float64_text t =
     (let neg = (t \<noteq> [] \<and> hd t = CHR ''-''); s = (if neg then tl t else t)
      in map_option (\<lambda>y. (if neg then ''-'' else []) @ float_text y) (round64 (magnitude s)))"

section \<open>Rounding twice is rounding once\<close>

lemma binade_greater:
  assumes "0 < x" shows "x < 2 powi (binade x + 1)"
proof (cases "x < 2 powi (bitlen (fst (quotient_of x)) - bitlen (snd (quotient_of x)))")
  case True
  then show ?thesis by (simp add: binade_def Let_def)
next
  case False
  define p q where "p = fst (quotient_of x)" and "q = snd (quotient_of x)"
  then have pq: "quotient_of x = (p, q)" by simp
  have q: "0 < q" using quotient_of_denom_pos [OF pq] .
  have x: "x = of_int p / of_int q" using quotient_of_div [OF pq] .
  with assms q have p: "0 < p" by (simp add: zero_less_divide_iff)
  have P: "p < 2 ^ nat (bitlen p)" and Q: "2 ^ nat (bitlen q - 1) \<le> q"
    using bitlen_bounds [OF p] bitlen_bounds [OF q] by auto
  have nn: "0 \<le> bitlen q - 1" "0 \<le> bitlen p" using bitlen_ge_iff_power [of 1 q] q bitlen_nonneg by auto
  have "(2::rat) powi (bitlen q - 1) \<le> of_int q"
    using Q nn(1) by (metis of_int_le_iff of_int_numeral of_int_power power_int_def)
  moreover have "of_int p < (2::rat) powi (bitlen p)"
    using P nn(2) by (metis of_int_less_iff of_int_numeral of_int_power power_int_def)
  ultimately have "of_int p / of_int q < (2::rat) powi (bitlen p) / 2 powi (bitlen q - 1)"
    using p by (intro frac_less) auto
  moreover have "(2::rat) powi (bitlen p - bitlen q + 1) = 2 powi (bitlen p) / 2 powi (bitlen q - 1)"
    by (simp flip: power_int_diff) (simp add: algebra_simps)
  ultimately have "x < (2::rat) powi (bitlen p - bitlen q + 1)" by (simp add: x)
  with False show ?thesis by (simp add: binade_def Let_def p_def q_def)
qed

lemma round_even_of_int [simp]: "round_even (of_int n) = n"
  by (simp add: round_even_def)

lemma round_even_le: "t \<le> of_int n \<Longrightarrow> round_even t \<le> n"
  unfolding round_even_def Let_def by (auto simp: floor_less_iff le_floor_iff; linarith)

lemma round_even_nonneg: "0 \<le> t \<Longrightarrow> 0 \<le> round_even t"
  by (auto simp: round_even_def Let_def)

lemma ulp_pos: "0 < ulp x"
  by (simp add: ulp_def)

text \<open>A multiple of a unit of at most 53 bits is a double.\<close>

lemma round64_multiple:
  assumes "0 < n" "n \<le> 2 ^ 53" "- 1074 \<le> e" "of_int n * 2 powi e < (2::rat) ^ 1024"
  shows "round64 (of_int n * 2 powi e) = Some (of_int n * 2 powi e)"
proof -
  let ?y = "of_int n * 2 powi e :: rat"
  define b where "b = binade ?y"
  have y: "0 < ?y" using assms(1) by simp
  have "(2::rat) powi b \<le> ?y" using binade_le [OF y] by (simp add: b_def)
  have "of_int n \<le> (2::rat) ^ 53" using assms(2) by (metis of_int_le_iff of_int_numeral of_int_power)
  then have "?y \<le> 2 ^ 53 * 2 powi e" by (intro mult_right_mono) simp_all
  also have "\<dots> = 2 powi (53 + e)" by (simp add: power_int_add)
  finally have le: "?y \<le> 2 powi (53 + e)" .
  have "(2::rat) powi b \<le> 2 powi (53 + e)" using \<open>(2::rat) powi b \<le> ?y\<close> le by linarith
  then have b: "b \<le> 53 + e"
    using power_int_strict_increasing [of "53 + e" b "2::rat"] by (cases "b \<le> 53 + e") simp_all
  have "\<exists>k :: int. ?y / ulp ?y = of_int k"
  proof (cases "max (b - 52) (- 1074) \<le> e")
    case True
    define d where "d = nat (e - max (b - 52) (- 1074))"
    have "(2::rat) powi e / ulp ?y = 2 powi (e - max (b - 52) (- 1074))"
      by (simp add: ulp_def b_def power_int_diff)
    also have "\<dots> = 2 ^ d" using True by (simp add: d_def power_int_def)
    finally have "?y / ulp ?y = of_int (n * 2 ^ d)" by (simp flip: times_divide_eq_right)
    then show ?thesis by blast
  next
    case False
    with b assms(3) have e: "b = 53 + e" "max (b - 52) (- 1074) = e + 1" by auto
    have "(2::rat) powi (53 + e) \<le> ?y" using \<open>(2::rat) powi b \<le> ?y\<close> by (simp add: e(1))
    with le have yy: "?y = 2 powi (53 + e)" by linarith
    have "?y / ulp ?y = 2 powi (53 + e) / 2 powi (e + 1)" unfolding yy [symmetric] by (simp add: ulp_def e(2) flip: b_def)
    also have "\<dots> = 2 powi 52" by (simp flip: power_int_diff)
    finally have "?y / ulp ?y = of_int (2 ^ 52)" by simp
    then show ?thesis by blast
  qed
  then obtain k :: int where k: "?y / ulp ?y = of_int k" by blast
  then have "of_int k * ulp ?y = ?y" using ulp_pos [of ?y] by (simp add: field_simps)
  with k assms(4) y show ?thesis by (simp add: round64_def)
qed

lemma round64_cases:
  assumes "round64 x = Some y" "0 \<le> x"
  obtains "y = 0" | n e where "y = of_int n * 2 powi e" "0 < n" "n \<le> 2 ^ 53" "- 1074 \<le> e" "y < 2 ^ 1024"
proof (cases "x = 0")
  case True
  with assms that(1) show ?thesis by (simp add: round64_def)
next
  case False
  with assms(2) have x: "0 < x" by simp
  define n where "n = round_even (x / ulp x)"
  define e where "e = max (binade x - 52) (- 1074)"
  have u: "ulp x = 2 powi e" by (simp add: ulp_def e_def)
  have y: "y = of_int n * 2 powi e" "y < 2 ^ 1024"
    using assms(1) False by (auto simp: round64_def Let_def n_def u split: if_split_asm)
  have "0 \<le> n" using x ulp_pos [of x] by (simp add: n_def round_even_nonneg)
  have "(2::rat) powi (binade x + 1) \<le> 2 powi (53 + e)" by (rule power_int_increasing) (simp_all add: e_def)
  with binade_greater [OF x] have "x \<le> 2 powi (53 + e)" by linarith
  then have "x / ulp x \<le> 2 powi (53 + e) / 2 powi e" unfolding u by (rule divide_right_mono) simp
  also have "\<dots> = of_int (2 ^ 53)" by (simp flip: power_int_diff)
  finally have "n \<le> 2 ^ 53" unfolding n_def by (rule round_even_le)
  show ?thesis
  proof (cases "n = 0")
    case True
    with y that(1) show ?thesis by simp
  next
    case False
    with \<open>0 \<le> n\<close> have "0 < n" by simp
    with y \<open>n \<le> 2 ^ 53\<close> that(2) [of n e] show ?thesis by (simp add: e_def)
  qed
qed

text \<open>Every double has a decimal text of finite length.\<close>

lemma double_exact:
  fixes N :: nat and y :: rat
  assumes "y = of_int n * 2 powi e" "0 < n" "- int N \<le> e"
  shows "of_int \<lfloor>y * 10 ^ N\<rfloor> * 10 powi (- int N) = y \<and> 0 < \<lfloor>y * 10 ^ N\<rfloor>"
proof -
  define d where "d = nat (e + int N)"
  have "(2::rat) powi e * 2 ^ N = 2 powi (e + int N)" by (simp add: power_int_add)
  also have "\<dots> = 2 ^ d" using assms(3) by (simp add: d_def power_int_def)
  finally have "y * 10 ^ N = of_int n * 2 ^ d * 5 ^ N"
    using power_mult_distrib [of "2::rat" 5 N] by (simp add: assms(1) algebra_simps)
  also have "\<dots> = of_int (n * 2 ^ d * 5 ^ N)" by simp
  finally have k: "y * 10 ^ N = of_int (n * 2 ^ d * 5 ^ N)" .
  then have "\<lfloor>y * 10 ^ N\<rfloor> = n * 2 ^ d * 5 ^ N" by (simp only: floor_of_int)
  moreover have "of_int (n * 2 ^ d * 5 ^ N) * 10 powi (- int N) = y"
    unfolding k [symmetric] by (simp add: power_int_minus)
  moreover have "0 < n * 2 ^ d * 5 ^ N" using assms(2) by simp
  ultimately show ?thesis by simp
qed

lemma shortest_rounds:
  assumes "round64 x = Some y" "0 \<le> x" "y \<noteq> 0" "shortest y = (c, e)"
  shows "0 < c \<and> round64 (of_int c * 10 powi e) = Some y"
proof (cases "List.map_filter (decimal y) [1..<18]")
  case Nil
  obtain N :: nat where N: "N = 1074" by simp
  have "shortest y = (\<lfloor>y * 10 ^ N\<rfloor>, - int N)"
    unfolding shortest_def Nil list.case N of_nat_numeral by (rule refl)
  with assms(4) have c: "c = \<lfloor>y * 10 ^ N\<rfloor>" "e = - int N" by simp_all
  from assms(1,2) show ?thesis
  proof (cases rule: round64_cases)
    case (2 n k)
    have "- int N \<le> k" using 2(4) by (simp add: N)
    with double_exact [OF 2(1,2) this] round64_multiple [OF 2(2-4)] 2(1,5) show ?thesis unfolding c by simp
  qed (use assms(3) in simp)
next
  case (Cons ce ces)
  then have "ce \<in> set (List.map_filter (decimal y) [1..<18])" by simp
  then obtain n where "decimal y n = Some ce" by (auto simp: map_filter_def)
  then show ?thesis using Cons assms(4)
    by (auto simp: shortest_def decimal_def Let_def find_Some_iff)
qed

section \<open>Writing and reading\<close>

lemma is_dig_digit: "is_dig c \<longleftrightarrow> digit c \<noteq> None"
  by (simp add: is_dig_def digit_def Let_def)

lemma digits_val: "list_all is_dig s \<Longrightarrow> digits acc s = Some (acc * 10 ^ length s + val s)"
proof (induction s arbitrary: acc rule: rev_induct)
  case (snoc c s)
  then obtain n where n: "digit c = Some n" by (auto simp: is_dig_digit)
  from snoc have IH: "digits acc s = Some (acc * 10 ^ length s + val s)" for acc by simp
  then have "val (s @ [c]) = 10 * val s + n" using IH [of 0] by (simp add: val_def [of "s @ [c]"] digits_append n)
  with IH n show ?case by (simp add: digits_append algebra_simps)
qed (simp add: val_def)

lemma val_append: "list_all is_dig (s @ t) \<Longrightarrow> val (s @ t) = val s * 10 ^ length t + val t"
proof -
  assume d: "list_all is_dig (s @ t)"
  then have "digits 0 (s @ t) = Some (val s * 10 ^ length t + val t)"
    by (simp add: digits_append digits_val)
  with digits_val [OF d, of 0] show ?thesis by simp
qed

lemma val_zeros: "val (zeros n @ s) = val s" "val (CHR ''0'' # s) = val s"
proof -
  have z: "digits 0 (CHR ''0'' # s) = digits 0 s" for s by (simp add: digit_def)
  then show "val (CHR ''0'' # s) = val s" by (simp add: val_def)
  have "digits 0 (replicate k (CHR ''0'') @ s) = digits 0 s" for k by (induction k) (simp_all add: digit_def)
  then show "val (zeros n @ s) = val s" by (simp add: val_def zeros_def)
qed

lemma zeros_digits: "list_all is_dig (zeros n)" "length (zeros n) = nat n"
  by (simp_all add: zeros_def list_all_length is_dig_def)

lemma val_only_zeros: "val (zeros n) = 0"
  using val_zeros(1) [of n "[]"] by (simp add: val_def)

lemma is_dig_marks [simp]:
  "\<not> is_dig (CHR ''.'')" "\<not> is_dig (CHR ''e'')" "is_dig (CHR ''0'')"
  by (simp_all add: is_dig_def)

lemma takeWhile_digits:
  assumes "list_all is_dig s" "r = [] \<or> \<not> is_dig (hd r)"
  shows "takeWhile is_dig (s @ r) = s" "dropWhile is_dig (s @ r) = r"
proof -
  have t: "takeWhile is_dig (s @ r) = s @ takeWhile is_dig r" "dropWhile is_dig (s @ r) = dropWhile is_dig r"
    using assms(1) by (auto simp: list_all_iff takeWhile_append2 dropWhile_append2)
  with assms(2) show "takeWhile is_dig (s @ r) = s" "dropWhile is_dig (s @ r) = r" by (cases r; simp)+
qed

text \<open>A text that is an integer part, a fraction after a point, if there is one, and an exponent, if there is one.\<close>

definition number_text :: "string \<Rightarrow> string \<Rightarrow> string \<Rightarrow> string" where
  "number_text ip fp ex = ip @ (if fp = [] then [] else CHR ''.'' # fp) @ ex"

lemma number_text_parts:
  assumes "ip \<noteq> []" "list_all is_dig (ip @ fp)" "ex = [] \<or> hd ex = CHR ''e''"
  shows "takeWhile is_dig (number_text ip fp ex) = ip"
    "fraction_digits (dropWhile is_dig (number_text ip fp ex)) = fp"
    "after_fraction (dropWhile is_dig (number_text ip fp ex)) = ex"
    "fraction_form (dropWhile is_dig (number_text ip fp ex)) \<longleftrightarrow> exponent_form ex"
proof -
  let ?r = "(if fp = [] then [] else CHR ''.'' # fp) @ ex"
  have ex: "ex = [] \<or> \<not> is_dig (hd ex)" "ex = [] \<or> hd ex \<noteq> CHR ''.''" using assms(3) by (auto simp: is_dig_def)
  then have r: "?r = [] \<or> \<not> is_dig (hd ?r)" by auto
  have d: "dropWhile is_dig (number_text ip fp ex) = ?r" and "takeWhile is_dig (number_text ip fp ex) = ip"
    using takeWhile_digits [OF _ r] assms(2) by (simp_all add: number_text_def)
  then show "takeWhile is_dig (number_text ip fp ex) = ip" by simp
  have f: "takeWhile is_dig (fp @ ex) = fp" "dropWhile is_dig (fp @ ex) = ex"
    using takeWhile_digits [OF _ ex(1)] assms(2) by simp_all
  show "fraction_digits (dropWhile is_dig (number_text ip fp ex)) = fp"
    "after_fraction (dropWhile is_dig (number_text ip fp ex)) = ex"
    unfolding d using f ex(2) by (auto simp: fraction_digits_def after_fraction_def)
  show "fraction_form (dropWhile is_dig (number_text ip fp ex)) \<longleftrightarrow> exponent_form ex"
    unfolding d using f ex(2) by (auto simp: fraction_form_def)
qed

definition exponent_text :: "int \<Rightarrow> string" where
  "exponent_text k = CHR ''e'' # (if k < 0 then CHR ''-'' else CHR ''+'') # show_nat (nat \<bar>k\<bar>)"

lemma layout_text:
  assumes "ds \<noteq> []"
  shows "layout ds k =
    (if k \<le> - 6 \<or> 21 < k then number_text [hd ds] (tl ds) (exponent_text (k - 1))
     else if k \<le> 0 then number_text ''0'' (zeros (- k) @ ds) []
     else if k < int (length ds) then number_text (take (nat k) ds) (drop (nat k) ds) []
     else number_text (ds @ zeros (k - int (length ds))) [] [])"
  using assms by (auto simp: layout_def number_text_def exponent_text_def)

lemma show_nat_digits: "list_all is_dig (show_nat n)"
proof (induction n rule: less_induct)
  case (less n)
  have "is_dig (char_of (48 + k :: nat))" if "k < 10" for k using that by (simp add: is_dig_def)
  with less show ?case by (cases "n < 10") (simp_all add: show_nat.simps [of n])
qed

lemma val_show_nat: "val (show_nat n) = int n"
  by (simp add: val_def digits_show_nat)

lemma exponent_text:
  "exponent_form (exponent_text k) \<and> exponent_value (exponent_text k) = k \<and> hd (exponent_text k) = CHR ''e''"
proof -
  have "show_nat n \<noteq> []" for n by (subst show_nat.simps) simp
  then show ?thesis
    by (simp add: exponent_text_def exponent_form_def exponent_value_def show_nat_digits val_show_nat)
qed

lemma magnitude_number_text:
  assumes "ip \<noteq> []" "list_all is_dig (ip @ fp)" "ex = [] \<or> hd ex = CHR ''e''"
  shows "magnitude (number_text ip fp ex) = of_int (val (ip @ fp)) * 10 powi (exponent_value ex - int (length fp))"
  using number_text_parts [OF assms] by (simp add: magnitude_def Let_def)

lemma magnitude_layout:
  assumes "ds \<noteq> []" "list_all is_dig ds"
  shows "magnitude (layout ds k) = of_int (val ds) * 10 powi (k - int (length ds))"
proof -
  have z: "list_all is_dig (zeros n @ ds)" "list_all is_dig (ds @ zeros n)" for n
    using assms(2) zeros_digits by simp_all
  consider "k \<le> - 6 \<or> 21 < k" | "\<not> (k \<le> - 6 \<or> 21 < k)" "k \<le> 0"
    | "\<not> (k \<le> - 6 \<or> 21 < k)" "0 < k" "k < int (length ds)"
    | "\<not> (k \<le> - 6 \<or> 21 < k)" "0 < k" "int (length ds) \<le> k" by linarith
  then show ?thesis
  proof cases
    case 1
    have "hd ds # tl ds = ds" using assms(1) by simp
    then have "magnitude (layout ds k) = of_int (val ds) * 10 powi (k - 1 - int (length (tl ds)))"
      using 1 assms magnitude_number_text [of "[hd ds]" "tl ds" "exponent_text (k - 1)"] exponent_text [of "k - 1"]
      by (simp add: layout_text)
    moreover have "k - 1 - int (length (tl ds)) = k - int (length ds)" using assms(1) by (cases ds) simp_all
    ultimately show ?thesis by simp
  next
    case 2
    have "magnitude (layout ds k) = of_int (val ds) * 10 powi (0 - int (length (zeros (- k) @ ds)))"
      using 2 assms z magnitude_number_text [of "''0''" "zeros (- k) @ ds" "[]"]
      by (simp add: layout_text val_zeros exponent_value_def)
    with 2 show ?thesis by (simp add: zeros_digits)
  next
    case 3
    have "list_all is_dig (take (nat k) ds @ drop (nat k) ds)" using assms(2) by simp
    moreover have "take (nat k) ds \<noteq> []" using 3 assms(1) by simp
    ultimately have "magnitude (layout ds k) = of_int (val ds) * 10 powi (0 - int (length (drop (nat k) ds)))"
      using 3 assms magnitude_number_text [of "take (nat k) ds" "drop (nat k) ds" "[]"]
      by (simp add: layout_text exponent_value_def)
    with 3 show ?thesis by (simp add: of_nat_diff)
  next
    case 4
    have "magnitude (layout ds k) = of_int (val (ds @ zeros (k - int (length ds))))"
      using 4 assms z magnitude_number_text [of "ds @ zeros (k - int (length ds))" "[]" "[]"]
      by (simp add: layout_text exponent_value_def)
    also have "val (ds @ zeros (k - int (length ds))) = val ds * 10 ^ nat (k - int (length ds))"
      using val_append [OF z(2)] by (simp add: val_only_zeros zeros_digits)
    finally show ?thesis using 4 by (simp add: power_int_def)
  qed
qed

lemma number_form_text:
  assumes "ip \<noteq> []" "list_all is_dig (ip @ fp)" "ex = [] \<or> hd ex = CHR ''e''" "exponent_form ex"
    "hd ip = CHR ''0'' \<longrightarrow> length ip = 1"
  shows "number_form (number_text ip fp ex) \<and> hd (number_text ip fp ex) \<noteq> CHR ''-''"
proof -
  have h: "hd (number_text ip fp ex) \<noteq> CHR ''-''" "number_text ip fp ex \<noteq> []"
    using assms(1,2) by (cases ip; auto simp: number_text_def is_dig_def)+
  then show ?thesis using number_text_parts [OF assms(1-3)] assms by (simp add: number_form_def Let_def)
qed

lemma number_form_layout:
  assumes "ds \<noteq> []" "list_all is_dig ds" "hd ds \<noteq> CHR ''0''"
  shows "number_form (layout ds k) \<and> hd (layout ds k) \<noteq> CHR ''-''"
proof -
  have e0: "exponent_form []" by (simp add: exponent_form_def)
  have d: "list_all is_dig (take (nat k) ds)" "list_all is_dig (drop (nat k) ds)"
    using assms(2) by (auto simp: list_all_iff dest: in_set_takeD in_set_dropD)
  have t: "list_all is_dig [hd ds]" "list_all is_dig (tl ds)" using assms(1,2) by (cases ds; simp)+
  show ?thesis
    unfolding layout_text [OF assms(1)]
    using number_form_text [of "[hd ds]" "tl ds" "exponent_text (k - 1)"] exponent_text [of "k - 1"]
      number_form_text [of "''0''" "zeros (- k) @ ds" "[]"]
      number_form_text [of "take (nat k) ds" "drop (nat k) ds" "[]"]
      number_form_text [of "ds @ zeros (k - int (length ds))" "[]" "[]"] assms d t e0
    by (simp add: zeros_digits)
qed

section \<open>A number read, written and read again\<close>

lemma trim_zeros_split: "\<exists>z. s = trim_zeros s @ replicate z (CHR ''0'')"
proof -
  have "takeWhile (\<lambda>c. c = CHR ''0'') (rev s) = replicate (length (takeWhile (\<lambda>c. c = CHR ''0'') (rev s))) (CHR ''0'')"
    by (auto simp: list_eq_iff_nth_eq dest: nth_mem set_takeWhileD)
  then obtain z where z: "takeWhile (\<lambda>c. c = CHR ''0'') (rev s) = replicate z (CHR ''0'')" by blast
  have "rev s = replicate z (CHR ''0'') @ dropWhile (\<lambda>c. c = CHR ''0'') (rev s)"
    unfolding z [symmetric] by simp
  then have "s = rev (replicate z (CHR ''0'') @ dropWhile (\<lambda>c. c = CHR ''0'') (rev s))" by (metis rev_rev_ident)
  then show ?thesis by (auto simp: trim_zeros_def)
qed

lemma hd_show_nat_pos: "0 < n \<Longrightarrow> hd (show_nat n) \<noteq> CHR ''0''"
proof (induction n rule: less_induct)
  case (less n)
  show ?case
  proof (cases "n < 10")
    case True
    have "(of_char (CHR ''0'') :: nat) = 48" by simp
    moreover have "(of_char (char_of (48 + n)) :: nat) = 48 + n" using True by simp
    ultimately have "char_of (48 + n) \<noteq> CHR ''0''" using less.prems by (metis add_cancel_right_right nless_le)
    then show ?thesis using True by (subst show_nat.simps) simp
  next
    case False
    have "show_nat (n div 10) \<noteq> []" by (subst show_nat.simps) simp
    then show ?thesis using False less.IH [of "n div 10"] by (subst show_nat.simps) simp
  qed
qed

lemma float_text_form: "0 \<le> y \<Longrightarrow> (y \<noteq> 0 \<Longrightarrow> 0 < fst (shortest y)) \<Longrightarrow>
  number_form (float_text y) \<and> hd (float_text y) \<noteq> CHR ''-'' \<and>
  (y \<noteq> 0 \<longrightarrow> magnitude (float_text y) = of_int (fst (shortest y)) * 10 powi (snd (shortest y)))"
proof -
  assume pos: "y \<noteq> 0 \<Longrightarrow> 0 < fst (shortest y)"
  show ?thesis
  proof (cases "y = 0")
    case True
    then show ?thesis by (simp add: float_text_def number_form_def fraction_form_def exponent_form_def)
  next
    case False
    obtain c e where ce: "shortest y = (c, e)" by force
    with pos False have c: "0 < c" by simp
    define ds where "ds = trim_zeros (show_nat (nat c))"
    obtain z where z: "show_nat (nat c) = ds @ replicate z (CHR ''0'')" using trim_zeros_split by (auto simp: ds_def)
    have d: "list_all is_dig (ds @ zeros (int z))" using show_nat_digits [of "nat c"] by (simp add: z zeros_def)
    have v: "val ds * 10 ^ z = c"
      using val_show_nat [of "nat c"] val_append [OF d] val_only_zeros [of "int z"] c by (simp add: z zeros_def)
    have "ds \<noteq> []"
    proof
      assume "ds = []"
      with v c show False by (simp add: val_def)
    qed
    moreover from this have "hd ds \<noteq> CHR ''0''" using hd_show_nat_pos [of "nat c"] c by (simp add: z)
    moreover have "list_all is_dig ds" using d by simp
    moreover have f: "float_text y = layout ds (int (length ds + z) + e)"
    proof -
      have "length (show_nat (nat c)) = length ds + z" by (simp add: z)
      then show ?thesis using False by (simp add: float_text_def ce Let_def flip: ds_def)
    qed
    ultimately show ?thesis
      using number_form_layout [of ds "int (length ds + z) + e"] magnitude_layout [of ds "int (length ds + z) + e"] v
      by (simp add: ce power_int_add flip: v)
  qed
qed

lemma round64_nonneg: "round64 x = Some y \<Longrightarrow> 0 \<le> x \<Longrightarrow> 0 \<le> y"
  by (erule round64_cases) simp_all

lemma digits_nonneg: "0 \<le> acc \<Longrightarrow> digits acc s = Some n \<Longrightarrow> 0 \<le> n"
  by (induction acc s rule: digits.induct) (auto simp: digit_def Let_def split: option.splits if_splits)

lemma magnitude_nonneg: "0 \<le> magnitude s"
proof -
  have "0 \<le> val t" for t using digits_nonneg [of 0 t] by (auto simp: val_def split: option.split)
  then show ?thesis by (simp add: magnitude_def Let_def)
qed

text \<open>The text that is written has the form of a number and stands for the same double.\<close>

lemma float64_text_idem:
  assumes "float64_text t = Some t'"
  shows "number_form t' \<and> float64_text t' = Some t'"
proof -
  define neg where "neg = (t \<noteq> [] \<and> hd t = CHR ''-'')"
  obtain y where y: "round64 (magnitude (if neg then tl t else t)) = Some y"
    and t': "t' = (if neg then ''-'' else []) @ float_text y"
    using assms by (auto simp: float64_text_def neg_def Let_def)
  note nn = round64_nonneg [OF y magnitude_nonneg]
  have s: "y \<noteq> 0 \<Longrightarrow> 0 < fst (shortest y) \<and> round64 (of_int (fst (shortest y)) * 10 powi (snd (shortest y))) = Some y"
    using shortest_rounds [OF y magnitude_nonneg] by (cases "shortest y") simp
  note f = float_text_form [OF nn] s
  have "round64 (magnitude (float_text y)) = Some y"
  proof (cases "y = 0")
    case True
    then show ?thesis
      by (simp add: float_text_def magnitude_def Let_def val_def digit_def fraction_digits_def after_fraction_def
          exponent_value_def round64_def)
  next
    case False
    with f show ?thesis by simp
  qed
  moreover have "number_form (float_text y)" "hd (float_text y) \<noteq> CHR ''-''" using f by blast+
  moreover from this have "float_text y \<noteq> []" using number_form_chars by blast
  ultimately show ?thesis
    by (auto simp: t' float64_text_def number_form_def Let_def)
qed

end
