(* ===== verification/Json_Codec.thy ===== *)
theory Json_Codec
  imports Float64
begin

text \<open>
  \<^verbatim>\<open>json.Marshal\<close> and \<^verbatim>\<open>json.Unmarshal\<close> on the types of the program: \<^verbatim>\<open>interface{}\<close> and
  \<^verbatim>\<open>map[string]interface{}\<close>, whose numbers are doubles and whose maps have distinct keys and are
  written in their order, and the queue's \<^verbatim>\<open>Message\<close> with its raw payload. The codec of the
  standard library is the record \<open>encoding_json\<close>; its one parameter is the text of a syntax error.
\<close>

section \<open>Values of the language\<close>

text \<open>A map as the list of its entries in the order of the keys; setting a key again replaces its value.\<close>

fun put :: "'k::linorder \<Rightarrow> 'a \<Rightarrow> ('k \<times> 'a) list \<Rightarrow> ('k \<times> 'a) list" where
  "put k v [] = [(k, v)]"
| "put k v ((k', v') # m) =
     (if k = k' then (k, v) # m else if k < k' then (k, v) # (k', v') # m else (k', v') # put k v m)"

definition go_map :: "('k::linorder \<times> 'a) list \<Rightarrow> ('k \<times> 'a) list" where
  "go_map kvs = foldl (\<lambda>m (k, v). put k v m) [] kvs"

fun collect :: "'a res list \<Rightarrow> 'a list res" where
  "collect [] = Inr []"
| "collect (Inl e # rs) = Inl e"
| "collect (Inr x # rs) = (case collect rs of Inl e \<Rightarrow> Inl e | Inr xs \<Rightarrow> Inr (x # xs))"

text \<open>What a scanned text is as an \<^verbatim>\<open>interface{}\<close>.\<close>

fun to_go :: "json \<Rightarrow> json res" where
  "to_go (JNumber t) =
     (case float64_text t of
        Some t' \<Rightarrow> Inr (JNumber t')
      | None \<Rightarrow> Inl (ErrorNew (''json: cannot unmarshal number '' @ t @ '' into Go value of type float64'')))"
| "to_go (JArray vs) = (case collect (map to_go vs) of Inl e \<Rightarrow> Inl e | Inr xs \<Rightarrow> Inr (JArray xs))"
| "to_go (JObject kvs) =
     (case collect (map (\<lambda>(k, v). to_go v) kvs) of
        Inl e \<Rightarrow> Inl e
      | Inr xs \<Rightarrow> Inr (JObject (go_map (zip (map fst kvs) xs))))"
| "to_go v = Inr v"

text \<open>A map is written in the order of its keys.\<close>

fun in_order :: "json \<Rightarrow> json" where
  "in_order (JArray vs) = JArray (map in_order vs)"
| "in_order (JObject kvs) = JObject (go_map (map (\<lambda>(k, v). (k, in_order v)) kvs))"
| "in_order v = v"

section \<open>The queue's message\<close>

text \<open>
  \<^verbatim>\<open>json.RawMessage\<close> is written without white space and with the escapes for HTML; first outside, then
  inside of a string.
\<close>

function squeeze :: "bool \<Rightarrow> string \<Rightarrow> string" where
  "squeeze inside [] = []"
| "squeeze False (c # s) = (if is_ws c then squeeze False s else c # squeeze (c = CHR 0x22) s)"
| "squeeze True (c # s) =
     (if c = CHR 0x5C \<and> s \<noteq> [] then c # hd s # squeeze True (tl s)
      else if c = CHR 0x22 then c # squeeze False s
      else if html_special c then u_escape (of_char c) @ squeeze True s
      else if take 3 (c # s) = encode_rune 0x2028 then u_escape 0x2028 @ squeeze True (drop 2 s)
      else if take 3 (c # s) = encode_rune 0x2029 then u_escape 0x2029 @ squeeze True (drop 2 s)
      else c # squeeze True s)"
  by pat_completeness auto
termination by (relation "measure (\<lambda>(i, s). length s)") auto

definition raw_text :: "(string \<Rightarrow> string) \<Rightarrow> string \<Rightarrow> string res" where
  "raw_text sy p =
     (if p = [] then Inr ''null''
      else if scan p = None
      then Inl (Wrapf ''json: error calling MarshalJSON for type json.RawMessage: '' (ErrorNew (sy p)))
      else Inr (squeeze False p))"

definition std_marshal_Message :: "(string \<Rightarrow> string) \<Rightarrow> Message \<Rightarrow> string res" where
  "std_marshal_Message sy m =
     (case raw_text sy (msg_Payload m) of
        Inl e \<Rightarrow> Inl e
      | Inr p \<Rightarrow>
          Inr (CHR ''{'' # commas
            [member ''id'' (quote (msg_ID m)), member ''tenant_id'' (quote (msg_TenantID m)), member ''payload'' p,
             member ''timestamp'' (show_int (msg_Timestamp m))] @ ''}''))"

text \<open>
  The names of fields are compared without regard to case; beside the ASCII letters, U+017F and
  U+212A fold to \<^verbatim>\<open>s\<close> and \<^verbatim>\<open>k\<close>.
\<close>

fun fold_runes :: "string \<Rightarrow> string" where
  "fold_runes [] = []"
| "fold_runes (c # s) =
     (if take 2 (c # s) = encode_rune 0x17F then CHR ''s'' # fold_runes (drop 1 s)
      else if take 3 (c # s) = encode_rune 0x212A then CHR ''k'' # fold_runes (drop 2 s)
      else to_lower c # fold_runes s)"

text \<open>
  One member: a field that does not match is skipped, \<^verbatim>\<open>null\<close> leaves a string or a number as it is, and a
  value of another type is an error, after which decoding goes on.
\<close>

definition type_error :: "string \<Rightarrow> string \<Rightarrow> string \<Rightarrow> go_error" where
  "type_error what field ty =
     ErrorNew (''json: cannot unmarshal '' @ what @ '' into Go struct field Message.'' @ field @ '' of type '' @ ty)"

definition kind_name :: "json \<Rightarrow> string" where
  "kind_name v =
     (case v of JNull \<Rightarrow> ''null'' | JBool b \<Rightarrow> ''bool'' | JNumber t \<Rightarrow> ''number'' | JString s \<Rightarrow> ''string''
      | JArray vs \<Rightarrow> ''array'' | JObject kvs \<Rightarrow> ''object'')"

definition string_field :: "string \<Rightarrow> (string \<Rightarrow> Message) \<Rightarrow> json \<Rightarrow> Message \<Rightarrow> Message \<times> go_error option" where
  "string_field field upd v m =
     (case v of JString s \<Rightarrow> (upd s, None) | JNull \<Rightarrow> (m, None)
      | _ \<Rightarrow> (m, Some (type_error (kind_name v) field ''string'')))"

definition parse_int64 :: "string \<Rightarrow> int option" where
  "parse_int64 t =
     (let neg = (t \<noteq> [] \<and> hd t = CHR ''-'')
      in case digits 0 (if neg then tl t else t) of
           None \<Rightarrow> None
         | Some n \<Rightarrow> (let i = (if neg then - n else n) in if - (2 ^ 63) \<le> i \<and> i < 2 ^ 63 then Some i else None))"

definition set_field_Message :: "string \<Rightarrow> string \<Rightarrow> json \<Rightarrow> Message \<Rightarrow> Message \<times> go_error option" where
  "set_field_Message k raw v m =
     (let name = fold_runes k in
      if name = ''id'' then string_field ''id'' (\<lambda>s. m\<lparr>msg_ID := s\<rparr>) v m
      else if name = ''tenant_id'' then string_field ''tenant_id'' (\<lambda>s. m\<lparr>msg_TenantID := s\<rparr>) v m
      else if name = ''payload'' then (m\<lparr>msg_Payload := raw\<rparr>, None)
      else if name = ''timestamp''
      then (case v of
              JNumber t \<Rightarrow>
                (case parse_int64 t of
                   Some n \<Rightarrow> (m\<lparr>msg_Timestamp := n\<rparr>, None)
                 | None \<Rightarrow> (m, Some (type_error (''number '' @ t) ''timestamp'' ''int64'')))
            | JNull \<Rightarrow> (m, None)
            | _ \<Rightarrow> (m, Some (type_error (kind_name v) ''timestamp'' ''int64'')))
      else (m, None))"

text \<open>All members in order; the first error is the one reported.\<close>

fun set_fields :: "(string \<times> string \<times> json) list \<Rightarrow> Message \<Rightarrow> go_error option \<Rightarrow> Message res" where
  "set_fields [] m err = (case err of None \<Rightarrow> Inr m | Some e \<Rightarrow> Inl e)"
| "set_fields ((k, raw, v) # ms) m err =
     (let (m', e) = set_field_Message k raw v m
      in set_fields ms m' (case err of None \<Rightarrow> e | Some e0 \<Rightarrow> Some e0))"

definition zero_Message :: Message where
  "zero_Message = \<lparr>msg_ID = [], msg_TenantID = [], msg_Payload = [], msg_Timestamp = 0\<rparr>"

definition std_unmarshal_Message :: "(string \<Rightarrow> string) \<Rightarrow> string \<Rightarrow> Message res" where
  "std_unmarshal_Message sy s =
     (case scan s of
        None \<Rightarrow> Inl (ErrorNew (sy s))
      | Some JNull \<Rightarrow> Inr zero_Message
      | Some (JObject kvs) \<Rightarrow>
          (case scan_members s of
             None \<Rightarrow> Inl (ErrorNew (sy s))
           | Some ms \<Rightarrow> set_fields ms zero_Message None)
      | Some v \<Rightarrow> Inl (ErrorNew (''json: cannot unmarshal '' @ kind_name v @ '' into Go value of type tenant.Message'')))"

section \<open>The codec\<close>

definition encoding_json :: "(string \<Rightarrow> string) \<Rightarrow> go_json" where
  "encoding_json sy =
     \<lparr>marshal_value = (\<lambda>v. Inr (print (in_order v))),
      unmarshal_value = (\<lambda>s. case scan s of None \<Rightarrow> Inl (ErrorNew (sy s)) | Some v \<Rightarrow> to_go v),
      marshal_Message = std_marshal_Message sy,
      unmarshal_Message = std_unmarshal_Message sy\<rparr>"

section \<open>Maps\<close>

abbreviation ordered :: "('k::linorder \<times> 'a) list \<Rightarrow> bool" where
  "ordered m \<equiv> sorted_wrt (<) (map fst m)"

lemma set_put: "set (put k v m) \<subseteq> insert (k, v) (set m)"
  by (induction k v m rule: put.induct) auto

lemma put_above: "x < k \<Longrightarrow> \<forall>y \<in> fst ` set m. x < y \<Longrightarrow> \<forall>y \<in> fst ` set (put k v m). x < y"
  using set_put [of k v m] by fastforce

lemma ordered_put: "ordered m \<Longrightarrow> ordered (put k v m)"
proof (induction k v m rule: put.induct)
  case (2 k v k' v' m)
  consider "k = k'" | "k < k'" | "k' < k" using less_linear by blast
  then show ?case
  proof cases
    case 2
    then have "\<forall>y \<in> fst ` set m. k < y" using "2.prems" less_trans by fastforce
    with 2 "2.prems" show ?thesis by simp
  next
    case 3
    then have "k \<noteq> k'" "\<not> k < k'" by simp_all
    moreover have "\<forall>y \<in> fst ` set (put k v m). k' < y" using 3 "2.prems" by (intro put_above) simp_all
    ultimately show ?thesis using "2.IH" "2.prems" by simp
  qed (use "2.prems" in simp)
qed simp

lemma put_last: "\<forall>y \<in> fst ` set m. y < k \<Longrightarrow> put k v m = m @ [(k, v)]"
  by (induction k v m rule: put.induct) auto

lemma go_map_props: "ordered (go_map kvs) \<and> set (go_map kvs) \<subseteq> set kvs"
proof (induction kvs rule: rev_induct)
  case (snoc kv kvs)
  obtain k v where kv: "kv = (k, v)" by force
  have "go_map (kvs @ [kv]) = put k v (go_map kvs)" by (simp add: go_map_def kv)
  with snoc ordered_put set_put [of k v "go_map kvs"] show ?case by (auto simp: kv)
qed (simp add: go_map_def)

lemma go_map_ordered: "ordered kvs \<Longrightarrow> go_map kvs = kvs"
proof (induction kvs rule: rev_induct)
  case (snoc kv kvs)
  obtain k v where kv: "kv = (k, v)" by force
  from snoc have "go_map kvs = kvs" "\<forall>y \<in> fst ` set kvs. y < k" by (auto simp: sorted_wrt_append kv)
  then show ?case using put_last [of kvs k v] by (simp add: go_map_def kv)
qed (simp add: go_map_def)

section \<open>Values that are written and read back\<close>

fun canonical :: "json \<Rightarrow> bool" where
  "canonical (JNumber t) \<longleftrightarrow> number_form t \<and> float64_text t = Some t"
| "canonical (JString s) \<longleftrightarrow> utf8 s"
| "canonical (JArray vs) \<longleftrightarrow> list_all canonical vs"
| "canonical (JObject kvs) \<longleftrightarrow> ordered kvs \<and> list_all (\<lambda>(k, v). utf8 k \<and> canonical v) kvs"
| "canonical _ \<longleftrightarrow> True"

lemma canonical_printable: "canonical v \<Longrightarrow> printable v"
  by (induction v rule: printable.induct) (auto simp: list_all_iff)

lemma collect_Inr: "collect rs = Inr xs \<Longrightarrow> rs = map Inr xs"
  by (induction rs arbitrary: xs rule: collect.induct) (auto split: sum.split_asm)

lemma collect_map_Inr: "(\<And>x. x \<in> set xs \<Longrightarrow> f x = Inr (g x)) \<Longrightarrow> collect (map f xs) = Inr (map g xs)"
  by (induction xs) simp_all

lemma canonical_fixed: "canonical v \<Longrightarrow> to_go v = Inr v \<and> in_order v = v"
proof (induction v)
  case (JArray vs)
  have "collect (map to_go vs) = Inr (map (\<lambda>v. v) vs)"
    by (rule collect_map_Inr) (use JArray in \<open>simp add: list_all_iff\<close>)
  moreover have "map in_order vs = vs" by (rule map_idI) (use JArray in \<open>simp add: list_all_iff\<close>)
  ultimately show ?case by simp
next
  case (JObject kvs)
  have IH: "to_go v = Inr v \<and> in_order v = v" if "(k, v) \<in> set kvs" for k v
    using JObject.IH [OF that, of v] JObject.prems that by (auto simp: list_all_iff)
  have "collect (map (\<lambda>(k, v). to_go v) kvs) = Inr (map snd kvs)"
    by (rule collect_map_Inr) (use IH in auto)
  moreover have "map (\<lambda>(k, v). (k, in_order v)) kvs = map (\<lambda>kv. kv) kvs"
    by (rule map_cong) (use IH in auto)
  ultimately show ?case using JObject.prems by (simp add: go_map_ordered zip_map_fst_snd)
qed simp_all

lemma to_go_canonical: "to_go v = Inr v' \<Longrightarrow> readable d v \<Longrightarrow> canonical v' \<and> readable d v'"
proof (induction v arbitrary: v' d)
  case (JNumber t)
  then show ?case using float64_text_idem by (auto split: option.split_asm)
next
  case (JArray vs)
  then obtain xs where xs: "collect (map to_go vs) = Inr xs" "v' = JArray xs" by (auto split: sum.split_asm)
  have m: "map to_go vs = map Inr xs" by (rule collect_Inr) (rule xs(1))
  have "canonical x \<and> readable (d - 1) x" if "x \<in> set xs" for x
  proof -
    have "Inr x \<in> set (map to_go vs)" using that by (simp add: m)
    then obtain v where v: "v \<in> set vs" "to_go v = Inr x" by auto
    then show ?thesis using JArray.IH [OF v(1,2), of "d - 1"] JArray.prems(2) by (simp add: readable_JArray list_all_iff)
  qed
  then show ?case using JArray.prems(2) by (auto simp: xs(2) readable_JArray list_all_iff)
next
  case (JObject kvs)
  then obtain xs where xs: "collect (map (\<lambda>(k, v). to_go v) kvs) = Inr xs" "v' = JObject (go_map (zip (map fst kvs) xs))"
    by (auto split: sum.split_asm)
  have m: "map (\<lambda>(k, v). to_go v) kvs = map Inr xs" by (rule collect_Inr) (rule xs(1))
  have len: "length kvs = length xs" using arg_cong [OF m, of length] by simp
  have z: "utf8 k \<and> canonical x \<and> readable (d - 1) x" if kx: "(k, x) \<in> set (zip (map fst kvs) xs)" for k x
  proof -
    from kx obtain i where i: "i < length xs" "k = fst (kvs ! i)" "x = xs ! i" by (auto simp: set_zip len)
    have kv: "kvs ! i \<in> set kvs" using i len by simp
    obtain v where v: "kvs ! i = (k, v)" using i(2) by (cases "kvs ! i") simp
    have "map (\<lambda>(k, v). to_go v) kvs ! i = map Inr xs ! i" by (simp only: m)
    then have "to_go v = Inr x" using i(1,3) len v by simp
    moreover have "utf8 k" "readable (d - 1) v" using JObject.prems(2) kv v by (auto simp: readable_JObject list_all_iff)
    ultimately show ?thesis using JObject.IH [of "(k, v)" v x "d - 1"] kv v by simp
  qed
  have "ordered (go_map (zip (map fst kvs) xs))" "set (go_map (zip (map fst kvs) xs)) \<subseteq> set (zip (map fst kvs) xs)"
    using go_map_props [of "zip (map fst kvs) xs"] by simp_all
  then show ?case using z JObject.prems(2) by (auto simp: xs(2) readable_JObject list_all_iff)
qed auto

lemma encoding_json_simps [simp]:
  "marshal_value (encoding_json sy) v = Inr (print (in_order v))"
  "unmarshal_value (encoding_json sy) s = (case scan s of None \<Rightarrow> Inl (ErrorNew (sy s)) | Some v \<Rightarrow> to_go v)"
  "marshal_Message (encoding_json sy) = std_marshal_Message sy"
  "unmarshal_Message (encoding_json sy) = std_unmarshal_Message sy"
  by (simp_all add: encoding_json_def)

lemma canonical_roundtrip:
  "canonical v \<Longrightarrow> nesting v \<le> max_nesting \<Longrightarrow>
     marshal_value (encoding_json sy) v = Inr (print v) \<and> unmarshal_value (encoding_json sy) (print v) = Inr v"
  by (simp add: canonical_fixed scan_print canonical_printable)

lemma unmarshal_canonical:
  "unmarshal_value (encoding_json sy) s = Inr v \<Longrightarrow> canonical v \<and> nesting v \<le> max_nesting"
  by (auto simp: readable_def split: option.split_asm dest: to_go_canonical [OF _ scan_readable])

section \<open>The queue's message is read back\<close>

lemma squeeze_plain: "list_all (\<lambda>c. \<not> is_ws c \<and> c \<noteq> CHR 0x22) s \<Longrightarrow> squeeze False (s @ t) = s @ squeeze False t"
  by (induction s) simp_all

definition calm :: "char \<Rightarrow> bool" where
  "calm c \<longleftrightarrow> c \<noteq> CHR 0x5C \<and> c \<noteq> CHR 0x22 \<and> \<not> html_special c \<and> c \<noteq> CHR 0xE2"

lemma encode_rune_seps: "encode_rune 0x2028 = [CHR 0xE2, CHR 0x80, CHR 0xA8]" "encode_rune 0x2029 = [CHR 0xE2, CHR 0x80, CHR 0xA9]"
  by (simp_all add: encode_rune_def char_of_def bit_0)

lemma squeeze_calm: "calm c \<Longrightarrow> squeeze True (c # s) = c # squeeze True s"
  by (simp add: calm_def encode_rune_seps)

lemma squeeze_escape: "squeeze True (CHR 0x5C # e # s) = CHR 0x5C # e # squeeze True s"
  by simp

lemma squeeze_close: "squeeze True (CHR 0x22 # s) = CHR 0x22 # squeeze False s"
  by simp

declare squeeze.simps(3) [simp del]

lemma squeeze_all_calm: "list_all calm r \<Longrightarrow> squeeze True (r @ s) = r @ squeeze True s"
  by (induction r) (simp_all add: squeeze_calm)

lemma calm_bytes: "128 \<le> (of_char c :: nat) \<Longrightarrow> of_char c \<noteq> (226 :: nat) \<Longrightarrow> calm c"
  by (auto simp: calm_def html_special_def)

lemma calm_hex: "n < 16 \<Longrightarrow> calm (hex n)"
proof -
  assume "n < 16"
  then have "n \<in> set [0..<16]" by simp
  moreover have "list_all (\<lambda>n. calm (hex n)) [0..<16]" by code_simp
  ultimately show ?thesis by (auto simp: list_all_iff)
qed

lemma squeeze_u_escape: "n < 65536 \<Longrightarrow> squeeze True (u_escape n @ s) = u_escape n @ squeeze True s"
proof -
  assume "n < 65536"
  then have "n div 4096 < 16" by simp
  then show ?thesis by (simp add: u_escape_def squeeze_escape squeeze_calm calm_hex)
qed

lemma rune_tail_cont: "rune (c # d # s) \<Longrightarrow> list_all (\<lambda>c. 128 \<le> (of_char c :: nat) \<and> of_char c \<le> (191 :: nat)) (d # s)"
proof -
  assume r: "rune (c # d # s)"
  then have l: "rune_len (c # d # s) = length (c # d # s)" by (simp add: rune_def)
  then have "rune_len (c # d # s) \<noteq> 0" by simp
  then show ?thesis
  proof (cases rule: rune_len_cases)
    case 1
    with l show ?thesis by simp
  next
    case 2
    with l show ?thesis by (simp add: cont_def Let_def)
  next
    case 3
    with l have "length s = 1" by simp
    then obtain e where "s = [e]" by (cases s) auto
    with 3 show ?thesis by (auto simp: cont_def second_def Let_def split: if_split_asm)
  next
    case 4
    with l have "length s = 2" by simp
    then obtain e g where "s = [e, g]" by (auto simp: length_Suc_conv numeral_2_eq_2)
    with 4 show ?thesis by (auto simp: cont_def second_def Let_def numeral_eq_Suc split: if_split_asm)
  qed
qed

lemma rune_head_E2: "rune (c # d # s) \<Longrightarrow> of_char c = (226::nat) \<Longrightarrow> length s = 1"
proof -
  assume r: "rune (c # d # s)" and c: "of_char c = (226::nat)"
  then have l: "rune_len (c # d # s) = length (c # d # s)" by (simp add: rune_def)
  then have "rune_len (c # d # s) \<noteq> 0" by simp
  then show ?thesis by (cases rule: rune_len_cases) (use l c in simp_all)
qed

lemma squeeze_enc_rune:
  assumes "rune r"
  shows "squeeze True (enc_rune r @ s) = enc_rune r @ squeeze True s"
proof -
  obtain c q where r: "r = c # q" using assms by (cases r) (simp_all add: rune_def)
  show ?thesis
  proof (cases q)
    case Nil
    have c: "of_char c < (128::nat)"
      using assms by (auto simp: r Nil rune_def rune_len_def Let_def split: if_splits)
    show ?thesis
    proof (cases "short_escape c")
      case (Some e)
      then show ?thesis by (simp add: r Nil enc_rune_def squeeze_escape)
    next
      case None
      show ?thesis
      proof (cases "of_char c < (32::nat) \<or> html_special c")
        case True
        with None c squeeze_u_escape [of "of_char c" s] show ?thesis by (simp add: r Nil enc_rune_def)
      next
        case False
        with short_escape_None [OF None] c have "calm c" by (auto simp: calm_def)
        with None False show ?thesis by (simp add: r Nil enc_rune_def squeeze_calm)
      qed
    qed
  next
    case (Cons d t)
    note 3 = r [unfolded Cons]
    show ?thesis
    proof (cases "r = encode_rune 0x2028 \<or> r = encode_rune 0x2029")
      case True
      then show ?thesis using squeeze_u_escape [of "0x2028" s] squeeze_u_escape [of "0x2029" s]
        by (auto simp: enc_rune_def 3 encode_rune_seps)
    next
      case False
      then have sep: "r \<noteq> encode_rune 0x2028" "r \<noteq> encode_rune 0x2029" by simp_all
      have e: "enc_rune r = r" using False by (simp add: enc_rune_def 3)
      have hi: "128 \<le> (of_char c :: nat)" using assms rune_Cons_head by (simp add: 3)
      have tl: "list_all calm (d # t)"
        using rune_tail_cont [of c d t] assms by (auto simp: 3 list_all_iff intro!: calm_bytes)
      show ?thesis
      proof (cases "of_char c = (226::nat)")
        case True
        with rune_head_E2 [of c d t] assms obtain f where t: "t = [f]" by (auto simp: 3 length_Suc_conv)
        have n: "c \<noteq> CHR 0x5C" "c \<noteq> CHR 0x22" "\<not> html_special c" using hi by (auto simp: html_special_def)
        have tk: "take 3 (c # d # t @ s) = r" by (simp add: 3 t)
        have "squeeze True (c # d # t @ s) = c # squeeze True (d # t @ s)"
          using sep by (subst squeeze.simps(3)) (simp only: tk n if_False simp_thms)
        with squeeze_all_calm [OF tl, of s] show ?thesis unfolding e by (simp add: 3)
      next
        case False
        with hi have "calm c" by (rule calm_bytes)
        with tl squeeze_all_calm [of "c # d # t" s] show ?thesis unfolding e by (simp add: 3)
      qed
    qed
  qed
qed

lemma squeeze_runes:
  "list_all rune rs \<Longrightarrow> squeeze True (concat (map enc_rune rs) @ CHR 0x22 # t) = concat (map enc_rune rs) @ CHR 0x22 # squeeze False t"
  by (induction rs) (simp_all add: squeeze_enc_rune squeeze_close)

lemma squeeze_quote: "utf8 s \<Longrightarrow> squeeze False (quote s @ t) = quote s @ squeeze False t"
  using squeeze_runes [of "runes s" t] utf8_runes [of s] by (simp add: quote_def)

lemma squeeze_commas:
  "(\<And>x t. x \<in> set xs \<Longrightarrow> squeeze False (x @ t) = x @ squeeze False t) \<Longrightarrow>
     squeeze False (commas xs @ t) = commas xs @ squeeze False t"
proof (induction xs rule: commas.induct)
  case (3 x y xs)
  have "squeeze False (x @ (CHR '','' # commas (y # xs) @ t)) = x @ squeeze False (CHR '','' # commas (y # xs) @ t)"
    by (rule "3.prems") simp
  moreover have "squeeze False (commas (y # xs) @ t) = commas (y # xs) @ squeeze False t"
    by (rule "3.IH") (rule "3.prems", simp)
  ultimately show ?case by simp
qed simp_all

lemma squeeze_print: "printable v \<Longrightarrow> squeeze False (print v @ t) = print v @ squeeze False t"
proof (induction v arbitrary: t)
  case (JBool b)
  then show ?case by (simp add: is_ws_def)
next
  case (JNumber n)
  then have "list_all num_char n" using number_form_chars by simp
  then have "list_all (\<lambda>c. \<not> is_ws c \<and> c \<noteq> CHR 0x22) n" using num_char_opens by (auto simp: list_all_iff)
  then show ?case by (simp add: squeeze_plain)
next
  case (JString s)
  then show ?case by (simp add: squeeze_quote)
next
  case (JArray vs)
  have "squeeze False (commas (map print vs) @ CHR '']'' # t) = commas (map print vs) @ squeeze False (CHR '']'' # t)"
    by (rule squeeze_commas) (use JArray in \<open>auto simp: list_all_iff\<close>)
  then show ?case by simp
next
  case (JObject kvs)
  have "squeeze False (member_text kv @ t) = member_text kv @ squeeze False t" if kv: "kv \<in> set kvs" for kv t
  proof -
    have u: "utf8 (fst kv)" "printable (snd kv)" using JObject.prems kv by (auto simp: list_all_iff)
    have "squeeze False (print (snd kv) @ t) = print (snd kv) @ squeeze False t"
      by (rule JObject.IH [OF kv]) (use u in \<open>simp_all add: snds.simps prod_set_simps\<close>)
    with squeeze_quote [OF u(1), of "CHR '':'' # print (snd kv) @ t"] show ?thesis
      by (simp add: member_text_def member_def)
  qed
  then have "squeeze False (commas (map member_text kvs) @ CHR ''}'' # t) =
      commas (map member_text kvs) @ squeeze False (CHR ''}'' # t)"
    by (intro squeeze_commas) auto
  then show ?case unfolding print_JObject by simp
qed (simp_all add: is_ws_def)

lemma raw_text_print: "printable v \<Longrightarrow> nesting v \<le> max_nesting \<Longrightarrow> raw_text sy (print v) = Inr (print v)"
  using squeeze_print [of v "[]"] opens_print [of v] by (simp add: raw_text_def scan_print opens_def)

lemma number_form_show_int: "number_form (show_int n)"
proof -
  have z: "show_nat m = number_text (show_nat m) [] []" for m by (simp add: number_text_def)
  have "number_form (show_nat m) \<and> hd (show_nat m) \<noteq> CHR ''-''" for m
  proof -
    have ne: "show_nat m \<noteq> []" by (subst show_nat.simps) simp
    have "hd (show_nat m) = CHR ''0'' \<longrightarrow> length (show_nat m) = 1"
      using hd_show_nat_pos [of m] by (cases "m = 0") (simp_all add: show_nat.simps)
    with number_form_text [of "show_nat m" "[]" "[]"] ne show_nat_digits [of m] show ?thesis
      by (simp add: exponent_form_def flip: z)
  qed
  moreover have "number_form (CHR ''-'' # s)" if "number_form s" "hd s \<noteq> CHR ''-''" for s
    using that by (simp add: number_form_def Let_def)
  ultimately show ?thesis by (simp add: show_int_def)
qed

lemma parse_int64_show_int: "- (2 ^ 63) \<le> n \<Longrightarrow> n < 2 ^ 63 \<Longrightarrow> parse_int64 (show_int n) = Some n"
proof -
  assume n: "- (2 ^ 63) \<le> n" "n < 2 ^ 63"
  have "show_nat m \<noteq> [] \<and> hd (show_nat m) \<noteq> CHR ''-''" for m
  proof -
    have "list_all is_dig (show_nat m)" "show_nat m \<noteq> []"
      using show_nat_digits number_form_show_int [of "int m"] number_form_chars by (auto simp: show_int_def)
    then show ?thesis by (cases "show_nat m") (auto simp: is_dig_def)
  qed
  with n show ?thesis by (auto simp: parse_int64_def show_int_def digits_show_nat Let_def)
qed

definition lower_ascii :: "char \<Rightarrow> bool" where
  "lower_ascii c \<longleftrightarrow> of_char c < (128 :: nat) \<and> to_lower c = c"

lemma fold_runes_lower: "list_all lower_ascii s \<Longrightarrow> fold_runes s = s"
proof (induction s)
  case (Cons c s)
  have e: "encode_rune 0x17F = [CHR 0xC5, CHR 0xBF]" "encode_rune 0x212A = [CHR 0xE2, CHR 0x84, CHR 0xAA]"
    by (simp_all add: encode_rune_def char_of_def bit_0)
  have c: "of_char c < (128 :: nat)" "to_lower c = c" using Cons.prems by (simp_all add: lower_ascii_def)
  then have "c \<noteq> CHR 0xC5" "c \<noteq> CHR 0xE2" by auto
  with c Cons show ?case by (simp add: e)
qed simp

lemma fold_runes_fields [simp]:
  "fold_runes ''id'' = ''id''" "fold_runes ''tenant_id'' = ''tenant_id''" "fold_runes ''payload'' = ''payload''"
  "fold_runes ''timestamp'' = ''timestamp''"
  by (rule fold_runes_lower, code_simp)+

declare fold_runes.simps [simp del]

lemma utf8_fields [simp]: "utf8 ''id''" "utf8 ''tenant_id''" "utf8 ''payload''" "utf8 ''timestamp''"
  by (rule utf8_ascii, simp)+

lemma set_field_Message_simps [simp]:
  "set_field_Message ''id'' raw (JString s) m = (m\<lparr>msg_ID := s\<rparr>, None)"
  "set_field_Message ''tenant_id'' raw (JString s) m = (m\<lparr>msg_TenantID := s\<rparr>, None)"
  "set_field_Message ''payload'' raw v m = (m\<lparr>msg_Payload := raw\<rparr>, None)"
  "parse_int64 t = Some n \<Longrightarrow> set_field_Message ''timestamp'' raw (JNumber t) m = (m\<lparr>msg_Timestamp := n\<rparr>, None)"
  by (simp_all add: set_field_Message_def string_field_def Let_def)

definition message_object :: "string \<Rightarrow> string \<Rightarrow> json \<Rightarrow> int \<Rightarrow> json" where
  "message_object i t v ts =
     JObject [(''id'', JString i), (''tenant_id'', JString t), (''payload'', v), (''timestamp'', JNumber (show_int ts))]"

lemma printable_message:
  "utf8 i \<Longrightarrow> utf8 t \<Longrightarrow> printable v \<Longrightarrow> nesting v < max_nesting \<Longrightarrow>
     printable (message_object i t v ts) \<and> nesting (message_object i t v ts) \<le> max_nesting"
  by (simp add: message_object_def number_form_show_int Suc_le_eq max_nesting_def)

text \<open>
  The queue's message with a payload as it is written: the text that is put on the queue is that of the object
  with its four fields, and it is read back.
\<close>

lemma Message_text:
  assumes "printable v" "nesting v < max_nesting"
  shows "std_marshal_Message sy \<lparr>msg_ID = i, msg_TenantID = t, msg_Payload = print v, msg_Timestamp = ts\<rparr> =
    Inr (print (message_object i t v ts))"
  using raw_text_print [of v sy] assms unfolding message_object_def print_JObject
  by (simp add: std_marshal_Message_def member_text_def)

lemma Message_read:
  assumes "utf8 i" "utf8 t" "printable v" "nesting v < max_nesting" "- (2 ^ 63) \<le> ts" "ts < 2 ^ 63"
  shows "std_unmarshal_Message sy (print (message_object i t v ts)) =
    Inr \<lparr>msg_ID = i, msg_TenantID = t, msg_Payload = print v, msg_Timestamp = ts\<rparr>"
proof -
  note p = printable_message [OF assms(1-4), of ts]
  have "scan (print (message_object i t v ts)) = Some (message_object i t v ts)"
    by (rule scan_print) (use p in simp_all)
  moreover have "scan_members (print (message_object i t v ts)) =
      Some (map raw_member [(''id'', JString i), (''tenant_id'', JString t), (''payload'', v), (''timestamp'', JNumber (show_int ts))])"
    unfolding message_object_def by (rule scan_members_print) (use p in \<open>simp_all add: message_object_def\<close>)
  ultimately show ?thesis
    using parse_int64_show_int [OF assms(5,6)]
    by (simp add: std_unmarshal_Message_def message_object_def raw_member_def zero_Message_def Let_def del: print.simps)
qed

end
