(* ===== verification/Cursor.thy ===== *)
theory Cursor
  imports Base64 Go_Time Json_Codec
begin

text \<open>
  The cursor codec of \<^verbatim>\<open>internal/handler/message_handler.go\<close>: a creation time and a message
  identifier, as JSON in base64. The struct is encoded with \<^verbatim>\<open>encoding/json\<close>, the parameter \<open>js\<close>, and its
  time in the zone with an offset of \<open>z\<close> minutes. Neither function is called: the service's cursor is
  the creation time alone.
\<close>

record cursorData =
  cd_C :: time
  cd_I :: string

section \<open>Times in JSON\<close>

definition local_year :: "int \<Rightarrow> time \<Rightarrow> int" where
  "local_year z t = fst (year_day ((t div 10 ^ 9 + 60 * z) div 86400 + epoch_days))"

text \<open>\<^verbatim>\<open>Time.MarshalJSON\<close> refuses years of more than four digits; \<^verbatim>\<open>Time.UnmarshalJSON\<close> leaves null alone.\<close>

definition time_MarshalJSON :: "int \<Rightarrow> time \<Rightarrow> json res" where
  "time_MarshalJSON z t =
     (if local_year z t < 0 \<or> 9999 < local_year z t
      then Inl (ErrorNew ''Time.MarshalJSON: year outside of range [0,9999]'')
      else if \<not> zone_ok z then Inl (ErrorNew ''Time.MarshalJSON: timezone hour outside of range [0,23]'')
      else Inr (JString (format_rfc3339 True z t)))"

definition time_UnmarshalJSON :: "time \<Rightarrow> json \<Rightarrow> time res" where
  "time_UnmarshalJSON old v =
     (case v of
        JNull \<Rightarrow> Inr old
      | JString s \<Rightarrow> (case parse_rfc3339 s of None \<Rightarrow> Inl (ErrorNew ''parsing time'') | Some t \<Rightarrow> Inr t)
      | _ \<Rightarrow> Inl (ErrorNew ''Time.UnmarshalJSON: input is not a JSON string''))"

section \<open>The codec\<close>

definition marshal_cursorData :: "go_json \<Rightarrow> int \<Rightarrow> cursorData \<Rightarrow> string res" where
  "marshal_cursorData js z data =
     (case time_MarshalJSON z (cd_C data) of
        Inl e \<Rightarrow> Inl e
      | Inr c \<Rightarrow> marshal_value js (JObject [(''c'', c), (''i'', JString (cd_I data))]))"

definition encodeCursor :: "go_json \<Rightarrow> int \<Rightarrow> time \<Rightarrow> string \<Rightarrow> string" where
  "encodeCursor js z createdAt cid =
     EncodeToString (case marshal_cursorData js z \<lparr>cd_C = createdAt, cd_I = cid\<rparr> of Inl _ \<Rightarrow> [] | Inr jsonBytes \<Rightarrow> jsonBytes)"

text \<open>
  Decoding into the struct: the members in their order, a key matches in any case, unknown keys are
  skipped, and a value of the wrong type is an error.
\<close>

definition set_field :: "string \<times> json \<Rightarrow> cursorData res \<Rightarrow> cursorData res" where
  "set_field kv acc =
     (case acc of
        Inl e \<Rightarrow> Inl e
      | Inr data \<Rightarrow>
          if ToLower (fst kv) = ''c''
          then (case time_UnmarshalJSON (cd_C data) (snd kv) of Inl e \<Rightarrow> Inl e | Inr t \<Rightarrow> Inr (data\<lparr>cd_C := t\<rparr>))
          else if ToLower (fst kv) = ''i''
          then (case snd kv of
                  JNull \<Rightarrow> Inr data
                | JString s \<Rightarrow> Inr (data\<lparr>cd_I := s\<rparr>)
                | _ \<Rightarrow> Inl (ErrorNew ''json: cannot unmarshal into Go struct field cursorData.i of type string''))
          else Inr data)"

definition unmarshal_cursorData :: "go_json \<Rightarrow> string \<Rightarrow> cursorData res" where
  "unmarshal_cursorData js b =
     (case unmarshal_value js b of
        Inl e \<Rightarrow> Inl e
      | Inr JNull \<Rightarrow> Inr \<lparr>cd_C = zero_time, cd_I = []\<rparr>
      | Inr (JObject kvs) \<Rightarrow> fold set_field kvs (Inr \<lparr>cd_C = zero_time, cd_I = []\<rparr>)
      | Inr _ \<Rightarrow> Inl (ErrorNew ''json: cannot unmarshal into Go value of type handler.cursorData''))"

definition decodeCursor :: "go_json \<Rightarrow> string \<Rightarrow> cursorData option res" where
  "decodeCursor js cursor =
     (if cursor = [] then Inr None
      else
        (case DecodeString cursor of
           Inl e \<Rightarrow> Inl e
         | Inr jsonBytes \<Rightarrow>
             (case unmarshal_cursorData js jsonBytes of Inl e \<Rightarrow> Inl e | Inr data \<Rightarrow> Inr (Some data))))"

section \<open>Property\<close>

text \<open>Bytes that JSON writes as they are.\<close>

definition plain_char :: "char \<Rightarrow> bool" where
  "plain_char c \<longleftrightarrow> (let n = of_char c :: nat in 32 \<le> n \<and> n < 127 \<and> n \<notin> {34, 38, 60, 62, 92})"

definition plain :: "string \<Rightarrow> bool" where
  "plain s \<longleftrightarrow> list_all plain_char s"

definition string_members :: "(string \<times> string) list \<Rightarrow> (string \<times> json) list" where
  "string_members kvs = map (\<lambda>(k, v). (k, JString v)) kvs"

text \<open>
  What is used of \<^verbatim>\<open>encoding/json\<close>: an object with plain strings, whose keys are in their order, is
  encoded, and decodes to itself.
\<close>

definition object_codec :: "go_json \<Rightarrow> bool" where
  "object_codec js \<longleftrightarrow> (\<forall>kvs. kvs \<noteq> [] \<and> ordered kvs \<and> list_all (\<lambda>(k, v). plain k \<and> plain v) kvs \<longrightarrow>
     (\<exists>b. b \<noteq> [] \<and> marshal_value js (JObject (string_members kvs)) = Inr b \<and>
        unmarshal_value js b = Inr (JObject (string_members kvs))))"

lemma EncodeToString_Nil [simp]: "EncodeToString s = [] \<longleftrightarrow> s = []"
  by (cases s rule: EncodeToString.cases) (simp_all add: sextets_def)

lemma plain_simps [simp]: "plain []" "plain (c # s) \<longleftrightarrow> plain_char c \<and> plain s" "plain (s @ s') \<longleftrightarrow> plain s \<and> plain s'"
  by (simp_all add: plain_def)

lemma plain_digit: "k < 10 \<Longrightarrow> plain_char (char_of (48 + k :: nat))"
  by (auto simp: plain_char_def Let_def)

lemma plain_show_nat: "plain (show_nat n)"
proof (induction n rule: less_induct)
  case (less n)
  then show ?case by (cases "n < 10") (simp_all add: show_nat.simps [of n] plain_digit)
qed

lemma plain_pad: "plain (pad k n)"
  by (induction k n rule: pad.induct) (simp_all add: plain_show_nat plain_digit)

lemma plain_marks:
  "plain_char (CHR ''-'')" "plain_char (CHR ''T'')" "plain_char (CHR '':'')" "plain_char (CHR ''.'')"
  "plain_char (CHR ''Z'')" "plain_char (CHR ''+'')" "plain_char (CHR ''c'')" "plain_char (CHR ''i'')"
  by code_simp+

lemma plain_frac: "plain (frac_text n)"
proof -
  have "plain (rev (dropWhile p (rev (pad 9 n))))" for p
    using plain_pad [of 9 n] by (auto simp: plain_def list_all_iff dest: set_dropWhileD)
  then show ?thesis by (simp add: frac_text_def plain_marks)
qed

lemma plain_texts: "plain (year_text y)" "plain (clock_text k)" "plain (zone_text z)"
  by (simp_all add: year_text_def clock_text_def zone_text_def plain_pad plain_marks)

lemma plain_format: "plain (format_rfc3339 nano z t)"
  unfolding format_rfc3339_def Let_def split_beta
  by (simp add: plain_texts plain_pad plain_marks plain_frac del: power_numeral)

text \<open>
  C29: a cursor made of a creation time and an identifier that needs no escape in JSON is not empty
  and decodes to exactly that time, to the nanosecond, and that identifier, in every time zone; so
  cursors of different messages are different. The empty cursor decodes to none.
\<close>

theorem cursor_roundtrip:
  assumes "object_codec js" "zone_ok z" "0 \<le> t" "t < time_limit" "plain cid"
  shows "encodeCursor js z t cid \<noteq> [] \<and>
    decodeCursor js (encodeCursor js z t cid) = Inr (Some \<lparr>cd_C = t, cd_I = cid\<rparr>) \<and> decodeCursor js [] = Inr None"
proof -
  let ?txt = "format_rfc3339 True z t"
  obtain y k where y: "year_day ((t div 10 ^ 9 + 60 * z) div 86400 + epoch_days) = (y, k)" by force
  have "1 \<le> y \<and> y \<le> 9999" using year_day_year [OF y] day_number_range [OF assms(2-4)] by simp
  then have m: "time_MarshalJSON z t = Inr (JString ?txt)"
    using assms(2) unfolding time_MarshalJSON_def local_year_def y by simp
  let ?kvs = "[(''c'', ?txt), (''i'', cid)]"
  have "''c'' < ''i''" by code_simp
  then have kvs: "?kvs \<noteq> [] \<and> ordered ?kvs \<and> list_all (\<lambda>(k, v). plain k \<and> plain v) ?kvs"
    using assms(5) plain_format by (simp add: plain_marks)
  from assms(1) [unfolded object_codec_def, rule_format, OF kvs] obtain b where
    b: "b \<noteq> []" "marshal_value js (JObject (string_members [(''c'', ?txt), (''i'', cid)])) = Inr b"
    "unmarshal_value js b = Inr (JObject (string_members [(''c'', ?txt), (''i'', cid)]))"
    by (elim exE conjE)
  have e: "encodeCursor js z t cid = EncodeToString b"
    using b(2) by (simp add: encodeCursor_def marshal_cursorData_def m string_members_def)
  have p: "parse_rfc3339 ?txt = Some t" using parse_format [OF assms(2-4), of True] by simp
  have "ToLower ''c'' = ''c''" "ToLower ''i'' = ''i''" by code_simp+
  then have "unmarshal_cursorData js b = Inr \<lparr>cd_C = t, cd_I = cid\<rparr>"
    by (simp add: unmarshal_cursorData_def b(3) string_members_def set_field_def time_UnmarshalJSON_def p)
  with b(1) show ?thesis by (simp add: e decodeCursor_def DecodeString_EncodeToString)
qed

section \<open>The standard library's codec\<close>

lemma plain_utf8: "plain s \<Longrightarrow> utf8 s"
  by (rule utf8_ascii) (auto simp: plain_def plain_char_def Let_def list_all_iff)

lemma encoding_json_objects: "object_codec (encoding_json sy)"
  unfolding object_codec_def
proof (intro allI impI)
  fix kvs :: "(string \<times> string) list"
  assume kvs: "kvs \<noteq> [] \<and> ordered kvs \<and> list_all (\<lambda>(k, v). plain k \<and> plain v) kvs"
  have "map fst (string_members kvs) = map fst kvs" by (simp add: string_members_def split_beta)
  with kvs have "canonical (JObject (string_members kvs))"
    by (auto simp: list_all_iff plain_utf8 o_def string_members_def split_beta)
  moreover have "nesting (JObject (string_members kvs)) \<le> max_nesting"
    by (auto simp: string_members_def max_nesting_def)
  ultimately show "\<exists>b. b \<noteq> [] \<and> marshal_value (encoding_json sy) (JObject (string_members kvs)) = Inr b \<and>
      unmarshal_value (encoding_json sy) b = Inr (JObject (string_members kvs))"
    using canonical_roundtrip [of "JObject (string_members kvs)" sy] unfolding print_JObject by blast
qed

theorem cursor_roundtrip_witness:
  "decodeCursor (encoding_json (\<lambda>s. s)) (encodeCursor (encoding_json (\<lambda>s. s)) 420 1700000000123456789 ''11111111-1111-4111-8111-11111111111a'') =
     Inr (Some \<lparr>cd_C = 1700000000123456789, cd_I = ''11111111-1111-4111-8111-11111111111a''\<rparr>)"
proof -
  have "plain ''11111111-1111-4111-8111-11111111111a''" by code_simp
  with cursor_roundtrip [OF encoding_json_objects, of 420 1700000000123456789] show ?thesis
    by (simp add: zone_ok_def time_limit_def)
qed

end
