(* ===== verification/Metrics.thy ===== *)
theory Metrics
  imports Prelude
begin

text \<open>
  \<^verbatim>\<open>internal/metrics/prometheus.go\<close>: the collector, its registration and the operations on it. The
  Prometheus client is a parameter, the record \<open>prom\<close>; \<open>prom_lawful\<close> is what it documents: a name is
  registered once, \<^verbatim>\<open>WithLabelValues\<close> panics unless it gets a value for each label, and setting or
  incrementing changes one series. Nothing in the program creates a collector.
\<close>

datatype metric_kind = GaugeVec | Counter | CounterVec | Histogram

record metric =
  mt_kind :: metric_kind
  mt_Name :: string
  mt_Help :: string
  mt_labels :: "string list"

record Collector =
  co_TenantConsumers :: metric
  co_TenantWorkers :: metric
  co_MessagesPublished :: metric
  co_MessagesProcessed :: metric
  co_MessagesDuration :: metric
  co_QueueDepth :: metric
  co_DeadLetterMessages :: metric

text \<open>The client, on a default registry of type \<open>'p\<close> with samples of type \<open>'f\<close>.\<close>

record ('p, 'f) prom =
  pm_Register :: "metric \<Rightarrow> 'p \<Rightarrow> 'p res"
  pm_Set :: "metric \<Rightarrow> string list \<Rightarrow> 'f \<Rightarrow> 'p \<Rightarrow> 'p outcome"
  pm_Inc :: "metric \<Rightarrow> string list \<Rightarrow> 'p \<Rightarrow> 'p outcome"
  pm_Observe :: "metric \<Rightarrow> 'f \<Rightarrow> 'p \<Rightarrow> 'p"
  pm_float64 :: "int \<Rightarrow> 'f"

section \<open>The collector\<close>

definition collector :: Collector where
  "collector =
     \<lparr>co_TenantConsumers = \<lparr>mt_kind = GaugeVec, mt_Name = ''tenant_consumer_total'',
        mt_Help = ''Total active consumers per tenant'', mt_labels = [''tenant_id'']\<rparr>,
      co_TenantWorkers = \<lparr>mt_kind = GaugeVec, mt_Name = ''tenant_workers_total'',
        mt_Help = ''Total workers per tenant'', mt_labels = [''tenant_id'']\<rparr>,
      co_MessagesPublished = \<lparr>mt_kind = Counter, mt_Name = ''messages_published_total'',
        mt_Help = ''Total messages published'', mt_labels = []\<rparr>,
      co_MessagesProcessed = \<lparr>mt_kind = CounterVec, mt_Name = ''messages_processed_total'',
        mt_Help = ''Total messages processed'', mt_labels = [''status'', ''tenant_id'']\<rparr>,
      co_MessagesDuration = \<lparr>mt_kind = Histogram, mt_Name = ''messages_processing_duration_seconds'',
        mt_Help = ''Message processing duration'', mt_labels = []\<rparr>,
      co_QueueDepth = \<lparr>mt_kind = GaugeVec, mt_Name = ''queue_depth'',
        mt_Help = ''Current queue depth per tenant'', mt_labels = [''tenant_id'']\<rparr>,
      co_DeadLetterMessages = \<lparr>mt_kind = Counter, mt_Name = ''dead_letter_messages_total'',
        mt_Help = ''Total messages moved to dead letter queue'', mt_labels = []\<rparr>\<rparr>"

fun MustRegister :: "('p, 'f) prom \<Rightarrow> metric list \<Rightarrow> 'p \<Rightarrow> 'p outcome" where
  "MustRegister pm [] p = Returns p"
| "MustRegister pm (m # ms) p =
     (case pm_Register pm m p of Inl e \<Rightarrow> Panics (Error e) | Inr p' \<Rightarrow> MustRegister pm ms p')"

definition NewCollector :: "('p, 'f) prom \<Rightarrow> 'p \<Rightarrow> ('p \<times> Collector) outcome" where
  "NewCollector pm p =
     (let c = collector in
      bind_outcome
        (MustRegister pm [co_TenantConsumers c, co_TenantWorkers c, co_MessagesPublished c, co_MessagesProcessed c,
           co_MessagesDuration c, co_QueueDepth c, co_DeadLetterMessages c] p)
        (\<lambda>p'. Returns (p', c)))"

definition SetTenantConsumers :: "('p, 'f) prom \<Rightarrow> Collector \<Rightarrow> string \<Rightarrow> int \<Rightarrow> 'p \<Rightarrow> 'p outcome" where
  "SetTenantConsumers pm c tenantID count = pm_Set pm (co_TenantConsumers c) [tenantID] (pm_float64 pm count)"

definition SetTenantWorkers :: "('p, 'f) prom \<Rightarrow> Collector \<Rightarrow> string \<Rightarrow> int \<Rightarrow> 'p \<Rightarrow> 'p outcome" where
  "SetTenantWorkers pm c tenantID count = pm_Set pm (co_TenantWorkers c) [tenantID] (pm_float64 pm count)"

definition IncMessagesPublished :: "('p, 'f) prom \<Rightarrow> Collector \<Rightarrow> 'p \<Rightarrow> 'p outcome" where
  "IncMessagesPublished pm c = pm_Inc pm (co_MessagesPublished c) []"

definition IncMessagesProcessed :: "('p, 'f) prom \<Rightarrow> Collector \<Rightarrow> string \<Rightarrow> string \<Rightarrow> 'p \<Rightarrow> 'p outcome" where
  "IncMessagesProcessed pm c st tenantID = pm_Inc pm (co_MessagesProcessed c) [st, tenantID]"

definition ObserveMessageDuration :: "('p, 'f) prom \<Rightarrow> Collector \<Rightarrow> 'f \<Rightarrow> 'p \<Rightarrow> 'p" where
  "ObserveMessageDuration pm c seconds = pm_Observe pm (co_MessagesDuration c) seconds"

definition SetQueueDepth :: "('p, 'f) prom \<Rightarrow> Collector \<Rightarrow> string \<Rightarrow> int \<Rightarrow> 'p \<Rightarrow> 'p outcome" where
  "SetQueueDepth pm c tenantID depth = pm_Set pm (co_QueueDepth c) [tenantID] (pm_float64 pm depth)"

definition IncDeadLetterMessages :: "('p, 'f) prom \<Rightarrow> Collector \<Rightarrow> 'p \<Rightarrow> 'p outcome" where
  "IncDeadLetterMessages pm c = pm_Inc pm (co_DeadLetterMessages c) []"

section \<open>What the client documents\<close>

text \<open>\<open>names\<close> are the registered names, \<open>val\<close> the samples by name and label values; \<open>incr\<close> adds one to a sample.\<close>

definition prom_lawful ::
  "('p, 'f) prom \<Rightarrow> ('p \<Rightarrow> string set) \<Rightarrow> ('p \<Rightarrow> string \<times> string list \<rightharpoonup> 'f) \<Rightarrow> ('f option \<Rightarrow> 'f) \<Rightarrow> bool" where
  "prom_lawful pm names val incr \<longleftrightarrow>
     (\<forall>m p. if mt_Name m \<in> names p then isl (pm_Register pm m p)
            else (\<exists>p'. pm_Register pm m p = Inr p' \<and> names p' = insert (mt_Name m) (names p) \<and> val p' = val p)) \<and>
     (\<forall>m ls v p. if length ls = length (mt_labels m)
            then (\<exists>p'. pm_Set pm m ls v p = Returns p' \<and> names p' = names p \<and> val p' = (val p)((mt_Name m, ls) \<mapsto> v))
            else (\<exists>e. pm_Set pm m ls v p = Panics e)) \<and>
     (\<forall>m ls p. if length ls = length (mt_labels m)
            then (\<exists>p'. pm_Inc pm m ls p = Returns p' \<and> names p' = names p \<and>
                   val p' = (val p)((mt_Name m, ls) \<mapsto> incr (val p (mt_Name m, ls))))
            else (\<exists>e. pm_Inc pm m ls p = Panics e))"

definition collector_names :: "string list" where
  "collector_names = [''tenant_consumer_total'', ''tenant_workers_total'', ''messages_published_total'',
     ''messages_processed_total'', ''messages_processing_duration_seconds'', ''queue_depth'', ''dead_letter_messages_total'']"

lemma MustRegister_fresh:
  assumes "prom_lawful pm names val incr"
  shows "distinct (map mt_Name ms) \<Longrightarrow> set (map mt_Name ms) \<inter> names p = {} \<Longrightarrow>
    \<exists>p'. MustRegister pm ms p = Returns p' \<and> names p' = names p \<union> set (map mt_Name ms) \<and> val p' = val p"
proof (induction ms arbitrary: p)
  case (Cons m ms)
  have "mt_Name m \<notin> names p" using Cons.prems(2) by simp
  then obtain p1 where p1: "pm_Register pm m p = Inr p1" "names p1 = insert (mt_Name m) (names p)" "val p1 = val p"
    using assms unfolding prom_lawful_def by meson
  have "set (map mt_Name ms) \<inter> names p1 = {}" using Cons.prems by (auto simp: p1(2))
  from Cons.IH [OF _ this] Cons.prems(1) p1 show ?case by auto
qed simp

lemma MustRegister_dup:
  assumes "prom_lawful pm names val incr" "mt_Name m \<in> names p"
  shows "\<exists>e. MustRegister pm (m # ms) p = Panics e"
proof -
  have "isl (pm_Register pm m p)" using assms unfolding prom_lawful_def by meson
  then show ?thesis by (cases "pm_Register pm m p") simp_all
qed

lemma prom_SetD:
  "prom_lawful pm names val incr \<Longrightarrow> length ls = length (mt_labels m) \<Longrightarrow>
     \<exists>p'. pm_Set pm m ls v p = Returns p' \<and> names p' = names p \<and> val p' = (val p)((mt_Name m, ls) \<mapsto> v)"
  unfolding prom_lawful_def by meson

lemma prom_IncD:
  "prom_lawful pm names val incr \<Longrightarrow> length ls = length (mt_labels m) \<Longrightarrow>
     \<exists>p'. pm_Inc pm m ls p = Returns p' \<and> names p' = names p \<and>
       val p' = (val p)((mt_Name m, ls) \<mapsto> incr (val p (mt_Name m, ls)))"
  unfolding prom_lawful_def by meson

section \<open>Property\<close>

text \<open>
  The collector. On a registry without its names it is created, and creating it again panics, since the
  names are then taken. None of its operations panics, since each passes a value for every label;
  and each changes one series, the one of its own name and of the tenant it is told.
\<close>

lemma collector_operations:
  assumes "prom_lawful pm names val incr" "set collector_names \<inter> names p = {}"
  shows "\<exists>p' c. NewCollector pm p = Returns (p', c) \<and> (\<exists>e. NewCollector pm p' = Panics e) \<and>
    (\<exists>q. SetTenantConsumers pm c t n p' = Returns q \<and> val q = (val p')((''tenant_consumer_total'', [t]) \<mapsto> pm_float64 pm n)) \<and>
    (\<exists>q. SetTenantWorkers pm c t n p' = Returns q \<and> val q = (val p')((''tenant_workers_total'', [t]) \<mapsto> pm_float64 pm n)) \<and>
    (\<exists>q. SetQueueDepth pm c t n p' = Returns q \<and> val q = (val p')((''queue_depth'', [t]) \<mapsto> pm_float64 pm n)) \<and>
    (\<exists>q. IncMessagesPublished pm c p' = Returns q \<and>
       val q = (val p')((''messages_published_total'', []) \<mapsto> incr (val p' (''messages_published_total'', [])))) \<and>
    (\<exists>q. IncMessagesProcessed pm c st t p' = Returns q \<and>
       val q = (val p')((''messages_processed_total'', [st, t]) \<mapsto> incr (val p' (''messages_processed_total'', [st, t])))) \<and>
    (\<exists>q. IncDeadLetterMessages pm c p' = Returns q \<and>
       val q = (val p')((''dead_letter_messages_total'', []) \<mapsto> incr (val p' (''dead_letter_messages_total'', []))))"
proof -
  let ?ms = "[co_TenantConsumers collector, co_TenantWorkers collector, co_MessagesPublished collector,
    co_MessagesProcessed collector, co_MessagesDuration collector, co_QueueDepth collector, co_DeadLetterMessages collector]"
  have n: "map mt_Name ?ms = collector_names" by (simp add: collector_def collector_names_def)
  have "distinct collector_names" by (simp add: collector_names_def)
  from MustRegister_fresh [OF assms(1), of ?ms p, unfolded n, OF this assms(2)] obtain p' where
    p': "MustRegister pm ?ms p = Returns p'" "names p' = names p \<union> set collector_names" by auto
  have "mt_Name (co_TenantConsumers collector) \<in> names p'" by (simp add: p'(2) collector_def collector_names_def)
  from MustRegister_dup [OF assms(1) this, of "tl ?ms"] obtain e where "MustRegister pm ?ms p' = Panics e"
    unfolding list.sel ..
  then have dup: "\<exists>e. NewCollector pm p' = Panics e" by (simp only: NewCollector_def Let_def bind_outcome.simps) simp
  have set: "\<exists>q. pm_Set pm m [t] (pm_float64 pm n) p' = Returns q \<and> val q = (val p')((mt_Name m, [t]) \<mapsto> pm_float64 pm n)"
    if "length (mt_labels m) = 1" for m
    using prom_SetD [OF assms(1), of "[t]" m "pm_float64 pm n" p'] that by auto
  have inc: "\<exists>q. pm_Inc pm m ls p' = Returns q \<and> val q = (val p')((mt_Name m, ls) \<mapsto> incr (val p' (mt_Name m, ls)))"
    if "length ls = length (mt_labels m)" for m ls
    using prom_IncD [OF assms(1) that, of p'] by auto
  have new: "NewCollector pm p = Returns (p', collector)" using p'(1) by (simp only: NewCollector_def Let_def bind_outcome.simps)
  show ?thesis
    unfolding SetTenantConsumers_def SetTenantWorkers_def SetQueueDepth_def IncMessagesPublished_def IncMessagesProcessed_def
      IncDeadLetterMessages_def
    by (rule exI [of _ p'], rule exI [of _ collector], intro conjI new dup)
      (use set [of "co_TenantConsumers collector"] set [of "co_TenantWorkers collector"] set [of "co_QueueDepth collector"]
        inc [of "[]" "co_MessagesPublished collector"] inc [of "[st, t]" "co_MessagesProcessed collector"]
        inc [of "[]" "co_DeadLetterMessages collector"] in \<open>simp_all add: collector_def\<close>)
qed

section \<open>A client for the witness\<close>

type_synonym mem_prom = "string set \<times> (string \<times> string list \<rightharpoonup> int)"

definition mem_prom :: "(mem_prom, int) prom" where
  "mem_prom =
     \<lparr>pm_Register = (\<lambda>m (ns, v). if mt_Name m \<in> ns then Inl (ErrorNew ''duplicate metrics collector registration attempted'')
        else Inr (insert (mt_Name m) ns, v)),
      pm_Set = (\<lambda>m ls x (ns, v). if length ls = length (mt_labels m) then Returns (ns, v((mt_Name m, ls) \<mapsto> x))
        else Panics ''inconsistent label cardinality''),
      pm_Inc = (\<lambda>m ls (ns, v). if length ls = length (mt_labels m)
        then Returns (ns, v((mt_Name m, ls) \<mapsto> (case v (mt_Name m, ls) of None \<Rightarrow> 1 | Some x \<Rightarrow> x + 1)))
        else Panics ''inconsistent label cardinality''),
      pm_Observe = (\<lambda>m x p. p), pm_float64 = (\<lambda>n. n)\<rparr>"

lemma mem_prom_lawful: "prom_lawful mem_prom fst snd (\<lambda>x. case x of None \<Rightarrow> 1 | Some y \<Rightarrow> y + 1)"
  by (auto simp: prom_lawful_def mem_prom_def)

end
