(* ===== verification/Delivery.thy ===== *)
theory Delivery
  imports Tenant_Manager Rmq Message_Service Json_Codec
begin

text \<open>
  A message from its publisher to its row, with the codec of the standard library: what
  \<^verbatim>\<open>internal/rabbitmq\<close> puts on a tenant's queue is what \<^verbatim>\<open>processMessage\<close> of
  \<^verbatim>\<open>internal/tenant/manager.go\<close> reads, and what a worker does with it; and a payload from the API
  through the database and back.
\<close>

section \<open>From the publisher to the consumer\<close>

text \<open>
  \<^verbatim>\<open>json.Marshal\<close> of the publisher's \<^verbatim>\<open>Message\<close>: its four fields in their order, the payload being any
  value.
\<close>

definition marshal_PubMessage :: "PubMessage \<Rightarrow> string res" where
  "marshal_PubMessage m =
     Inr (print (message_object (pm_ID m) (pm_TenantID m) (in_order (pm_Payload m)) (pm_Timestamp m)))"

definition sendable :: "PubMessage \<Rightarrow> bool" where
  "sendable m \<longleftrightarrow> utf8 (pm_ID m) \<and> utf8 (pm_TenantID m) \<and> canonical (pm_Payload m) \<and> nesting (pm_Payload m) < max_nesting \<and>
     - (2 ^ 63) \<le> pm_Timestamp m \<and> pm_Timestamp m < 2 ^ 63"

text \<open>The delivery of a publishing, and the item that a message is to become at its tenant's consumer.\<close>

definition delivery_of :: "Publishing \<Rightarrow> Delivery" where
  "delivery_of p = \<lparr>dv_Body = pb_Body p, dv_MessageId = pb_MessageId p, dv_Headers = pb_Headers p\<rparr>"

definition item_for :: "string \<Rightarrow> PubMessage \<Rightarrow> WorkItem" where
  "item_for tid m = \<lparr>wi_MessageID = pm_ID m, wi_TenantID = tid, wi_Payload = print (pm_Payload m), wi_RetryCount = 0\<rparr>"

lemma sendable_body:
  assumes "sendable m" "marshal_PubMessage m = Inr b"
  shows "unmarshal_Message (encoding_json sy) b =
    Inr \<lparr>msg_ID = pm_ID m, msg_TenantID = pm_TenantID m, msg_Payload = print (pm_Payload m), msg_Timestamp = pm_Timestamp m\<rparr>"
proof -
  have "in_order (pm_Payload m) = pm_Payload m" "printable (pm_Payload m)"
    using assms(1) canonical_fixed canonical_printable by (simp_all add: sendable_def)
  with assms Message_read [of "pm_ID m" "pm_TenantID m" "pm_Payload m" "pm_Timestamp m" sy] show ?thesis
    by (simp add: sendable_def marshal_PubMessage_def)
qed

lemma processMessage_published:
  assumes "sendable m" "marshal_PubMessage m = Inr b" "dv_Body dv = b"
    "Submit pick (item_for (tc_TenantID cons) m) (tc_WorkerPool cons) = (wp, None)"
  shows "processMessage (encoding_json sy) pick (Inr ()) cons dv = (cons\<lparr>tc_WorkerPool := wp\<rparr>, [Ack], Inr ())"
  using assms(3,4) sendable_body [OF assms(1,2), of sy]
  by (simp add: processMessage_def item_for_def Let_def)

text \<open>
  Both publishers write the same text for the same message: the manager's, whose payload is raw, and the one
  of \<^verbatim>\<open>internal/rabbitmq\<close>.
\<close>

lemma publishers_agree:
  assumes "sendable m"
  shows "marshal_Message (encoding_json sy)
      \<lparr>msg_ID = pm_ID m, msg_TenantID = pm_TenantID m, msg_Payload = print (pm_Payload m), msg_Timestamp = pm_Timestamp m\<rparr> =
    marshal_PubMessage m"
  using assms canonical_fixed [of "pm_Payload m"] canonical_printable [of "pm_Payload m"]
    Message_text [of "pm_Payload m" sy "pm_ID m" "pm_TenantID m" "pm_Timestamp m"]
  by (simp add: sendable_def marshal_PubMessage_def)

section \<open>From the consumer to the row\<close>

lemma unmarshal_object_print:
  assumes "canonical v" "nesting v \<le> max_nesting"
  shows "unmarshal_object (encoding_json sy) (print v) =
    (case v of JNull \<Rightarrow> Inr [] | JObject kvs \<Rightarrow> Inr kvs
     | _ \<Rightarrow> Inl (ErrorNew ''json: cannot unmarshal into Go value of type map[string]interface {}''))"
  using canonical_roundtrip [OF assms, of sy] unfolding unmarshal_object_def by (simp split: json.split)

lemma handleMessage_undecodable:
  "unmarshal_object js (wi_Payload item) = Inl e \<Longrightarrow>
     handleMessage js pg ae item d = (d, Some (Wrapf ''failed to unmarshal payload: '' e))"
  by (simp add: handleMessage_def)

lemma retry_loop_undecodable:
  assumes "unmarshal_object js (wi_Payload item) = Inl e" "int attempt \<le> maxRetry"
  shows "\<exists>ps. retry_loop js pg ovf env maxRetry attempt item d =
      (d, Some (Wrapf ''failed to unmarshal payload: '' e), ps) \<and> int attempt + int (length ps) = maxRetry"
  using assms
proof (induction "nat (maxRetry - int attempt)" arbitrary: attempt item)
  case 0
  then have "int attempt = maxRetry" by simp
  from retry_loop_unfold(3) [OF this handleMessage_undecodable [OF 0(2)]] this show ?case by simp
next
  case (Suc k)
  then have lt: "int attempt < maxRetry" by simp
  let ?item = "item\<lparr>wi_RetryCount := int attempt + 1\<rparr>"
  have "k = nat (maxRetry - int (Suc attempt))" using Suc.hyps(2) by simp
  from Suc.hyps(1) [OF this, of ?item] Suc.prems lt obtain ps where
    "retry_loop js pg ovf env maxRetry (Suc attempt) ?item d = (d, Some (Wrapf ''failed to unmarshal payload: '' e), ps)"
    "int (Suc attempt) + int (length ps) = maxRetry" by auto
  with retry_loop_unfold(2) [OF lt handleMessage_undecodable [OF Suc.prems(1)]] show ?case by simp
qed

text \<open>
  The payload of a row is the one it was stored with: processing another item of the same identifiers, a
  redelivery or a second message with the same ones, leaves it.
\<close>

definition payload_at :: "string \<times> string \<Rightarrow> db \<Rightarrow> string option" where
  "payload_at k d = map_option m_payload (find_by m_key k (messages d))"

definition payload_from :: "string \<times> string \<Rightarrow> string \<Rightarrow> string option \<Rightarrow> db \<Rightarrow> bool" where
  "payload_from k p x d \<longleftrightarrow> payload_at k d = x \<or> x = None \<and> payload_at k d = Some p"

lemma payload_at_update:
  "(\<And>r. m_key (f r) = m_key r) \<Longrightarrow> (\<And>r. m_payload (f r) = m_payload r) \<Longrightarrow>
     payload_at k (d\<lparr>messages := update_by m_key j f (messages d)\<rparr>) = payload_at k d"
  by (simp add: payload_at_def find_by_update_by option.map_comp o_def)

lemma set_status_payload: "payload_at k (fst (sql_set_status pg now st mid tid d)) = payload_at k d"
  by (auto simp: sql_set_status_def payload_at_update split: option.splits)

lemma upsert_payload:
  assumes "uuid_in pg mid = Some u" "uuid_in pg tid = Some t" "jsonb_in pg txt = Some p" "payload_from (u, t) p x d"
  shows "payload_from (u, t) p x (fst (sql_upsert_processing pg now mid tid txt n d))"
proof (cases "int4_ok n \<and> (u, t) \<notin> m_key ` set (messages d)")
  case True
  then have "payload_at (u, t) d = None" by (simp add: payload_at_def)
  with assms(4) have "x = None" by (auto simp: payload_from_def)
  moreover have "payload_at (u, t) (fst (sql_upsert_processing pg now mid tid txt n d)) = Some p"
    using True assms(1-3) by (simp add: sql_upsert_processing_def payload_at_def)
  ultimately show ?thesis by (simp add: payload_from_def)
next
  case False
  then have "payload_at (u, t) (fst (sql_upsert_processing pg now mid tid txt n d)) = payload_at (u, t) d"
    using assms(1-3) by (auto simp: sql_upsert_processing_def payload_at_update)
  with assms(4) show ?thesis by (simp add: payload_from_def)
qed

lemma attempt_keeps_payload:
  assumes "uuid_in pg (wi_MessageID item) = Some u" "uuid_in pg (wi_TenantID item) = Some t"
    "jsonb_in pg (wi_Payload item) = Some p"
  shows "attempt_keeps pg item (payload_from (u, t) p x)"
  unfolding attempt_keeps_def
proof (intro conjI allI impI)
  fix flt now n d
  assume "payload_from (u, t) p x d"
  then show "payload_from (u, t) p x (fst (with_fault flt (sql_upsert_processing pg now (wi_MessageID item)
      (wi_TenantID item) (wi_Payload item) n) d))"
    by (rule with_fault_keeps [rotated]) (rule upsert_payload [OF assms])
next
  fix flt now d
  assume "payload_from (u, t) p x d"
  then show "payload_from (u, t) p x (fst (with_fault flt (sql_set_status pg now ''completed''
      (wi_MessageID item) (wi_TenantID item)) d))"
    by (rule with_fault_keeps [rotated]) (simp add: payload_from_def set_status_payload)
qed

section \<open>Properties\<close>

text \<open>
  C13: a batch on its way. When \<^verbatim>\<open>PublishBatch\<close> succeeds, the tenant's queue received one publishing per
  message, in order, and a consumer of the tenant that is given any of them, while its pool accepts the
  item, acknowledges it and hands to its workers exactly the message's identifier and payload.
\<close>

theorem published_batch_delivered:
  assumes "tx_lawful am recv held" "\<not> cn_mu c" "list_all sendable msgs"
    "PublishBatch marshal_PubMessage am tid msgs (w, c) = Some ((w', c'), Inr ())"
    "recv w (main_queue_name tid) = Some old"
  shows "\<exists>new. recv w' (main_queue_name tid) = Some (old @ new) \<and> length new = length msgs \<and>
    (\<forall>i < length msgs. \<forall>sy pick cons wp. tc_TenantID cons = tid \<longrightarrow>
       Submit pick (item_for tid (msgs ! i)) (tc_WorkerPool cons) = (wp, None) \<longrightarrow>
       processMessage (encoding_json sy) pick (Inr ()) cons (delivery_of (new ! i)) =
         (cons\<lparr>tc_WorkerPool := wp\<rparr>, [Ack], Inr ()))"
proof -
  from PublishBatch_effect [OF assms(1,2), of marshal_PubMessage tid msgs w] assms(4) obtain bodies where
    b: "map marshal_PubMessage msgs = map Inr bodies" and
    q: "\<And>q. recv w' q = map_option (\<lambda>ps. ps @ (if q = main_queue_name tid
          then batch_publishings tid msgs bodies else [])) (recv w q)" by auto
  let ?new = "batch_publishings tid msgs bodies"
  have len: "length bodies = length msgs" using arg_cong [OF b, of length] by simp
  have "pb_Body (?new ! i) = bodies ! i" "marshal_PubMessage (msgs ! i) = Inr (bodies ! i)" "sendable (msgs ! i)"
    if i: "i < length msgs" for i
    using i len assms(3) arg_cong [OF b, of "\<lambda>xs. xs ! i"]
    by (simp_all add: batch_publishings_def publishing_def list_all_length)
  then have "processMessage (encoding_json sy) pick (Inr ()) cons (delivery_of (?new ! i)) =
      (cons\<lparr>tc_WorkerPool := wp\<rparr>, [Ack], Inr ())"
    if "i < length msgs" "tc_TenantID cons = tid" "Submit pick (item_for tid (msgs ! i)) (tc_WorkerPool cons) = (wp, None)"
    for i sy pick cons wp
    using that by (intro processMessage_published [of "msgs ! i" "bodies ! i"]) (simp_all add: delivery_of_def)
  moreover have "length ?new = length msgs" by (simp add: batch_publishings_def len)
  ultimately show ?thesis using q [of "main_queue_name tid"] assms(5) by (intro exI [of _ ?new]) simp
qed

text \<open>
  C17: a message that arrived is processed. If its payload is an object or null, the server takes its
  identifiers and its payload, and one of the attempts meets no fault, then its row is completed; its payload
  is the message's, unless a row with its identifiers was there before, whose payload stays.
\<close>

theorem delivered_message_completes:
  assumes "sendable m" "pm_Payload m = JNull \<or> (\<exists>kvs. pm_Payload m = JObject kvs)"
    "uuid_in pg (pm_ID m) = Some u" "uuid_in pg tid = Some t" "jsonb_in pg (print (pm_Payload m)) = Some p"
    "good_attempt (env n)" "int n \<le> maxRetry" "maxRetry < 2 ^ 31"
  shows "\<exists>d' ps r. processWork (encoding_json sy) pg ovf env de maxRetry (item_for tid m) d = (d', None, ps) \<and>
    find_by m_key (u, t) (messages d') = Some r \<and> m_status r = ''completed'' \<and>
    m_payload r = (case find_by m_key (u, t) (messages d) of Some r0 \<Rightarrow> m_payload r0 | None \<Rightarrow> p)"
proof -
  let ?item = "item_for tid m"
  have "\<not> isl (unmarshal_object (encoding_json sy) (print (pm_Payload m)))"
    using assms(1,2) unmarshal_object_print [of "pm_Payload m" sy] by (auto simp: sendable_def)
  with assms(3-5) have ok: "item_ok (encoding_json sy) pg ?item" by (simp add: item_ok_def item_for_def int4_ok_def)
  have k: "row_key pg (wi_MessageID ?item) (wi_TenantID ?item) = (u, t)"
    using assms(3,4) by (simp add: row_key_def item_for_def)
  from retry_loop_reaches [where env = env and attempt = 0 and ovf = ovf and d = d, OF ok assms(6-8)] obtain d' ps where
    l: "retry_loop (encoding_json sy) pg ovf env maxRetry 0 ?item d = (d', None, ps)" by auto
  from retry_loop_success_row [OF l] obtain r where r: "find_by m_key (u, t) (messages d') = Some r" "m_status r = ''completed''"
    by (auto simp: k)
  have "payload_from (u, t) p (payload_at (u, t) d) (fst (retry_loop (encoding_json sy) pg ovf env maxRetry 0 ?item d))"
    by (rule retry_loop_keeps [OF attempt_keeps_payload]) (use assms(3-5) in \<open>simp_all add: item_for_def payload_from_def\<close>)
  then have "m_payload r = (case find_by m_key (u, t) (messages d) of Some r0 \<Rightarrow> m_payload r0 | None \<Rightarrow> p)"
    using r(1) by (auto simp: l payload_from_def payload_at_def simp del: find_by_None split: option.splits)
  with l r show ?thesis by (auto simp: processWork_def processWithRetry_def)
qed

text \<open>
  C27: a message whose payload is neither an object nor null is lost. Both publishers accept it and it is
  acknowledged when it is taken from the queue; but every attempt fails on decoding the payload, before
  the row is written, so with retries configured the database is left as it was: no row, no dead letter.
\<close>

theorem payload_not_an_object_is_lost:
  assumes "sendable m" "pm_Payload m \<noteq> JNull" "\<forall>kvs. pm_Payload m \<noteq> JObject kvs"
    "marshal_PubMessage m = Inr (dv_Body dv)" "tc_TenantID cons = tid"
    "Submit pick (item_for tid m) (tc_WorkerPool cons) = (wp, None)" "0 < maxRetry"
  shows "processMessage (encoding_json sy) pick (Inr ()) cons dv = (cons\<lparr>tc_WorkerPool := wp\<rparr>, [Ack], Inr ()) \<and>
    (\<exists>e ps. processWork (encoding_json sy) pg ovf env de maxRetry (item_for tid m) d = (d, Some e, ps) \<and>
       int (length ps) = maxRetry)"
proof
  show "processMessage (encoding_json sy) pick (Inr ()) cons dv = (cons\<lparr>tc_WorkerPool := wp\<rparr>, [Ack], Inr ())"
    using assms(5,6) by (intro processMessage_published [OF assms(1,4)]) simp_all
  obtain e where "unmarshal_object (encoding_json sy) (wi_Payload (item_for tid m)) = Inl e"
    using assms(1-3) unmarshal_object_print [of "pm_Payload m" sy]
    by (cases "pm_Payload m") (simp_all add: sendable_def item_for_def)
  from retry_loop_undecodable [OF this, of 0 maxRetry pg ovf env d] assms(7) obtain ps where
    "retry_loop (encoding_json sy) pg ovf env maxRetry 0 (item_for tid m) d = (d, Some (Wrapf ''failed to unmarshal payload: '' e), ps)"
    "int (length ps) = maxRetry" by auto
  moreover have "wi_RetryCount (item_for tid m) = 0" by (simp add: item_for_def)
  ultimately show "\<exists>e ps. processWork (encoding_json sy) pg ovf env de maxRetry (item_for tid m) d = (d, Some e, ps) \<and>
      int (length ps) = maxRetry"
    using assms(7) by (simp add: processWork_def processWithRetry_def)
qed

section \<open>From the API to the database and back\<close>

text \<open>
  What PostgreSQL promises of a \<^verbatim>\<open>jsonb\<close> column: the text it answers has the value of the text it was
  given; only the sign of a zero may be gone.
\<close>

fun no_negative_zero :: "json \<Rightarrow> bool" where
  "no_negative_zero (JNumber t) \<longleftrightarrow> t \<noteq> ''-0''"
| "no_negative_zero (JArray vs) \<longleftrightarrow> list_all no_negative_zero vs"
| "no_negative_zero (JObject kvs) \<longleftrightarrow> list_all (\<lambda>(k, v). no_negative_zero v) kvs"
| "no_negative_zero _ \<longleftrightarrow> True"

definition jsonb_lawful :: "pg_server \<Rightarrow> bool" where
  "jsonb_lawful pg \<longleftrightarrow> (\<forall>sy s p v. jsonb_in pg s = Some p \<longrightarrow> unmarshal_value (encoding_json sy) s = Inr v \<longrightarrow>
     no_negative_zero v \<longrightarrow> unmarshal_value (encoding_json sy) p = Inr v)"

lemma CreateMessage_payload:
  assumes "jsonb_lawful pg" "canonical (cm_Payload req)" "nesting (cm_Payload req) \<le> max_nesting"
    "no_negative_zero (cm_Payload req)" "CreateMessage pg (encoding_json sy) tm env req d = (d', Inr m)"
  shows "mr_Payload m = cm_Payload req"
proof -
  note r = canonical_roundtrip [OF assms(2,3), of sy]
  from assms(5) obtain row where row: "m = scan_message (encoding_json sy) tm row"
    "sql_insert_message pg (se_now env) (se_uuid env) (cm_TenantID req) (print (cm_Payload req)) d = (d', Inr row)"
    using r by (auto simp: CreateMessage_def with_fault_Inr split: sum.splits prod.splits)
  from row(2) obtain p where p: "jsonb_in pg (print (cm_Payload req)) = Some p" "m_payload row = p"
    by (auto simp: sql_insert_message_def Let_def split: option.splits if_splits)
  have "unmarshal_value (encoding_json sy) p = Inr (cm_Payload req)"
    using assms(1,4) p(1) r unfolding jsonb_lawful_def by blast
  then show ?thesis by (simp add: row(1) scan_message_def unmarshal_or_nil_def p(2))
qed

text \<open>
  C28: a message created through the service. When the call succeeds the message is pending with no
  retries under the tenant that was named, with the payload of the request; reading it back gives the
  same response, and a read that names a tenant never returns another tenant's message.
\<close>

theorem created_message_read_back:
  assumes "uuid_lawful pg" "jsonb_lawful pg" "db_ok pg d" "canonical (cm_Payload req)"
    "nesting (cm_Payload req) \<le> max_nesting" "no_negative_zero (cm_Payload req)"
    "CreateMessage pg (encoding_json sy) tm env req d = (d', Inr m)" "svc_healthy env'"
  shows "mr_Payload m = cm_Payload req \<and> mr_Status m = ''pending'' \<and> mr_RetryCount m = 0 \<and>
    uuid_in pg (cm_TenantID req) = Some (mr_TenantID m) \<and> db_ok pg d' \<and>
    GetMessage pg (encoding_json sy) tm env' (mr_ID m) (cm_TenantID req) d' = (d', Inr m) \<and>
    (\<forall>t x. GetMessage pg (encoding_json sy) tm env' (mr_ID m) t d' = (d', Inr x) \<longrightarrow> uuid_in pg t = Some (mr_TenantID x))"
  using CreateMessage_payload [OF assms(2,4-7)] CreateMessage_roundtrip [OF assms(1,3,7,8)] by blast

section \<open>Witnesses\<close>

definition sent :: "json \<Rightarrow> PubMessage" where
  "sent v = \<lparr>pm_ID = uuid_a, pm_TenantID = uuid_b, pm_Payload = v, pm_Timestamp = 1700000000\<rparr>"

definition sample_object :: json where
  "sample_object = JObject [(''a'', JArray [JBool True, JNull]), (''b'', JString ''x'')]"

lemma sendable_sent: "canonical v \<Longrightarrow> nesting v < max_nesting \<Longrightarrow> sendable (sent v)"
proof -
  have "utf8 uuid_a" "utf8 uuid_b" by (rule utf8_ascii, code_simp)+
  then show "canonical v \<Longrightarrow> nesting v < max_nesting \<Longrightarrow> sendable (sent v)" by (simp add: sendable_def sent_def)
qed

lemma sample_object_ok [simp]:
  "canonical sample_object" "nesting sample_object < max_nesting" "no_negative_zero sample_object"
proof -
  have u: "utf8 ''a''" "utf8 ''b''" "utf8 ''x''" by (rule utf8_ascii, code_simp)+
  have "''a'' < ''b''" by code_simp
  with u show "canonical sample_object" by (simp add: sample_object_def)
qed (simp_all add: sample_object_def max_nesting_def)

lemma sample_jsonb_lawful: "jsonb_lawful sample_pg"
  by (auto simp: jsonb_lawful_def sample_pg_def split: if_split_asm)

lemma sample_marshal_pub: "\<exists>b. marshal_PubMessage m = Inr b"
  by (simp add: marshal_PubMessage_def)

lemma sample_submit:
  "Submit True item (tc_WorkerPool (sample_consumer (sample_pool False [] Idle))) = (sample_pool False [item] Idle, None)"
  by (simp add: Submit_def work_send_ready_def work_send_def chan_send_ready_def chan_send_def
      sample_consumer_def sample_pool_def)

lemma sample_consumer_tenant: "tc_TenantID (sample_consumer wp) = uuid_b"
  by (simp add: sample_consumer_def)

theorem published_batch_delivered_witness:
  "\<exists>w' c' new. PublishBatch marshal_PubMessage mem_amqp uuid_b [sent sample_object]
       (sample_broker, NewConnection ''amqp://localhost'') = Some ((w', c'), Inr ()) \<and>
     mem_recv w' (main_queue_name uuid_b) = Some [new] \<and>
     snd (processMessage (encoding_json (\<lambda>s. s)) True (Inr ()) (sample_consumer (sample_pool False [] Idle)) (delivery_of new)) =
       ([Ack], Inr ())"
proof -
  have mu: "\<not> cn_mu (NewConnection ''amqp://localhost'')" by (simp add: NewConnection_def)
  have "\<exists>s. PublishBatch marshal_PubMessage mem_amqp uuid_b [sent sample_object]
       (sample_broker, NewConnection ''amqp://localhost'') = Some (s, Inr ())"
    by (simp add: PublishBatch_def NewChannel_def Connect_def conn_down_def mem_amqp_def NewConnection_def marshal_PubMessage_def)
  then obtain w' c' where b: "PublishBatch marshal_PubMessage mem_amqp uuid_b [sent sample_object]
       (sample_broker, NewConnection ''amqp://localhost'') = Some ((w', c'), Inr ())" by auto
  have r: "mem_recv sample_broker (main_queue_name uuid_b) = Some []"
    by (simp add: mem_recv_def sample_broker_def mem_empty_def)
  have l: "list_all sendable [sent sample_object]" by (simp add: sendable_sent)
  from published_batch_delivered [OF mem_amqp_tx_lawful, OF mu l b r] obtain new where
    new: "mem_recv w' (main_queue_name uuid_b) = Some ([] @ new)" "length new = length [sent sample_object]"
    and P: "\<forall>i < length [sent sample_object]. \<forall>sy pick cons wp. tc_TenantID cons = uuid_b \<longrightarrow>
       Submit pick (item_for uuid_b ([sent sample_object] ! i)) (tc_WorkerPool cons) = (wp, None) \<longrightarrow>
       processMessage (encoding_json sy) pick (Inr ()) cons (delivery_of (new ! i)) = (cons\<lparr>tc_WorkerPool := wp\<rparr>, [Ack], Inr ())"
    by (elim exE conjE) (rule that)
  from new(2) obtain x where x: "new = [x]" by (auto simp: length_Suc_conv)
  have z: "0 < length [sent sample_object]" by simp
  from P [rule_format, OF z sample_consumer_tenant sample_submit, of "\<lambda>s. s"]
  have "snd (processMessage (encoding_json (\<lambda>s. s)) True (Inr ()) (sample_consumer (sample_pool False [] Idle)) (delivery_of x)) =
      ([Ack], Inr ())" by (simp add: x)
  moreover have "mem_recv w' (main_queue_name uuid_b) = Some [x]" using new(1) by (simp add: x)
  ultimately show ?thesis using b by blast
qed

theorem delivered_message_completes_witness:
  "\<exists>d' ps r. processWork (encoding_json (\<lambda>s. s)) sample_pg 0 (\<lambda>i. sample_attempt (if i = 2 then 1 else 10)) sample_dl 3
       (item_for uuid_b (sent sample_object)) db_empty = (d', None, ps) \<and>
     find_by m_key (uuid_a, uuid_b) (messages d') = Some r \<and> m_status r = ''completed'' \<and> m_payload r = print sample_object"
proof -
  let ?m = "sent sample_object"
  have m: "sendable ?m" by (simp add: sendable_sent)
  have s: "pm_Payload ?m = sample_object" "pm_ID ?m = uuid_a" by (simp_all add: sent_def)
  have v: "pm_Payload ?m = JNull \<or> (\<exists>kvs. pm_Payload ?m = JObject kvs)" unfolding s by (simp add: sample_object_def)
  have i: "uuid_in sample_pg (pm_ID ?m) = Some uuid_a" by (simp add: s)
  have j: "jsonb_in sample_pg (print (pm_Payload ?m)) = Some (print sample_object)"
    unfolding s by (simp add: sample_pg_def sample_object_def)
  have e: "find_by m_key (uuid_a, uuid_b) (messages db_empty) = None" by (simp add: db_empty_def)
  have g: "good_attempt ((\<lambda>i. sample_attempt (if i = 2 then 1 else 10)) 2)" by simp
  have n: "int 2 \<le> 3" "(3 :: int) < 2 ^ 31" by simp_all
  from delivered_message_completes [where env = "\<lambda>i. sample_attempt (if i = 2 then 1 else 10)" and sy = "\<lambda>s. s" and ovf = 0
      and de = sample_dl and d = db_empty, OF m v i sample_uuid_in_abc(2) j g n]
  show ?thesis unfolding e option.case .
qed

theorem payload_not_an_object_is_lost_witness:
  "\<exists>dv. snd (processMessage (encoding_json (\<lambda>s. s)) True (Inr ()) (sample_consumer (sample_pool False [] Idle)) dv) = ([Ack], Inr ()) \<and>
     fst (processWork (encoding_json (\<lambda>s. s)) sample_pg 0 (\<lambda>i. sample_attempt 1) sample_dl 3
       (item_for uuid_b (sent (JArray []))) db_empty) = db_empty"
proof -
  let ?m = "sent (JArray [])"
  let ?dv = "\<lambda>b. \<lparr>dv_Body = b, dv_MessageId = [], dv_Headers = Map.empty\<rparr>"
  obtain b where b: "marshal_PubMessage ?m = Inr (dv_Body (?dv b))" using sample_marshal_pub [of ?m] by auto
  have m: "sendable ?m" by (simp add: sendable_sent max_nesting_def)
  have v: "pm_Payload ?m \<noteq> JNull" "\<forall>kvs. pm_Payload ?m \<noteq> JObject kvs" by (simp_all add: sent_def)
  have n: "(0 :: int) < 3" by simp
  from payload_not_an_object_is_lost [where sy = "\<lambda>s. s" and pg = sample_pg and ovf = 0
      and env = "\<lambda>i. sample_attempt 1" and de = sample_dl and d = db_empty, OF m v b sample_consumer_tenant sample_submit n]
  have L: "snd (processMessage (encoding_json (\<lambda>s. s)) True (Inr ()) (sample_consumer (sample_pool False [] Idle)) (?dv b)) =
      ([Ack], Inr ())"
    "fst (processWork (encoding_json (\<lambda>s. s)) sample_pg 0 (\<lambda>i. sample_attempt 1) sample_dl 3
       (item_for uuid_b ?m) db_empty) = db_empty" by auto
  show ?thesis by (rule exI [of _ "?dv b"]) (simp only: L simp_thms)
qed

theorem created_message_read_back_witness:
  "\<exists>d' m. CreateMessage sample_pg (encoding_json (\<lambda>s. s)) sample_time (sample_env uuid_a 7)
       \<lparr>cm_TenantID = uuid_b, cm_Payload = sample_object\<rparr> db_empty = (d', Inr m) \<and> mr_Payload m = sample_object \<and>
     GetMessage sample_pg (encoding_json (\<lambda>s. s)) sample_time (sample_env [] 9) (mr_ID m) uuid_b d' = (d', Inr m)"
proof -
  let ?req = "\<lparr>cm_TenantID = uuid_b, cm_Payload = sample_object\<rparr>"
  have j: "jsonb_in sample_pg (print sample_object) = Some (print sample_object)"
    by (simp add: sample_pg_def sample_object_def)
  have i: "in_order sample_object = sample_object" using canonical_fixed by simp
  have "\<exists>d' m. CreateMessage sample_pg (encoding_json (\<lambda>s. s)) sample_time (sample_env uuid_a 7) ?req db_empty = (d', Inr m)"
    by (simp add: CreateMessage_def sample_env_def sql_insert_message_def i j db_empty_def Let_def)
  then obtain d' m where c: "CreateMessage sample_pg (encoding_json (\<lambda>s. s)) sample_time (sample_env uuid_a 7) ?req db_empty = (d', Inr m)"
    by auto
  have q: "cm_Payload ?req = sample_object" "cm_TenantID ?req = uuid_b" by simp_all
  have h: "svc_healthy (sample_env [] 9)" by (rule sample_env_healthy)
  have v: "canonical (cm_Payload ?req)" "nesting (cm_Payload ?req) \<le> max_nesting" "no_negative_zero (cm_Payload ?req)"
    unfolding q using sample_object_ok by (simp_all add: less_imp_le)
  from created_message_read_back [OF sample_uuid_lawful sample_jsonb_lawful db_ok_empty v c h]
  show ?thesis unfolding q using c by blast
qed

end
