(* ===== verification/Api_Docs.thy ===== *)
theory Api_Docs
  imports Routes
begin

text \<open>
  The documentation of the API, \<^verbatim>\<open>api/swagger/docs.go\<close>: its paths, operations and definitions as data, in
  the order of the file, and what it means for a response to be as documented; and the
  request and response types of \<^verbatim>\<open>internal/tenant/dto.go\<close>, which nothing uses, with their tags. The
  properties compare both with what the program serves.
\<close>

section \<open>The format\<close>

text \<open>A schema; an empty one allows everything, and no property of an object is required.\<close>

datatype schema =
    S_any
  | S_string
  | S_integer
  | S_boolean
  | S_array schema
  | S_object "(string \<times> schema) list"
  | S_map schema
  | S_ref string

record parameter =
  pa_Description :: string
  pa_Name :: string
  pa_In :: string
  pa_Required :: bool
  pa_Schema :: schema

record response =
  rs_Description :: string
  rs_Schema :: "schema option"

record operation =
  op_Description :: string
  op_Consumes :: "string list"
  op_Produces :: "string list"
  op_Tags :: "string list"
  op_Summary :: string
  op_Parameters :: "parameter list"
  op_Responses :: "(nat \<times> response) list"

definition json_type :: "string list" where
  "json_type = [''application/json'']"

text \<open>An object whose members are all strings, the documented body of every error.\<close>

definition error_response :: "string \<Rightarrow> response" where
  "error_response d = \<lparr>rs_Description = d, rs_Schema = Some (S_map S_string)\<rparr>"

definition schema_response :: "string \<Rightarrow> schema \<Rightarrow> response" where
  "schema_response d s = \<lparr>rs_Description = d, rs_Schema = Some s\<rparr>"

section \<open>The paths\<close>

definition doc_ListMessages :: operation where
  "doc_ListMessages =
     \<lparr>op_Description = ''Get messages with cursor pagination'', op_Consumes = [], op_Produces = json_type,
      op_Tags = [''messages''], op_Summary = ''List messages'',
      op_Parameters =
        [\<lparr>pa_Description = ''Cursor for pagination'', pa_Name = ''cursor'', pa_In = ''query'', pa_Required = False, pa_Schema = S_string\<rparr>,
         \<lparr>pa_Description = ''Limit (default 20, max 100)'', pa_Name = ''limit'', pa_In = ''query'', pa_Required = False, pa_Schema = S_integer\<rparr>,
         \<lparr>pa_Description = ''Filter by tenant'', pa_Name = ''tenant_id'', pa_In = ''query'', pa_Required = False, pa_Schema = S_string\<rparr>],
      op_Responses = [(200, schema_response ''OK'' (S_ref ''service.CursorPaginationResponse''))]\<rparr>"

definition doc_CreateMessage :: operation where
  "doc_CreateMessage =
     \<lparr>op_Description = ''Publish a message to a tenant's queue'', op_Consumes = json_type, op_Produces = json_type,
      op_Tags = [''messages''], op_Summary = ''Publish a message'',
      op_Parameters =
        [\<lparr>pa_Description = ''Message creation request'', pa_Name = ''request'', pa_In = ''body'', pa_Required = True,
          pa_Schema = S_ref ''service.CreateMessageRequest''\<rparr>],
      op_Responses =
        [(201, schema_response ''Created'' (S_ref ''service.MessageResponse'')),
         (400, error_response ''Bad Request''),
         (500, error_response ''Internal Server Error'')]\<rparr>"

definition doc_GetMessage :: operation where
  "doc_GetMessage =
     \<lparr>op_Description = ''Get details of a specific message'', op_Consumes = [], op_Produces = json_type,
      op_Tags = [''messages''], op_Summary = ''Get message details'',
      op_Parameters =
        [\<lparr>pa_Description = ''Message ID'', pa_Name = ''id'', pa_In = ''path'', pa_Required = True, pa_Schema = S_string\<rparr>,
         \<lparr>pa_Description = ''Tenant ID'', pa_Name = ''tenant_id'', pa_In = ''query'', pa_Required = True, pa_Schema = S_string\<rparr>],
      op_Responses =
        [(200, schema_response ''OK'' (S_ref ''service.MessageResponse'')),
         (400, error_response ''Bad Request''),
         (404, error_response ''Not Found'')]\<rparr>"

definition doc_ListTenants :: operation where
  "doc_ListTenants =
     \<lparr>op_Description = ''Get a list of all tenants'', op_Consumes = [], op_Produces = json_type,
      op_Tags = [''tenants''], op_Summary = ''List all tenants'',
      op_Parameters =
        [\<lparr>pa_Description = ''Limit'', pa_Name = ''limit'', pa_In = ''query'', pa_Required = False, pa_Schema = S_integer\<rparr>,
         \<lparr>pa_Description = ''Offset'', pa_Name = ''offset'', pa_In = ''query'', pa_Required = False, pa_Schema = S_integer\<rparr>],
      op_Responses = [(200, schema_response ''OK'' (S_array (S_ref ''service.TenantResponse'')))]\<rparr>"

definition doc_CreateTenant :: operation where
  "doc_CreateTenant =
     \<lparr>op_Description = ''Create a new tenant and spawn a message consumer'', op_Consumes = json_type, op_Produces = json_type,
      op_Tags = [''tenants''], op_Summary = ''Create a new tenant'',
      op_Parameters =
        [\<lparr>pa_Description = ''Tenant creation request'', pa_Name = ''request'', pa_In = ''body'', pa_Required = True,
          pa_Schema = S_ref ''service.CreateTenantRequest''\<rparr>],
      op_Responses =
        [(201, schema_response ''Created'' (S_ref ''service.TenantResponse'')),
         (400, error_response ''Bad Request''),
         (500, error_response ''Internal Server Error'')]\<rparr>"

definition doc_GetTenant :: operation where
  "doc_GetTenant =
     \<lparr>op_Description = ''Get details of a specific tenant'', op_Consumes = [], op_Produces = json_type,
      op_Tags = [''tenants''], op_Summary = ''Get tenant details'',
      op_Parameters =
        [\<lparr>pa_Description = ''Tenant ID'', pa_Name = ''id'', pa_In = ''path'', pa_Required = True, pa_Schema = S_string\<rparr>],
      op_Responses =
        [(200, schema_response ''OK'' (S_ref ''service.TenantResponse'')),
         (400, error_response ''Bad Request''),
         (404, error_response ''Not Found'')]\<rparr>"

definition doc_DeleteTenant :: operation where
  "doc_DeleteTenant =
     \<lparr>op_Description = ''Delete a tenant and stop its consumer'', op_Consumes = [], op_Produces = json_type,
      op_Tags = [''tenants''], op_Summary = ''Delete a tenant'',
      op_Parameters =
        [\<lparr>pa_Description = ''Tenant ID'', pa_Name = ''id'', pa_In = ''path'', pa_Required = True, pa_Schema = S_string\<rparr>],
      op_Responses =
        [(204, \<lparr>rs_Description = ''No Content'', rs_Schema = None\<rparr>),
         (400, error_response ''Bad Request''),
         (404, error_response ''Not Found''),
         (500, error_response ''Internal Server Error'')]\<rparr>"

definition doc_UpdateConcurrency :: operation where
  "doc_UpdateConcurrency =
     \<lparr>op_Description = ''Update the number of workers for a tenant'', op_Consumes = json_type, op_Produces = json_type,
      op_Tags = [''tenants''], op_Summary = ''Update tenant concurrency'',
      op_Parameters =
        [\<lparr>pa_Description = ''Tenant ID'', pa_Name = ''id'', pa_In = ''path'', pa_Required = True, pa_Schema = S_string\<rparr>,
         \<lparr>pa_Description = ''Concurrency update request'', pa_Name = ''request'', pa_In = ''body'', pa_Required = True,
          pa_Schema = S_ref ''service.UpdateConcurrencyRequest''\<rparr>],
      op_Responses =
        [(200, schema_response ''OK'' (S_ref ''service.TenantResponse'')),
         (400, error_response ''Bad Request''),
         (404, error_response ''Not Found''),
         (500, error_response ''Internal Server Error'')]\<rparr>"

section \<open>The definitions\<close>

definition doc_CreateMessageRequest :: schema where
  "doc_CreateMessageRequest = S_object [(''payload'', S_any), (''tenant_id'', S_string)]"

definition doc_CreateTenantRequest :: schema where
  "doc_CreateTenantRequest = S_object [(''name'', S_string), (''workers'', S_integer)]"

definition doc_CursorPaginationResponse :: schema where
  "doc_CursorPaginationResponse =
     S_object [(''data'', S_array (S_ref ''service.MessageResponse'')), (''has_more'', S_boolean), (''next_cursor'', S_string)]"

definition doc_MessageResponse :: schema where
  "doc_MessageResponse =
     S_object [(''created_at'', S_string), (''id'', S_string), (''payload'', S_any), (''retry_count'', S_integer),
               (''status'', S_string), (''tenant_id'', S_string), (''updated_at'', S_string)]"

definition doc_TenantResponse :: schema where
  "doc_TenantResponse =
     S_object [(''created_at'', S_string), (''id'', S_string), (''name'', S_string), (''updated_at'', S_string), (''workers'', S_integer)]"

definition doc_UpdateConcurrencyRequest :: schema where
  "doc_UpdateConcurrencyRequest = S_object [(''workers'', S_integer)]"

record api_key =
  ak_Description :: string
  ak_Name :: string
  ak_In :: string

record swagger =
  sw_Info :: "(string \<times> string) list"
  sw_Host :: string
  sw_BasePath :: string
  sw_Paths :: "(string \<times> string \<times> operation) list"
  sw_Definitions :: "(string \<times> schema) list"
  sw_Security :: "(string \<times> api_key) list"

text \<open>The template with the values of \<^verbatim>\<open>SwaggerInfo\<close>, and the values themselves.\<close>

record spec_info =
  si_Version :: string
  si_Host :: string
  si_BasePath :: string
  si_Schemes :: "string list"
  si_Title :: string
  si_Description :: string
  si_InfoInstanceName :: string

definition SwaggerInfo :: spec_info where
  "SwaggerInfo =
     \<lparr>si_Version = ''1.0'', si_Host = ''localhost:8080'', si_BasePath = ''/api/v1'', si_Schemes = [],
      si_Title = ''Multi-Tenant Messaging System API'',
      si_Description = ''A multi-tenant messaging system with RabbitMQ and PostgreSQL'', si_InfoInstanceName = ''swagger''\<rparr>"

definition doc_info :: "spec_info \<Rightarrow> (string \<times> string) list" where
  "doc_info si =
     [(''description'', si_Description si), (''title'', si_Title si), (''termsOfService'', ''http://swagger.io/terms/''),
      (''contact.name'', ''API Support''), (''contact.email'', ''support@example.com''),
      (''license.name'', ''Apache 2.0''), (''license.url'', ''http://www.apache.org/licenses/LICENSE-2.0.html''),
      (''version'', si_Version si)]"

definition doc_security :: "(string \<times> api_key) list" where
  "doc_security =
     [(''Bearer'', \<lparr>ak_Description = ''Type '' @ [CHR 0x22] @ ''Bearer'' @ [CHR 0x22] @ '' followed by a space and JWT token.'',
        ak_Name = ''Authorization'', ak_In = ''header''\<rparr>)]"

definition docTemplate :: "spec_info \<Rightarrow> swagger" where
  "docTemplate si =
     \<lparr>sw_Info = doc_info si, sw_Host = si_Host si, sw_BasePath = si_BasePath si,
      sw_Paths =
        [(''/messages'', ''get'', doc_ListMessages), (''/messages'', ''post'', doc_CreateMessage),
         (''/messages/{id}'', ''get'', doc_GetMessage),
         (''/tenants'', ''get'', doc_ListTenants), (''/tenants'', ''post'', doc_CreateTenant),
         (''/tenants/{id}'', ''get'', doc_GetTenant), (''/tenants/{id}'', ''delete'', doc_DeleteTenant),
         (''/tenants/{id}/config/concurrency'', ''put'', doc_UpdateConcurrency)],
      sw_Definitions =
        [(''service.CreateMessageRequest'', doc_CreateMessageRequest), (''service.CreateTenantRequest'', doc_CreateTenantRequest),
         (''service.CursorPaginationResponse'', doc_CursorPaginationResponse), (''service.MessageResponse'', doc_MessageResponse),
         (''service.TenantResponse'', doc_TenantResponse), (''service.UpdateConcurrencyRequest'', doc_UpdateConcurrencyRequest)],
      sw_Security = doc_security\<rparr>"

section \<open>The annotations of the source\<close>

text \<open>
  The comments that the documentation is generated from: those of the handlers in
  \<^verbatim>\<open>internal/handler\<close> and those of \<^verbatim>\<open>cmd/api/main.go\<close>. A body is a named type, a list of one, or
  \<^verbatim>\<open>map[string]string\<close>.
\<close>

datatype an_body = A_object string | A_array string | A_errors

record annotation =
  an_Summary :: string
  an_Description :: string
  an_Tags :: "string list"
  an_Accept :: bool
  an_Produce :: bool
  an_Params :: "(string \<times> string \<times> string \<times> bool \<times> string) list"
  an_Responses :: "(nat \<times> an_body option) list"
  an_Router :: "string \<times> string"

definition an_CreateMessage :: annotation where
  "an_CreateMessage =
     \<lparr>an_Summary = ''Publish a message'', an_Description = ''Publish a message to a tenant's queue'', an_Tags = [''messages''],
      an_Accept = True, an_Produce = True,
      an_Params = [(''request'', ''body'', ''service.CreateMessageRequest'', True, ''Message creation request'')],
      an_Responses = [(201, Some (A_object ''service.MessageResponse'')), (400, Some A_errors), (500, Some A_errors)],
      an_Router = (''/messages'', ''post'')\<rparr>"

definition an_ListMessages :: annotation where
  "an_ListMessages =
     \<lparr>an_Summary = ''List messages'', an_Description = ''Get messages with cursor pagination'', an_Tags = [''messages''],
      an_Accept = False, an_Produce = True,
      an_Params = [(''cursor'', ''query'', ''string'', False, ''Cursor for pagination''),
                   (''limit'', ''query'', ''int'', False, ''Limit (default 20, max 100)''),
                   (''tenant_id'', ''query'', ''string'', False, ''Filter by tenant'')],
      an_Responses = [(200, Some (A_object ''service.CursorPaginationResponse''))],
      an_Router = (''/messages'', ''get'')\<rparr>"

definition an_GetMessage :: annotation where
  "an_GetMessage =
     \<lparr>an_Summary = ''Get message details'', an_Description = ''Get details of a specific message'', an_Tags = [''messages''],
      an_Accept = False, an_Produce = True,
      an_Params = [(''id'', ''path'', ''string'', True, ''Message ID''), (''tenant_id'', ''query'', ''string'', True, ''Tenant ID'')],
      an_Responses = [(200, Some (A_object ''service.MessageResponse'')), (400, Some A_errors), (404, Some A_errors)],
      an_Router = (''/messages/{id}'', ''get'')\<rparr>"

definition an_CreateTenant :: annotation where
  "an_CreateTenant =
     \<lparr>an_Summary = ''Create a new tenant'', an_Description = ''Create a new tenant and spawn a message consumer'', an_Tags = [''tenants''],
      an_Accept = True, an_Produce = True,
      an_Params = [(''request'', ''body'', ''service.CreateTenantRequest'', True, ''Tenant creation request'')],
      an_Responses = [(201, Some (A_object ''service.TenantResponse'')), (400, Some A_errors), (500, Some A_errors)],
      an_Router = (''/tenants'', ''post'')\<rparr>"

definition an_DeleteTenant :: annotation where
  "an_DeleteTenant =
     \<lparr>an_Summary = ''Delete a tenant'', an_Description = ''Delete a tenant and stop its consumer'', an_Tags = [''tenants''],
      an_Accept = False, an_Produce = True,
      an_Params = [(''id'', ''path'', ''string'', True, ''Tenant ID'')],
      an_Responses = [(204, None), (400, Some A_errors), (404, Some A_errors), (500, Some A_errors)],
      an_Router = (''/tenants/{id}'', ''delete'')\<rparr>"

definition an_GetTenant :: annotation where
  "an_GetTenant =
     \<lparr>an_Summary = ''Get tenant details'', an_Description = ''Get details of a specific tenant'', an_Tags = [''tenants''],
      an_Accept = False, an_Produce = True,
      an_Params = [(''id'', ''path'', ''string'', True, ''Tenant ID'')],
      an_Responses = [(200, Some (A_object ''service.TenantResponse'')), (400, Some A_errors), (404, Some A_errors)],
      an_Router = (''/tenants/{id}'', ''get'')\<rparr>"

definition an_UpdateConcurrency :: annotation where
  "an_UpdateConcurrency =
     \<lparr>an_Summary = ''Update tenant concurrency'', an_Description = ''Update the number of workers for a tenant'', an_Tags = [''tenants''],
      an_Accept = True, an_Produce = True,
      an_Params = [(''id'', ''path'', ''string'', True, ''Tenant ID''),
                   (''request'', ''body'', ''service.UpdateConcurrencyRequest'', True, ''Concurrency update request'')],
      an_Responses = [(200, Some (A_object ''service.TenantResponse'')), (400, Some A_errors), (404, Some A_errors), (500, Some A_errors)],
      an_Router = (''/tenants/{id}/config/concurrency'', ''put'')\<rparr>"

definition an_ListTenants :: annotation where
  "an_ListTenants =
     \<lparr>an_Summary = ''List all tenants'', an_Description = ''Get a list of all tenants'', an_Tags = [''tenants''],
      an_Accept = False, an_Produce = True,
      an_Params = [(''limit'', ''query'', ''int'', False, ''Limit''), (''offset'', ''query'', ''int'', False, ''Offset'')],
      an_Responses = [(200, Some (A_array ''service.TenantResponse''))],
      an_Router = (''/tenants'', ''get'')\<rparr>"

text \<open>The annotations of \<^verbatim>\<open>main\<close>, with the scheme of the tokens.\<close>

definition an_main :: "(string \<times> string) list" where
  "an_main =
     [(''title'', ''Multi-Tenant Messaging System API''), (''version'', ''1.0''),
      (''description'', ''A multi-tenant messaging system with RabbitMQ and PostgreSQL''),
      (''termsOfService'', ''http://swagger.io/terms/''), (''contact.name'', ''API Support''),
      (''contact.email'', ''support@example.com''), (''license.name'', ''Apache 2.0''),
      (''license.url'', ''http://www.apache.org/licenses/LICENSE-2.0.html''), (''host'', ''localhost:8080''),
      (''BasePath'', ''/api/v1''), (''securityDefinitions.apikey'', ''Bearer''), (''in'', ''header''), (''name'', ''Authorization''),
      (''securityDefinitions.description'', ''Type '' @ [CHR 0x22] @ ''Bearer'' @ [CHR 0x22] @ '' followed by a space and JWT token.'')]"

text \<open>What an annotation says of an operation.\<close>

definition status_text :: "nat \<Rightarrow> string" where
  "status_text n =
     (if n = 200 then ''OK'' else if n = 201 then ''Created'' else if n = 204 then ''No Content''
      else if n = 400 then ''Bad Request'' else if n = 404 then ''Not Found''
      else if n = 500 then ''Internal Server Error'' else [])"

definition annotated_body :: "an_body \<Rightarrow> schema" where
  "annotated_body b =
     (case b of A_object t \<Rightarrow> S_ref t | A_array t \<Rightarrow> S_array (S_ref t) | A_errors \<Rightarrow> S_map S_string)"

definition annotated_param :: "string \<times> string \<times> string \<times> bool \<times> string \<Rightarrow> parameter" where
  "annotated_param p =
     (case p of (name, place, ty, required, descr) \<Rightarrow>
        \<lparr>pa_Description = descr, pa_Name = name, pa_In = place, pa_Required = required,
         pa_Schema = (if ty = ''string'' then S_string else if ty = ''int'' then S_integer else S_ref ty)\<rparr>)"

definition annotated_operation :: "annotation \<Rightarrow> operation" where
  "annotated_operation a =
     \<lparr>op_Description = an_Description a, op_Consumes = (if an_Accept a then json_type else []),
      op_Produces = (if an_Produce a then json_type else []), op_Tags = an_Tags a, op_Summary = an_Summary a,
      op_Parameters = map annotated_param (an_Params a),
      op_Responses = map (\<lambda>(n, b). (n, \<lparr>rs_Description = status_text n, rs_Schema = map_option annotated_body b\<rparr>)) (an_Responses a)\<rparr>"

text \<open>The documentation is up to date with the annotations.\<close>

lemma documentation_generated:
  "sw_Paths (docTemplate SwaggerInfo) =
     map (\<lambda>a. (fst (an_Router a), snd (an_Router a), annotated_operation a))
       [an_ListMessages, an_CreateMessage, an_GetMessage, an_ListTenants, an_CreateTenant, an_GetTenant, an_DeleteTenant,
        an_UpdateConcurrency]"
  by (simp add: docTemplate_def annotated_operation_def annotated_param_def annotated_body_def status_text_def
      schema_response_def error_response_def doc_ListMessages_def doc_CreateMessage_def doc_GetMessage_def doc_ListTenants_def
      doc_CreateTenant_def doc_GetTenant_def doc_DeleteTenant_def doc_UpdateConcurrency_def an_ListMessages_def
      an_CreateMessage_def an_GetMessage_def an_ListTenants_def an_CreateTenant_def an_GetTenant_def an_DeleteTenant_def
      an_UpdateConcurrency_def)

lemma documentation_info:
  "list_all (\<lambda>(k, v). map_of an_main k = Some v) (sw_Info (docTemplate SwaggerInfo)) \<and>
   map_of an_main ''host'' = Some (sw_Host (docTemplate SwaggerInfo)) \<and>
   map_of an_main ''BasePath'' = Some (sw_BasePath (docTemplate SwaggerInfo)) \<and>
   map (\<lambda>(n, k). (Some n, Some (ak_Name k), Some (ak_In k), Some (ak_Description k))) (sw_Security (docTemplate SwaggerInfo)) =
     [(map_of an_main ''securityDefinitions.apikey'', map_of an_main ''name'', map_of an_main ''in'',
       map_of an_main ''securityDefinitions.description'')]"
  by (simp add: docTemplate_def doc_info_def SwaggerInfo_def doc_security_def an_main_def)

section \<open>Conforming to a schema\<close>

definition int_text :: "string \<Rightarrow> bool" where
  "int_text t \<longleftrightarrow> (let ds = (if t \<noteq> [] \<and> hd t = CHR ''-'' then tl t else t) in ds \<noteq> [] \<and> digits 0 ds \<noteq> None)"

lemma size_member: "(k, s) \<in> set props \<Longrightarrow> size s < Suc (size_list (size_prod (\<lambda>_. 0) size) props)"
  by (induction props) auto

text \<open>The number bounds the references followed, of which the documentation nests two.\<close>

function conforms :: "(string \<times> schema) list \<Rightarrow> nat \<Rightarrow> schema \<Rightarrow> json \<Rightarrow> bool" where
  "conforms defs n S_any v \<longleftrightarrow> True"
| "conforms defs n S_string v \<longleftrightarrow> (case v of JString s \<Rightarrow> True | _ \<Rightarrow> False)"
| "conforms defs n S_integer v \<longleftrightarrow> (case v of JNumber t \<Rightarrow> int_text t | _ \<Rightarrow> False)"
| "conforms defs n S_boolean v \<longleftrightarrow> (case v of JBool b \<Rightarrow> True | _ \<Rightarrow> False)"
| "conforms defs n (S_array s) v \<longleftrightarrow> (case v of JArray vs \<Rightarrow> list_all (conforms defs n s) vs | _ \<Rightarrow> False)"
| "conforms defs n (S_object props) v \<longleftrightarrow>
     (case v of
        JObject kvs \<Rightarrow> list_all (\<lambda>(k, s). list_all (\<lambda>(k', x). k' = k \<longrightarrow> conforms defs n s x) kvs) props
      | _ \<Rightarrow> False)"
| "conforms defs n (S_map s) v \<longleftrightarrow> (case v of JObject kvs \<Rightarrow> list_all (\<lambda>(k, x). conforms defs n s x) kvs | _ \<Rightarrow> False)"
| "conforms defs 0 (S_ref r) v \<longleftrightarrow> False"
| "conforms defs (Suc n) (S_ref r) v \<longleftrightarrow> (case map_of defs r of Some s \<Rightarrow> conforms defs n s v | None \<Rightarrow> False)"
  by pat_completeness auto

termination
  by (relation "measures [\<lambda>(defs, n, s, v). n, \<lambda>(defs, n, s, v). size s]") (auto dest: size_member)

definition documented :: "operation \<Rightarrow> http \<Rightarrow> bool" where
  "documented op h \<longleftrightarrow>
     (case map_of (op_Responses op) (status h) of
        None \<Rightarrow> False
      | Some r \<Rightarrow>
          (case rs_Schema r of
             None \<Rightarrow> body h = JNull
           | Some s \<Rightarrow> conforms (sw_Definitions (docTemplate SwaggerInfo)) 2 s (body h)))"

lemma int_text_show_int: "int_text (show_int n)"
proof -
  have ne: "show_nat m \<noteq> []" for m by (subst show_nat.simps) simp
  have hd: "hd (show_nat m) \<noteq> CHR ''-''" for m
  proof
    assume "hd (show_nat m) = CHR ''-''"
    with ne [of m] obtain s where "show_nat m = CHR ''-'' # s" by (cases "show_nat m") auto
    moreover have "digits 0 (CHR ''-'' # s) = None" by (simp add: digit_def)
    ultimately show False using digits_show_nat [of m] by simp
  qed
  show ?thesis using ne hd by (simp add: int_text_def show_int_def digits_show_nat)
qed

definition api_definitions :: "(string \<times> schema) list" where
  "api_definitions = sw_Definitions (docTemplate SwaggerInfo)"

lemma definitions_lookup:
  "map_of api_definitions ''service.TenantResponse'' = Some doc_TenantResponse"
  "map_of api_definitions ''service.MessageResponse'' = Some doc_MessageResponse"
  "map_of api_definitions ''service.CursorPaginationResponse'' = Some doc_CursorPaginationResponse"
  by (simp_all add: api_definitions_def docTemplate_def)

lemma conforms_error [simp]: "conforms defs n (S_map S_string) (err_body m)"
  by (simp add: err_body_def)

lemma conforms_tenant: "conforms api_definitions (Suc n) (S_ref ''service.TenantResponse'') (tenant_json t)"
  by (simp add: definitions_lookup doc_TenantResponse_def tenant_json_def json_int_def int_text_show_int)

lemma conforms_message: "conforms api_definitions (Suc n) (S_ref ''service.MessageResponse'') (message_json m)"
  by (simp add: definitions_lookup doc_MessageResponse_def message_json_def json_int_def int_text_show_int)


section \<open>Routes and operations\<close>

text \<open>
  The documentation writes a parameter of a path in braces, fiber with a colon, and fiber takes a path
  with and without its last slash for the same one.
\<close>

definition pattern_of :: "string \<Rightarrow> string" where
  "pattern_of p = concat (map (\<lambda>c. if c = CHR ''{'' then '':'' else if c = CHR ''}'' then [] else [c]) p)"

definition strip_slash :: "string \<Rightarrow> string" where
  "strip_slash p = (if p \<noteq> [] \<and> last p = CHR ''/'' then butlast p else p)"

definition endpoints :: "route list \<Rightarrow> (string \<times> string \<times> route_handler) list" where
  "endpoints rs = concat (map (\<lambda>r. case rt_Target r of
     Jwt \<Rightarrow> [] | Handler h \<Rightarrow> map (\<lambda>m. (strip_slash (rt_Pattern r), ToLower m, h)) (rt_Methods r)) rs)"

definition documented_endpoints :: "spec_info \<Rightarrow> (string \<times> string) list" where
  "documented_endpoints si = map (\<lambda>(p, m, op). (si_BasePath si @ pattern_of p, m)) (sw_Paths (docTemplate si))"

text \<open>The operation that documents a handler.\<close>

definition doc_of :: "route_handler \<Rightarrow> operation option" where
  "doc_of h =
     (case filter (\<lambda>(p, m, h'). h' = h) (endpoints Router_Register) of
        [] \<Rightarrow> None
      | (p, m, _) # _ \<Rightarrow>
          map_of (map (\<lambda>(q, m, op). ((si_BasePath SwaggerInfo @ pattern_of q, m), op)) (sw_Paths (docTemplate SwaggerInfo))) (p, m))"

lemma lower_methods [simp]:
  "ToLower ''GET'' = ''get''" "ToLower ''HEAD'' = ''head''" "ToLower ''POST'' = ''post''" "ToLower ''PUT'' = ''put''"
  "ToLower ''DELETE'' = ''delete''"
  by code_simp+

lemma endpoints_served:
  "endpoints Router_Register =
     [(''/api/v1/auth/register'', ''post'', H_Register), (''/api/v1/auth/login'', ''post'', H_Login),
      (''/api/v1/tenants'', ''post'', H_createTenant),
      (''/api/v1/tenants'', ''get'', H_ListTenants), (''/api/v1/tenants'', ''head'', H_ListTenants),
      (''/api/v1/tenants/:id'', ''get'', H_GetTenant), (''/api/v1/tenants/:id'', ''head'', H_GetTenant),
      (''/api/v1/tenants/:id'', ''delete'', H_deleteTenant),
      (''/api/v1/tenants/:id/config/concurrency'', ''put'', H_updateConcurrency),
      (''/api/v1/messages'', ''post'', H_CreateMessage),
      (''/api/v1/messages'', ''get'', H_ListMessages), (''/api/v1/messages'', ''head'', H_ListMessages),
      (''/api/v1/messages/:id'', ''get'', H_GetMessage), (''/api/v1/messages/:id'', ''head'', H_GetMessage),
      (''/health'', ''get'', H_health), (''/health'', ''head'', H_health)]"
  by (simp add: endpoints_def Router_Register_def AuthRoutes_Register_def TenantRoutes_Register_def MessageRoutes_Register_def
      Let_def group_path_def Add_def Get_def Use_def strip_slash_def)

lemma documented_paths:
  "map (\<lambda>(q, m, op). ((si_BasePath SwaggerInfo @ pattern_of q, m), op)) (sw_Paths (docTemplate SwaggerInfo)) =
     [((''/api/v1/messages'', ''get''), doc_ListMessages), ((''/api/v1/messages'', ''post''), doc_CreateMessage),
      ((''/api/v1/messages/:id'', ''get''), doc_GetMessage),
      ((''/api/v1/tenants'', ''get''), doc_ListTenants), ((''/api/v1/tenants'', ''post''), doc_CreateTenant),
      ((''/api/v1/tenants/:id'', ''get''), doc_GetTenant), ((''/api/v1/tenants/:id'', ''delete''), doc_DeleteTenant),
      ((''/api/v1/tenants/:id/config/concurrency'', ''put''), doc_UpdateConcurrency)]"
  by (simp add: docTemplate_def SwaggerInfo_def pattern_of_def)

lemma doc_of_simps [simp]:
  "doc_of H_createTenant = Some doc_CreateTenant" "doc_of H_ListTenants = Some doc_ListTenants"
  "doc_of H_GetTenant = Some doc_GetTenant" "doc_of H_deleteTenant = Some doc_DeleteTenant"
  "doc_of H_updateConcurrency = Some doc_UpdateConcurrency" "doc_of H_CreateMessage = Some doc_CreateMessage"
  "doc_of H_ListMessages = Some doc_ListMessages" "doc_of H_GetMessage = Some doc_GetMessage"
  "doc_of H_Register = None" "doc_of H_Login = None" "doc_of H_health = None" "doc_of H_handler_CreateTenant = None"
  "doc_of H_handler_DeleteTenant = None" "doc_of H_handler_UpdateConcurrency = None"
  unfolding doc_of_def documented_paths by (simp_all add: endpoints_served)

text \<open>
  Responses that the documentation leaves out: 500 for the operations that only read, and \<^verbatim>\<open>null\<close> where an
  empty list is answered.
\<close>

definition undocumented :: "route_handler \<Rightarrow> http \<Rightarrow> bool" where
  "undocumented h r \<longleftrightarrow>
     status r = 500 \<and> has_error (body r) \<and> h \<in> {H_ListTenants, H_GetTenant, H_ListMessages, H_GetMessage} \<or>
     status r = 200 \<and> h = H_ListTenants \<and> body r = JNull \<or>
     status r = 200 \<and> h = H_ListMessages \<and> (\<exists>kvs. body r = JObject ((''data'', JNull) # kvs))"


lemma documented_simps [simp]:
  "map_of (op_Responses op) c = Some (error_response x) \<Longrightarrow> documented op (http_err c m)"
  "map_of (op_Responses op) c = Some (schema_response x s) \<Longrightarrow> documented op \<lparr>status = c, body = b\<rparr> \<longleftrightarrow> conforms api_definitions 2 s b"
  by (simp_all add: documented_def error_response_def schema_response_def http_err_def err_body_def api_definitions_def)

lemmas doc_operations = doc_ListMessages_def doc_CreateMessage_def doc_GetMessage_def doc_ListTenants_def doc_CreateTenant_def
  doc_GetTenant_def doc_DeleteTenant_def doc_UpdateConcurrency_def

lemma documented_errors [simp]:
  "documented doc_CreateMessage (http_err 400 m)" "documented doc_CreateMessage (http_err 500 m)"
  "documented doc_GetMessage (http_err 400 m)" "documented doc_GetMessage (http_err 404 m)"
  "documented doc_CreateTenant (http_err 400 m)" "documented doc_CreateTenant (http_err 500 m)"
  "documented doc_GetTenant (http_err 400 m)" "documented doc_GetTenant (http_err 404 m)"
  "documented doc_DeleteTenant (http_err 404 m)" "documented doc_DeleteTenant (http_err 500 m)"
  "documented doc_UpdateConcurrency (http_err 400 m)" "documented doc_UpdateConcurrency (http_err 404 m)"
  "documented doc_UpdateConcurrency (http_err 500 m)"
  by (rule documented_simps(1), simp add: doc_operations; rule refl)+

lemma documented_bodies [simp]:
  "documented doc_CreateTenant \<lparr>status = 201, body = tenant_json t\<rparr>" "documented doc_GetTenant \<lparr>status = 200, body = tenant_json t\<rparr>"
  "documented doc_UpdateConcurrency \<lparr>status = 200, body = tenant_json t\<rparr>"
  "documented doc_CreateMessage \<lparr>status = 201, body = message_json m\<rparr>" "documented doc_GetMessage \<lparr>status = 200, body = message_json m\<rparr>"
  "documented doc_DeleteTenant \<lparr>status = 204, body = JNull\<rparr>"
  using conforms_tenant [of 1] conforms_message [of 1]
  by (simp_all add: documented_def doc_operations schema_response_def numeral_2_eq_2 flip: api_definitions_def del: conforms.simps)



lemma undocumented_500 [simp]:
  "h \<in> {H_ListTenants, H_GetTenant, H_ListMessages, H_GetMessage} \<Longrightarrow> undocumented h (http_err 500 m)"
  by (auto simp: undocumented_def http_err_def err_body_def)





section \<open>The types of dto.go\<close>

text \<open>
  The structs of \<^verbatim>\<open>internal/tenant/dto.go\<close>: for each field its Go type, the key of its tag, whether
  \<^verbatim>\<open>omitempty\<close> is set, and the rules of its \<^verbatim>\<open>validate\<close> tag, which no code of the program reads.
\<close>

datatype go_type = T_string | T_int | T_bool | T_any | T_slice go_type | T_struct string

record field =
  fd_Name :: string
  fd_Type :: go_type
  fd_Key :: string
  fd_Omitempty :: bool
  fd_Validate :: "string list"

definition json_field :: "string \<Rightarrow> go_type \<Rightarrow> string \<Rightarrow> string list \<Rightarrow> field" where
  "json_field n t k rules = \<lparr>fd_Name = n, fd_Type = t, fd_Key = k, fd_Omitempty = False, fd_Validate = rules\<rparr>"

definition omitempty :: "field \<Rightarrow> field" where
  "omitempty f = f\<lparr>fd_Omitempty := True\<rparr>"

definition dto_CreateTenantRequest :: "field list" where
  "dto_CreateTenantRequest =
     [json_field ''Name'' T_string ''name'' [''required'', ''min=3'', ''max=255''],
      omitempty (json_field ''Workers'' T_int ''workers'' [])]"

definition dto_UpdateConcurrencyRequest :: "field list" where
  "dto_UpdateConcurrencyRequest = [json_field ''Workers'' T_int ''workers'' [''required'', ''min=1'', ''max=50'']]"

definition dto_TenantResponse :: "field list" where
  "dto_TenantResponse =
     [json_field ''ID'' T_string ''id'' [], json_field ''Name'' T_string ''name'' [], json_field ''Workers'' T_int ''workers'' [],
      json_field ''CreatedAt'' T_string ''created_at'' [], json_field ''UpdatedAt'' T_string ''updated_at'' []]"

definition dto_CreateMessageRequest :: "field list" where
  "dto_CreateMessageRequest =
     [json_field ''TenantID'' T_string ''tenant_id'' [''required'', ''uuid''], json_field ''Payload'' T_any ''payload'' [''required'']]"

definition dto_MessageResponse :: "field list" where
  "dto_MessageResponse =
     [json_field ''ID'' T_string ''id'' [], json_field ''TenantID'' T_string ''tenant_id'' [], json_field ''Payload'' T_any ''payload'' [],
      json_field ''Status'' T_string ''status'' [], json_field ''RetryCount'' T_int ''retry_count'' [],
      json_field ''CreatedAt'' T_string ''created_at'' [], json_field ''UpdatedAt'' T_string ''updated_at'' []]"

text \<open>The keys of this one are those of a query.\<close>

definition dto_CursorPaginationRequest :: "field list" where
  "dto_CursorPaginationRequest =
     [json_field ''Cursor'' T_string ''cursor'' [], json_field ''Limit'' T_int ''limit'' [''min=1'', ''max=100'']]"

definition dto_CursorPaginationResponse :: "field list" where
  "dto_CursorPaginationResponse =
     [json_field ''Data'' (T_slice (T_struct ''MessageResponse'')) ''data'' [],
      omitempty (json_field ''NextCursor'' T_string ''next_cursor'' []), json_field ''HasMore'' T_bool ''has_more'' []]"

definition dto_LoginRequest :: "field list" where
  "dto_LoginRequest =
     [json_field ''Username'' T_string ''username'' [''required''], json_field ''Password'' T_string ''password'' [''required'']]"

definition dto_LoginResponse :: "field list" where
  "dto_LoginResponse = [json_field ''Token'' T_string ''token'' [], json_field ''Type'' T_string ''type'' []]"

definition dto_ErrorResponse :: "field list" where
  "dto_ErrorResponse =
     [json_field ''Error'' T_string ''error'' [], omitempty (json_field ''Message'' T_string ''message'' [])]"

text \<open>
  What \<^verbatim>\<open>encoding/json\<close> writes for a value of a type: the fields in their order, one with
  \<^verbatim>\<open>omitempty\<close> only if its value is not the zero one; a nil slice is \<^verbatim>\<open>null\<close>.
\<close>

definition zero_value :: "json \<Rightarrow> bool" where
  "zero_value v \<longleftrightarrow> v \<in> {JNull, JString [], JNumber ''0'', JBool False, JArray []}"

fun written :: "(go_type \<Rightarrow> json \<Rightarrow> bool) \<Rightarrow> field list \<Rightarrow> (string \<times> json) list \<Rightarrow> bool" where
  "written P [] kvs \<longleftrightarrow> kvs = []"
| "written P (f # fs) [] \<longleftrightarrow> fd_Omitempty f \<and> written P fs []"
| "written P (f # fs) ((k, v) # kvs) \<longleftrightarrow>
     (if k = fd_Key f then P (fd_Type f) v \<and> (fd_Omitempty f \<longrightarrow> \<not> zero_value v) \<and> written P fs kvs
      else fd_Omitempty f \<and> written P fs ((k, v) # kvs))"

definition plain_value :: "go_type \<Rightarrow> json \<Rightarrow> bool" where
  "plain_value t v \<longleftrightarrow>
     (case t of
        T_string \<Rightarrow> (\<exists>s. v = JString s) | T_int \<Rightarrow> (\<exists>n. v = json_int n) | T_bool \<Rightarrow> (\<exists>b. v = JBool b)
      | T_any \<Rightarrow> True | _ \<Rightarrow> False)"

definition struct_value :: "field list \<Rightarrow> json \<Rightarrow> bool" where
  "struct_value fs v \<longleftrightarrow> (\<exists>kvs. v = JObject kvs \<and> written plain_value fs kvs)"

definition page_value :: "go_type \<Rightarrow> json \<Rightarrow> bool" where
  "page_value t v \<longleftrightarrow>
     (if t = T_slice (T_struct ''MessageResponse'')
      then v = JNull \<or> (\<exists>vs. v = JArray vs \<and> list_all (struct_value dto_MessageResponse) vs)
      else plain_value t v)"

text \<open>The schema that a struct has in the documentation, whose properties are in the order of their keys.\<close>

fun schema_of_type :: "go_type \<Rightarrow> schema" where
  "schema_of_type T_string = S_string"
| "schema_of_type T_int = S_integer"
| "schema_of_type T_bool = S_boolean"
| "schema_of_type T_any = S_any"
| "schema_of_type (T_slice t) = S_array (schema_of_type t)"
| "schema_of_type (T_struct n) = S_ref (''service.'' @ n)"

definition properties_of :: "field list \<Rightarrow> (string \<times> schema) set" where
  "properties_of fs = (\<lambda>f. (fd_Key f, schema_of_type (fd_Type f))) ` set fs"

definition has_properties :: "schema \<Rightarrow> (string \<times> schema) set \<Rightarrow> bool" where
  "has_properties s ps \<longleftrightarrow> (case s of S_object qs \<Rightarrow> set qs = ps | _ \<Rightarrow> False)"

section \<open>Properties\<close>

text \<open>
  The documentation and the table of routes name the same operations. The documented paths and methods
  are exactly those that the server registers, without the implied HEAD, the accounts and the health check,
  and none is documented twice.
\<close>

lemma documented_routes:
  "distinct (documented_endpoints SwaggerInfo) \<and>
   set (documented_endpoints SwaggerInfo) =
     (\<lambda>(p, m, h). (p, m)) ` {e \<in> set (endpoints Router_Register). fst (snd e) \<noteq> ''head'' \<and>
        snd (snd e) \<notin> {H_Register, H_Login, H_health}}"
proof -
  have d: "documented_endpoints SwaggerInfo =
      map fst (map (\<lambda>(q, m, op). ((si_BasePath SwaggerInfo @ pattern_of q, m), op)) (sw_Paths (docTemplate SwaggerInfo)))"
    by (simp add: documented_endpoints_def split_beta o_def)
  have "(\<lambda>(p, m, h). (p, m)) ` {e \<in> set es. P e} = set (map (\<lambda>(p, m, h). (p, m)) (filter P es))"
    for es :: "(string \<times> string \<times> route_handler) list" and P by simp
  then show ?thesis unfolding d documented_paths endpoints_served by (simp only:) auto
qed


lemmas dto_types = dto_CreateTenantRequest_def dto_UpdateConcurrencyRequest_def dto_TenantResponse_def
  dto_CreateMessageRequest_def dto_MessageResponse_def dto_CursorPaginationResponse_def dto_ErrorResponse_def json_field_def omitempty_def

lemma message_written: "struct_value dto_MessageResponse (message_json m)"
  by (simp add: struct_value_def message_json_def dto_types plain_value_def json_int_def) blast

text \<open>
  The types of \<^verbatim>\<open>dto.go\<close> describe what the services answer. The tenants, the messages, the pages and
  the errors of the responses are written exactly as values of the types of that file that have their
  names, and the documentation defines the types it names with the same properties.
\<close>

lemma dto_describes_responses:
  "struct_value dto_TenantResponse (tenant_json t) \<and> struct_value dto_MessageResponse (message_json m) \<and>
   (\<exists>kvs. page_json p = JObject kvs \<and> written page_value dto_CursorPaginationResponse kvs) \<and>
   struct_value dto_ErrorResponse (err_body e) \<and>
   has_properties doc_CreateTenantRequest (properties_of dto_CreateTenantRequest) \<and>
   has_properties doc_UpdateConcurrencyRequest (properties_of dto_UpdateConcurrencyRequest) \<and>
   has_properties doc_TenantResponse (properties_of dto_TenantResponse) \<and>
   has_properties doc_CreateMessageRequest (properties_of dto_CreateMessageRequest) \<and>
   has_properties doc_MessageResponse (properties_of dto_MessageResponse) \<and>
   has_properties doc_CursorPaginationResponse (properties_of dto_CursorPaginationResponse)"
proof (intro conjI)
  show "struct_value dto_TenantResponse (tenant_json t)"
    by (simp add: struct_value_def tenant_json_def dto_types plain_value_def) blast
  show "struct_value dto_MessageResponse (message_json m)" by (rule message_written)
  have "list_all (struct_value dto_MessageResponse) (map message_json (cp_Data p))"
    by (simp add: list_all_iff message_written)
  then show "\<exists>kvs. page_json p = JObject kvs \<and> written page_value dto_CursorPaginationResponse kvs"
    by (auto simp: page_json_def dto_CursorPaginationResponse_def json_field_def omitempty_def json_slice_def page_value_def
        plain_value_def zero_value_def)
  show "struct_value dto_ErrorResponse (err_body e)"
    by (simp add: struct_value_def err_body_def dto_types plain_value_def)
qed (auto simp: has_properties_def properties_of_def dto_types doc_CreateTenantRequest_def doc_UpdateConcurrencyRequest_def
    doc_TenantResponse_def doc_CreateMessageRequest_def doc_MessageResponse_def doc_CursorPaginationResponse_def)

text \<open>
  An empty list is answered as \<^verbatim>\<open>null\<close>, which is no array; and a login answers with a member that
  \<^verbatim>\<open>LoginResponse\<close> of \<^verbatim>\<open>dto.go\<close> does not have.
\<close>

lemma empty_list_undocumented:
  assumes "svc_healthy env" "tenants d = []" "0 \<le> offset"
  shows "snd (handler_ListTenants pg tm env limit offset d) = \<lparr>status = 200, body = JNull\<rparr> \<and>
    \<not> documented doc_ListTenants \<lparr>status = 200, body = JNull\<rparr>"
proof -
  have "\<not> clamp_limit limit < 0" using clamp_limit_range [of limit] by simp
  with assms have "ListTenants pg tm env limit offset d = (d, Inr [])"
    by (simp add: ListTenants_def svc_healthy_def sql_list_tenants_def)
  then show ?thesis
    by (simp add: handler_ListTenants_def json_slice_def documented_def doc_ListTenants_def schema_response_def)
qed

text \<open>The route of the deletion never answers the documented 400.\<close>

lemma deleteTenant_statuses:
  "deleteTenant am pg env t s = Returns (s', h) \<Longrightarrow> status h \<in> {204, 404, 500}"
  by (cases "StopConsumer am t (fst s)") (auto simp: deleteTenant_def http_err_def split_beta split: sum.splits prod.splits)

lemma login_has_more: "\<not> written plain_value dto_LoginResponse [(''token'', JString t), (''type'', JString b), (''user'', u)]"
  by (simp add: dto_LoginResponse_def json_field_def)


end
