(* ===== verification/Lifecycle.thy ===== *)
theory Lifecycle
  imports System Config
begin

text \<open>
  The start and the shutdown of \<^verbatim>\<open>cmd/api/main.go\<close> in the running system: which consumers are registered after
  any sequence of steps, what becomes of the tenants that were in the database when the program started, and
  of those that are created while it shuts down.
\<close>

inductive_cases at_stepE: "sys_step am js cr pg tm s (At t cl) s'"
inductive_cases spawn_stepE: "sys_step am js cr pg tm s (Do_spawn t n r) s'"

section \<open>The registry along a run\<close>

text \<open>Whether a tenant is registered after a step, as the calls of the manager say.\<close>

fun registered_after :: "string \<Rightarrow> bool \<Rightarrow> sys_label \<Rightarrow> bool" where
  "registered_after t b (Do_spawn t' n r) \<longleftrightarrow> b \<or> t' = t \<and> \<not> isl r"
| "registered_after t b (Do_stop t' r) \<longleftrightarrow> b \<and> t' \<noteq> t"
| "registered_after t b Shut_down \<longleftrightarrow> False"
| "registered_after t b _ \<longleftrightarrow> b"

lemma registered_consumers: "map fst (consumers m') = map fst (consumers m) \<Longrightarrow> registered m' = registered m"
  by (simp add: registered_def ListConsumers_def)

lemma sys_step_registry:
  assumes "sys_step am js cr pg tm s l s'" "sys_ok pg s"
  shows "t \<in> registered (sy_mgr s') \<longleftrightarrow> registered_after t (t \<in> registered (sy_mgr s)) l"
proof -
  have ok: "world_ok (sy_mgr s)" using assms(2) by (simp add: sys_ok_def app_ok_def)
  from assms(1) show ?thesis
  proof cases
    case (spawn t' n m' ru)
    with manager.spawn_reg [OF ok spawn(4)] show ?thesis by auto
  next
    case (stop t' m' ru)
    with manager.stop_total [OF ok, of am t'] show ?thesis by auto
  next
    case (resize t' n m' ru)
    with manager.resize_total [OF ok, of t' n] show ?thesis by auto
  next
    case (at_registered t' c cl c' d')
    then show ?thesis by (simp add: registered_def)
  next
    case (shut m' cs)
    have "ShutdownAll am (fst (sy_mgr s), snd (sy_mgr s)) = Returns (m', cs)" using shut(3) by simp
    with ShutdownAll_contract [OF ok, of am "fst (sy_mgr s)"] shut(1,2) show ?thesis
      by (auto simp: registered_def ListConsumers_def)
  qed simp_all
qed

text \<open>The system, seen as a registry of names.\<close>

definition registry_step :: "string set \<Rightarrow> sys_label \<Rightarrow> string set \<Rightarrow> bool" where
  "registry_step R l R' \<longleftrightarrow> R' = {t. registered_after t (t \<in> R) l}"

interpretation sys_registry: simulation "sys_step am js cr pg tm" "sys_ok pg" registry_step "\<lambda>s. registered (sy_mgr s)" "\<lambda>l. l"
  for am :: "'w amqp" and js cr pg tm
  by unfold_locales (auto simp: registry_step_def sys_step_registry)

lemma run_registry_step: "run registry_step R ls R' \<Longrightarrow> R' = {t. foldl (registered_after t) (t \<in> R) ls}"
proof (induction ls arbitrary: R)
  case (Cons l ls)
  then obtain u where u: "registry_step R l u" "run registry_step u ls R'" by auto
  from Cons.IH [OF u(2)] u(1) show ?case by (simp add: registry_step_def)
qed simp

lemma run_registry:
  "run (sys_step am js cr pg tm) s ls s' \<Longrightarrow> sys_ok pg s \<Longrightarrow>
     registered (sy_mgr s') = {t. foldl (registered_after t) (t \<in> registered (sy_mgr s)) ls}"
  using run_registry_step [OF sys_registry.run_sim] by simp

section \<open>Tenants without a consumer\<close>

text \<open>A step that may remove a tenant's row.\<close>

fun deletes :: "pg_server \<Rightarrow> string \<Rightarrow> sys_label \<Rightarrow> bool" where
  "deletes pg u (Req_delete env t r) \<longleftrightarrow> uuid_in pg t = Some u"
| "deletes pg u _ \<longleftrightarrow> False"

definition has_row :: "string \<Rightarrow> db \<Rightarrow> bool" where
  "has_row u d \<longleftrightarrow> u \<in> t_id ` set (tenants d)"

lemma request_has_row:
  assumes "has_row u d"
  shows "has_row u (fst (CreateTenant pg tm env req d))"
    "uuid_in pg t \<noteq> Some u \<Longrightarrow> has_row u (fst (DeleteTenant pg env t d))"
    "has_row u (fst (TenantService_UpdateConcurrency pg tm env t n d))"
proof -
  show "has_row u (fst (CreateTenant pg tm env req d))"
    unfolding service_state
    by (rule with_fault_keeps [rotated])
      (use assms in \<open>auto simp: has_row_def sql_insert_tenant_def Let_def split: option.split\<close>)
  show "has_row u (fst (DeleteTenant pg env t d))" if "uuid_in pg t \<noteq> Some u"
    unfolding service_state
    by (rule with_fault_keeps [rotated])
      (use assms that in \<open>auto simp: has_row_def sql_delete_tenant_def keys_delete_by split: option.split\<close>)
  show "has_row u (fst (TenantService_UpdateConcurrency pg tm env t n d))"
    unfolding service_state
    using with_fault_keeps [of "has_row u" d "sql_update_concurrency pg (se_now env) t n" "se_fault env"] assms
    by (simp add: has_row_def sql_update_concurrency_def Let_def image_t_id_update_by split: option.split)
qed

text \<open>A stored tenant that has no consumer, none that is stopping, and no request on its way to spawn one.\<close>

definition unserved :: "string \<Rightarrow> 'w system \<Rightarrow> bool" where
  "unserved u s \<longleftrightarrow> has_row u (sy_db s) \<and> u \<notin> registered (sy_mgr s) \<and> u \<notin> fst ` set (sy_stopping s) \<and>
     (\<forall>n. Pend_spawn u n \<notin># sy_pending s)"

lemma in_stopped: "kc \<in> set (stopped t mg) \<Longrightarrow> fst kc = t \<and> t \<in> fst ` set (mg_consumers mg)"
  using map_of_eq_None_iff [of "mg_consumers mg" t] by (auto simp: stopped_def split: option.splits)

lemma sys_step_has_row:
  assumes "sys_step am js cr pg tm s l s'" "has_row u (sy_db s)" "\<not> deletes pg u l"
  shows "has_row u (sy_db s')"
  using assms
proof (induction rule: sys_step.induct)
  case (create env req s d' r)
  with request_has_row(1) [OF create(2), of pg tm env req] show ?case by simp
next
  case (delete env t s d' ru)
  with request_has_row(2) [OF delete(2), of pg t env] show ?case by simp
next
  case (update env t n s d' r)
  with request_has_row(3) [OF update(2), of pg tm env t n] show ?case by simp
next
  case (message env mreq s d' rm)
  with request_tenant_ids(4) [of pg js tm env mreq "sy_db s"] show ?case by (simp add: has_row_def)
next
  case (user aenv un pw t role s d' rus)
  with request_tenant_ids(5) [of cr pg aenv un pw t role "sy_db s"] show ?case by (simp add: has_row_def)
qed (auto simp: has_row_def dest: consumer_step_tenants)

lemma fst_list_update:
  "i < length xs \<Longrightarrow> xs ! i = (t, c) \<Longrightarrow> fst ` set (xs[i := (t, c')]) = fst ` set xs"
proof -
  assume "i < length xs" "xs ! i = (t, c)"
  then have "map fst (xs[i := (t, c')]) = map fst xs" by (simp add: map_update list_update_same_conv)
  then show ?thesis by (metis set_map)
qed

lemma sys_step_unserved:
  assumes "sys_step am js cr pg tm s l s'" "sys_ok pg s" "unserved u s" "\<not> deletes pg u l"
  shows "unserved u s' \<and> (\<forall>cl. l \<noteq> At u cl)"
proof -
  have s: "has_row u (sy_db s)" "u \<notin> registered (sy_mgr s)" "u \<notin> fst ` set (sy_stopping s)"
    "\<And>n. Pend_spawn u n \<notin># sy_pending s" using assms(3) by (simp_all add: unserved_def)
  have ok: "uuid_lawful pg \<and> db_ok pg (sy_db s)" using assms(2) by (simp add: sys_ok_def app_ok_def)
  have reg: "registered (sy_mgr s) = fst ` set (consumers (sy_mgr s))" by (simp add: registered_def ListConsumers_def)
  have at: "l \<noteq> At u cl" for cl
  proof
    assume "l = At u cl"
    with assms(1) have "sys_step am js cr pg tm s (At u cl) s'" by simp
    then have "u \<in> fst ` set (consumers (sy_mgr s)) \<or> u \<in> fst ` set (sy_stopping s)"
      by (rule at_stepE) (auto dest!: map_of_SomeD nth_mem intro: rev_image_eqI)
    with s(2,3) show False by (simp add: reg)
  qed
  have spawn: "l \<noteq> Do_spawn u n r" for n r using assms(1) s(4) by (auto elim: spawn_stepE)
  then have "\<not> registered_after u False l" by (cases l) auto
  then have r: "u \<notin> registered (sy_mgr s')" using sys_step_registry [OF assms(1,2), of u] s(2) by simp
  have "u \<notin> fst ` set (sy_stopping s') \<and> (\<forall>n. Pend_spawn u n \<notin># sy_pending s')"
    using assms(1)
  proof cases
    case (create env req d' r)
    have "tr_ID x \<noteq> u" if "r = Inr x" for x
      using tenants.create_Inr [OF ok, of tm env req d' x] create(3) that s(1) dom_tenant_view [of u tm "sy_db s"]
      by (auto simp: has_row_def)
    then show ?thesis using s(3,4) create(2) by (auto simp: spawn_next_def split: sum.splits)
  next
    case (stop t m' ru)
    then show ?thesis using s by (auto simp: reg dest!: in_stopped dest: in_diffD)
  next
    case (shut m' cs)
    have "fst ` set (zip (ListConsumers (snd (sy_mgr s))) cs) \<subseteq> registered (sy_mgr s)"
      by (auto simp: registered_def dest: set_zip_leftD)
    then show ?thesis using s shut(2) by auto
  next
    case (resize_late i n t c)
    then show ?thesis using s(3,4) fst_list_update [OF resize_late(4,5)] by (auto dest: in_diffD)
  next
    case (at_stopping i t c cl c' d')
    then show ?thesis using s(3,4) fst_list_update [OF at_stopping(3,4)] by simp
  qed (use s in \<open>auto simp: next_call_def dest: in_diffD split: sum.splits\<close>)
  with r at sys_step_has_row [OF assms(1) s(1) assms(4)] show ?thesis by (simp add: unserved_def)
qed

lemma run_unserved:
  "run (sys_step am js cr pg tm) s ls s' \<Longrightarrow> sys_ok pg s \<Longrightarrow> unserved u s \<Longrightarrow> \<forall>l \<in> set ls. \<not> deletes pg u l \<Longrightarrow>
     unserved u s' \<and> (\<forall>cl. At u cl \<notin> set ls)"
proof (induction ls arbitrary: s)
  case (Cons l ls)
  then obtain s1 where s1: "sys_step am js cr pg tm s l s1" "run (sys_step am js cr pg tm) s1 ls s'" by auto
  with Cons.IH [OF s1(2) sys_step_ok [OF Cons.prems(2) s1(1)]] sys_step_unserved [OF s1(1) Cons.prems(2,3)] Cons.prems(4)
  show ?case by auto
qed simp

section \<open>Properties\<close>

lemma sys_init_served: "mgr_ok mg \<Longrightarrow> mg_consumers mg = [] \<Longrightarrow> uuid_lawful pg \<Longrightarrow> db_ok pg d \<Longrightarrow> sys_ok pg (sys_init (w, mg) d)"
  by (simp add: sys_ok_def app_ok_def sys_init_def)

text \<open>
  C11: after a restart. A tenant that is in the database when the program starts gets no consumer:
  in every run in which no request deletes it, whatever else is requested, it keeps its row and never has a
  registered consumer, no delivery of its queue is taken and no worker works for it, and resizing
  or stopping its consumer reports that there is none.
\<close>

theorem restart_leaves_tenants_unserved:
  assumes "startup am pd env so po gu w = Inr ((w0, mg0), c, cfg)"
    and "1 \<le> getEnvAsInt env ''DEFAULT_WORKERS'' 3" "1 \<le> getEnvAsInt env ''MAX_WORKERS'' 50"
    "getEnvAsInt env ''MAX_WORKERS'' 50 < 2 ^ 31"
    and "uuid_lawful pg" "db_ok pg d" "u \<in> t_id ` set (tenants d)"
    and "run (sys_step am js cr pg tm) (sys_init (w0, mg0) d) ls s" "\<forall>l \<in> set ls. \<not> deletes pg u l"
  shows "u \<in> t_id ` set (tenants (sy_db s)) \<and> u \<notin> registered (sy_mgr s) \<and> (\<forall>cl. At u cl \<notin> set ls) \<and>
    UpdateConcurrency u n (sy_mgr s) = Returns (sy_mgr s, Inl (err_not_found u)) \<and>
    StopConsumer am u (sy_mgr s) = Returns (sy_mgr s, Inl (err_not_found u))"
proof -
  have e: "mg_consumers mg0 = []" using startup_Inr [OF assms(1)] by simp
  from startup_limits [OF assms(1-4)] have "sys_ok pg (sys_init (w0, mg0) d)"
    by (rule sys_init_served) (use e assms(5,6) in simp_all)
  moreover have "unserved u (sys_init (w0, mg0) d)"
    using assms(7) e by (simp add: unserved_def has_row_def sys_init_def registered_def ListConsumers_def)
  ultimately have "unserved u s \<and> (\<forall>cl. At u cl \<notin> set ls)" by (rule run_unserved [OF assms(8) _ _ assms(9)])
  then show ?thesis using manager.resize_miss [of u "sy_mgr s" n] manager.stop_miss [of u "sy_mgr s" am]
    by (simp add: unserved_def has_row_def)
qed

text \<open>
  C22: the order of the shutdown. \<^verbatim>\<open>main\<close> shuts the consumers down while the server still accepts
  requests, and never again. The consumers that are registered when the program ends are those spawned after that and not
  stopped since, none of them was signalled; without such a tenant there is none.
\<close>

theorem shutdown_misses_late_tenants:
  assumes "sys_ok pg s" "run (sys_step am js cr pg tm) s (Shut_down # ls) s'"
  shows "registered (sy_mgr s') = {t. foldl (registered_after t) False ls} \<and>
    (\<forall>t c. map_of (mg_consumers (snd (sy_mgr s'))) t = Some c \<longrightarrow>
       \<not> ch_closed (tc_Done c) \<and> \<not> ch_closed (wp_doneChan (tc_WorkerPool c))) \<and>
    ((\<forall>t n. Do_spawn t n (Inr ()) \<notin> set ls) \<longrightarrow> registered (sy_mgr s') = {})"
proof -
  have reg: "registered (sy_mgr s') = {t. foldl (registered_after t) False ls}"
    using run_registry [OF assms(2,1)] by simp
  have "mgr_ok (snd (sy_mgr s'))" using sys.run_inv [OF assms(2,1)] by (simp add: sys_ok_def app_ok_def)
  note ok = mgr_okD [OF this]
  have "\<not> foldl (registered_after t) False ls" if "\<forall>t n. Do_spawn t n (Inr ()) \<notin> set ls" for t
    using that
  proof (induction ls)
    case (Cons l ls)
    have "\<not> registered_after t False l"
    proof (cases l)
      case (Do_spawn t' n r)
      then have "r \<noteq> Inr ()" using Cons.prems by auto
      then show ?thesis using Do_spawn by (cases r) auto
    qed simp_all
    with Cons show ?case by simp
  qed simp
  with reg ok show ?thesis by (auto simp: consumer_ok_def)
qed

section \<open>Witnesses\<close>

lemma sample_resize_request:
  "\<exists>d' x. TenantService_UpdateConcurrency sample_pg sample_time (sample_env [] 7) uuid_a 5 tenant_db = (d', Inr x)"
  by (simp add: TenantService_UpdateConcurrency_def sample_env_def sql_update_concurrency_def int4_ok_def Let_def
      tenant_db_def sample_tenant_def find_by_def)

theorem restart_leaves_tenants_unserved_witness:
  "\<exists>m0 c cfg x s. startup mem_amqp sample_ParseDuration (sample_environ 5) (Inr ()) (Inr ()) (Inr ()) mem_empty = Inr (m0, c, cfg) \<and>
     run (sys_step mem_amqp sample_js sample_crypto sample_pg sample_time) (sys_init m0 tenant_db)
       [Req_update (sample_env [] 7) uuid_a 5 (Inr x), Do_resize uuid_a 5 (Inl (err_not_found uuid_a))] s \<and>
     uuid_a \<in> t_id ` set (tenants (sy_db s)) \<and> uuid_a \<notin> registered (sy_mgr s)"
proof -
  let ?S = "sys_step mem_amqp sample_js sample_crypto sample_pg sample_time"
  from sample_startup [of mem_amqp 5] obtain w0 mg0 c cfg where
    s: "startup mem_amqp sample_ParseDuration (sample_environ 5) (Inr ()) (Inr ()) (Inr ()) mem_empty = Inr ((w0, mg0), c, cfg)"
    by auto
  let ?s = "sys_init (w0, mg0) tenant_db"
  have lim: "1 \<le> getEnvAsInt (sample_environ 5) ''DEFAULT_WORKERS'' 3" "1 \<le> getEnvAsInt (sample_environ 5) ''MAX_WORKERS'' 50"
    "getEnvAsInt (sample_environ 5) ''MAX_WORKERS'' 50 < 2 ^ 31" by (simp_all add: sample_environ_int)
  have row: "uuid_a \<in> t_id ` set (tenants tenant_db)" by (simp add: tenant_db_def sample_tenant_def)
  from sample_resize_request obtain d' x where
    "TenantService_UpdateConcurrency sample_pg sample_time (sample_env [] 7) uuid_a 5 (sy_db ?s) = (d', Inr x)"
    by (auto simp: sys_init_def)
  from sys_step.update [OF this, of mem_amqp sample_js sample_crypto]
  have a: "?S ?s (Req_update (sample_env [] 7) uuid_a 5 (Inr x)) (?s\<lparr>sy_db := d', sy_pending := {#Pend_resize uuid_a 5#}\<rparr>)"
    by (simp add: next_call_def sys_init_def)
  have "UpdateConcurrency uuid_a 5 (w0, mg0) = Returns ((w0, mg0), Inl (err_not_found uuid_a))"
    using startup_Inr [OF s] UpdateConcurrency_miss [of "(w0, mg0)" uuid_a 5] by simp
  then have b: "?S (?s\<lparr>sy_db := d', sy_pending := {#Pend_resize uuid_a 5#}\<rparr>) (Do_resize uuid_a 5 (Inl (err_not_found uuid_a)))
      (?s\<lparr>sy_db := d', sy_pending := {#}\<rparr>)"
    using sys_step.lookup_fails [of uuid_a 5 "?s\<lparr>sy_db := d', sy_pending := {#Pend_resize uuid_a 5#}\<rparr>" "(w0, mg0)"
        "err_not_found uuid_a" mem_amqp sample_js sample_crypto sample_pg sample_time] by (simp add: sys_init_def)
  have r: "run ?S ?s [Req_update (sample_env [] 7) uuid_a 5 (Inr x), Do_resize uuid_a 5 (Inl (err_not_found uuid_a))]
      (?s\<lparr>sy_db := d', sy_pending := {#}\<rparr>)"
    using a b by - (rule run_ConsI, assumption, rule run_ConsI, assumption, rule run_NilI)
  from restart_leaves_tenants_unserved [OF s lim sample_uuid_lawful tenant_db_ok row r] s r show ?thesis
    by (intro exI conjI) (assumption, assumption, simp_all)
qed

theorem shutdown_misses_late_tenants_witness:
  "\<exists>s'. run (sys_step mem_amqp sample_js sample_crypto sample_pg sample_time) (sys_init (mem_empty, sample_manager) db_empty)
      [Shut_down, Req_create (sample_env uuid_a 1000) (sample_request 90) (Inr (scan_tenant sample_time (sample_tenant 3 1000))),
       Do_spawn uuid_a 3 (Inr ())] s' \<and>
    registered (sy_mgr s') = {uuid_a}"
proof -
  let ?S = "sys_step mem_amqp sample_js sample_crypto sample_pg sample_time"
    and ?s = "sys_init (mem_empty, sample_manager) db_empty" and ?t = "scan_tenant sample_time (sample_tenant 3 1000)"
  have t: "tr_ID ?t = uuid_a" "tr_Workers ?t = 3" by (simp_all add: scan_tenant_def sample_tenant_def)
  have mg: "sample_manager\<lparr>mg_consumers := []\<rparr> = sample_manager" by (simp add: sample_manager_def NewManager_def)
  have ok: "sys_ok sample_pg ?s"
    by (rule sys_init_served [OF sample_manager_ok sample_uuid_lawful db_ok_empty])
  have "ShutdownAll mem_amqp (sy_mgr ?s) = Returns ((mem_empty, sample_manager), [])"
    using ShutdownAll_contract [OF sample_manager_ok(1), of mem_amqp mem_empty] by (simp add: sys_init_def sample_manager_ok mg)
  from sys_step.shut [OF this, of sample_js sample_crypto sample_pg sample_time]
  have a: "?S ?s Shut_down ?s" by (simp add: sys_init_def ListConsumers_def sample_manager_ok)
  have "CreateTenant sample_pg sample_time (sample_env uuid_a 1000) (sample_request 90) (sy_db ?s) = (tenant_db, Inr ?t)"
    using sample_create [of sample_time] by (simp add: tenant_db_def sys_init_def)
  from sys_step.create [OF this, of mem_amqp sample_js sample_crypto]
  have b: "?S ?s (Req_create (sample_env uuid_a 1000) (sample_request 90) (Inr ?t))
      (?s\<lparr>sy_db := tenant_db, sy_pending := {#Pend_spawn uuid_a 3#}\<rparr>)" by (simp add: spawn_next_def t sys_init_def)
  have "map_of (mg_consumers sample_manager) uuid_a = None" by (simp add: sample_manager_ok)
  from mem_spawn [OF sample_manager_ok(1) this, of 3 mem_empty] obtain m' where
    "SpawnConsumer mem_amqp uuid_a 3 (mem_empty, sample_manager) = Returns (m', Inr ())" ..
  then have c: "?S (?s\<lparr>sy_db := tenant_db, sy_pending := {#Pend_spawn uuid_a 3#}\<rparr>) (Do_spawn uuid_a 3 (Inr ()))
      (?s\<lparr>sy_mgr := m', sy_db := tenant_db, sy_pending := {#}\<rparr>)"
    using sys_step.spawn [of uuid_a 3 "?s\<lparr>sy_db := tenant_db, sy_pending := {#Pend_spawn uuid_a 3#}\<rparr>" mem_amqp m' "Inr ()"]
    by (simp add: sys_init_def)
  have r: "run ?S ?s [Shut_down, Req_create (sample_env uuid_a 1000) (sample_request 90) (Inr ?t), Do_spawn uuid_a 3 (Inr ())]
      (?s\<lparr>sy_mgr := m', sy_db := tenant_db, sy_pending := {#}\<rparr>)"
    using a b c by - (rule run_ConsI, assumption, rule run_ConsI, assumption, rule run_ConsI, assumption, rule run_NilI)
  have "registered m' = {uuid_a}" using shutdown_misses_late_tenants [OF ok r] by auto
  with r show ?thesis by (intro exI conjI) (assumption, simp)
qed

end
