(* ===== verification/Broker_Life.thy ===== *)
theory Broker_Life
  imports Lifecycle
begin

text \<open>
  What the running program leaves at the broker. \<^verbatim>\<open>DeleteTenantQueues\<close> (theory \<open>Tenant_Manager\<close>) is the only
  operation that removes anything there, and no part of the program calls it: the topology only grows.
\<close>

section \<open>A topology that grows\<close>

definition extends :: "topology \<Rightarrow> topology \<Rightarrow> bool" where
  "extends T T' \<longleftrightarrow> dom (exchanges T) \<subseteq> dom (exchanges T') \<and> dom (queues T) \<subseteq> dom (queues T') \<and>
     bindings T \<subseteq> bindings T'"

lemma extends_refl [simp, intro]: "extends T T"
  by (simp add: extends_def)

lemma extends_trans: "extends T U \<Longrightarrow> extends U V \<Longrightarrow> extends T V"
  unfolding extends_def by blast

lemma extends_declared:
  "extends T (add_exchange n k T)" "extends T (add_queue n args T)" "extends T (add_binding q k x T)"
  by (auto simp: extends_def topology_defs)

text \<open>Everything \<^verbatim>\<open>declareTenantQueues\<close> declares for a tenant.\<close>

definition declared :: "string \<Rightarrow> topology \<Rightarrow> bool" where
  "declared t T \<longleftrightarrow> main_queue_name t \<in> dom (queues T) \<and> dlq_name t \<in> dom (queues T) \<and>
     dlx_name t \<in> dom (exchanges T) \<and> (dlq_name t, [], dlx_name t) \<in> bindings T"

lemma declared_mono: "declared t T \<Longrightarrow> extends T T' \<Longrightarrow> declared t T'"
  unfolding declared_def extends_def by blast

section \<open>The operations at the broker\<close>

lemma DeclareTenantQueue_extends:
  assumes "broker_lawful am view" "DeclareTenantQueue am ch tid ttl w = (w', r)"
  shows "extends (view w) (view w') \<and> (\<not> isl r \<longrightarrow> declared tid (view w'))"
  using assms(2)
  by (auto simp: DeclareTenantQueue_def Let_def extends_def declared_def topology_defs
      dest!: call_effect [OF assms(1)] split: prod.splits sum.splits)

lemma SpawnConsumer_extends:
  assumes "broker_lawful am view" "SpawnConsumer am t n s = Returns (s', r)"
  shows "extends (view (fst s)) (view (fst s')) \<and> (\<not> isl r \<longrightarrow> declared t (view (fst s')))"
proof -
  note v = broker_lawfulD(1,2) [OF assms(1)]
  obtain w mg where s: "s = (w, mg)" by force
  obtain w0 rc where ch: "am_Channel am (mg_rmConn mg) w = (w0, rc)" by force
  have w0: "view w0 = view w" using v(1) [of "mg_rmConn mg" w] ch by simp
  obtain w1 rd where d: "DeclareTenantQueue am (projr rc) t (mg_messageTTL mg) w0 = (w1, rd)" by force
  from DeclareTenantQueue_extends [OF assms(1) d] assms(2) ch d w0 show ?thesis
    by (auto simp: s SpawnConsumer_def declareTenantQueues_eq v(2) split: if_splits sum.splits prod.splits outcome.splits)
qed

section \<open>The operations in the system\<close>

abbreviation at_broker :: "('w \<Rightarrow> topology) \<Rightarrow> 'w system \<Rightarrow> topology" where
  "at_broker view s \<equiv> view (fst (sy_mgr s))"

lemma sys_step_extends:
  assumes "broker_lawful am view" "sys_step am js cr pg tm s l s'"
  shows "extends (at_broker view s) (at_broker view s') \<and>
    (\<forall>t n. l = Do_spawn t n (Inr ()) \<longrightarrow> declared t (at_broker view s'))"
  using assms(2)
proof cases
  case (spawn t n m' ru)
  with SpawnConsumer_extends [OF assms(1) spawn(4)] show ?thesis by auto
next
  case (stop t m' ru)
  with StopConsumer_view [where view = view, OF stop(4)] broker_lawfulD(2) [OF assms(1)] show ?thesis by simp
next
  case (resize t n m' ru)
  with UpdateConcurrency_world [OF resize(4)] show ?thesis by simp
next
  case (shut m' cs)
  with ShutdownAll_view [where view = view, OF shut(3)] broker_lawfulD(2) [OF assms(1)] show ?thesis by simp
qed simp_all

lemma run_extends:
  "run (sys_step am js cr pg tm) s ls s' \<Longrightarrow> broker_lawful am view \<Longrightarrow>
     extends (at_broker view s) (at_broker view s') \<and>
     (\<forall>t n. Do_spawn t n (Inr ()) \<in> set ls \<longrightarrow> declared t (at_broker view s'))"
proof (induction ls arbitrary: s)
  case (Cons l ls)
  then obtain u where u: "sys_step am js cr pg tm s l u" "run (sys_step am js cr pg tm) u ls s'" by auto
  from Cons.IH [OF u(2) Cons.prems(2)] sys_step_extends [OF Cons.prems(2) u(1)] show ?case
    by (auto intro: extends_trans declared_mono)
qed simp

section \<open>Properties\<close>

text \<open>
  C31: what deleting a tenant leaves at the broker. Along every run of the system no queue, no exchange and no binding is
  ever removed; what a successful spawn declared for its tenant, its main queue, its dead letter queue and its
  dead letter exchange with their binding, is still there at the end, whether the tenant was deleted, its consumer stopped or
  all consumers shut down since.
\<close>

theorem queues_outlive_tenants:
  assumes "broker_lawful am view" "run (sys_step am js cr pg tm) s ls s'"
  shows "dom (queues (view (fst (sy_mgr s)))) \<subseteq> dom (queues (view (fst (sy_mgr s')))) \<and>
    dom (exchanges (view (fst (sy_mgr s)))) \<subseteq> dom (exchanges (view (fst (sy_mgr s')))) \<and>
    bindings (view (fst (sy_mgr s))) \<subseteq> bindings (view (fst (sy_mgr s'))) \<and>
    (\<forall>t n. Do_spawn t n (Inr ()) \<in> set ls \<longrightarrow> declared t (view (fst (sy_mgr s'))))"
  using run_extends [OF assms(2,1)] by (simp add: extends_def)

section \<open>Witness\<close>

text \<open>A tenant that is created, gets its consumer, is deleted and has its consumer stopped.\<close>

lemma sample_life:
  "\<exists>s'. run (sys_step mem_amqp sample_js sample_crypto sample_pg sample_time) (sys_init (mem_empty, sample_manager) db_empty)
      [Req_create (sample_env uuid_a 1000) (sample_request 90) (Inr (scan_tenant sample_time (sample_tenant 3 1000))),
       Do_spawn uuid_a 3 (Inr ()), Req_delete (sample_env [] 5) uuid_a (Inr ()), Do_stop uuid_a (Inr ())] s' \<and>
    tenants (sy_db s') = [] \<and> registered (sy_mgr s') = {}"
proof -
  let ?S = "sys_step mem_amqp sample_js sample_crypto sample_pg sample_time"
    and ?s = "sys_init (mem_empty, sample_manager) db_empty" and ?t = "scan_tenant sample_time (sample_tenant 3 1000)"
  have t: "tr_ID ?t = uuid_a" "tr_Workers ?t = 3" by (simp_all add: scan_tenant_def sample_tenant_def)
  have "CreateTenant sample_pg sample_time (sample_env uuid_a 1000) (sample_request 90) (sy_db ?s) = (tenant_db, Inr ?t)"
    using sample_create [of sample_time] by (simp add: tenant_db_def sys_init_def)
  from sys_step.create [OF this, of mem_amqp sample_js sample_crypto]
  have a: "?S ?s (Req_create (sample_env uuid_a 1000) (sample_request 90) (Inr ?t))
      (?s\<lparr>sy_db := tenant_db, sy_pending := {#Pend_spawn uuid_a 3#}\<rparr>)" by (simp add: spawn_next_def t sys_init_def)
  have "map_of (mg_consumers sample_manager) uuid_a = None" by (simp add: sample_manager_ok)
  from mem_spawn [OF sample_manager_ok(1) this, of 3 mem_empty] obtain m' where
    m': "SpawnConsumer mem_amqp uuid_a 3 (mem_empty, sample_manager) = Returns (m', Inr ())" ..
  then have b: "?S (?s\<lparr>sy_db := tenant_db, sy_pending := {#Pend_spawn uuid_a 3#}\<rparr>) (Do_spawn uuid_a 3 (Inr ()))
      (?s\<lparr>sy_mgr := m', sy_db := tenant_db, sy_pending := {#}\<rparr>)"
    using sys_step.spawn [of uuid_a 3 "?s\<lparr>sy_db := tenant_db, sy_pending := {#Pend_spawn uuid_a 3#}\<rparr>" mem_amqp m' "Inr ()"]
    by (simp add: sys_init_def)
  obtain d' where d': "DeleteTenant sample_pg (sample_env [] 5) uuid_a tenant_db = (d', Inr ())"
    using tenants.create_delete [OF conjI [OF sample_uuid_lawful db_ok_empty] sample_create, of "sample_env [] 5" sample_time]
    by (auto simp: tenant_db_def t)
  have e: "tenants d' = []"
    using d' by (auto simp add: DeleteTenant_def sample_env_def sql_delete_tenant_def tenant_db_def sample_tenant_def delete_by_def split: if_splits)
  from d' have c: "?S (?s\<lparr>sy_mgr := m', sy_db := tenant_db, sy_pending := {#}\<rparr>) (Req_delete (sample_env [] 5) uuid_a (Inr ()))
      (?s\<lparr>sy_mgr := m', sy_db := d', sy_pending := {#Pend_stop uuid_a#}\<rparr>)"
    using sys_step.delete [of sample_pg "sample_env [] 5" uuid_a "?s\<lparr>sy_mgr := m', sy_db := tenant_db, sy_pending := {#}\<rparr>" d' "Inr ()"]
    by (simp add: next_call_def)
  have ok: "world_ok (mem_empty, sample_manager)" by (simp add: sample_manager_ok)
  from manager.spawn_stop [OF ok m'] obtain m2 where
    m2: "StopConsumer mem_amqp uuid_a m' = Returns (m2, Inr ())" "registered m2 = {}"
    by (auto simp: registered_def ListConsumers_def sample_manager_ok)
  let ?s4 = "stop_consumers (stopped uuid_a (snd m')) (?s\<lparr>sy_mgr := m2, sy_db := d', sy_pending := {#}\<rparr>)"
  have d: "?S (?s\<lparr>sy_mgr := m', sy_db := d', sy_pending := {#Pend_stop uuid_a#}\<rparr>) (Do_stop uuid_a (Inr ())) ?s4"
    using sys_step.stop [of uuid_a "?s\<lparr>sy_mgr := m', sy_db := d', sy_pending := {#Pend_stop uuid_a#}\<rparr>" mem_amqp m2 "Inr ()"] m2(1)
    by (simp add: sys_init_def)
  from a b c d have "run ?S ?s [Req_create (sample_env uuid_a 1000) (sample_request 90) (Inr ?t), Do_spawn uuid_a 3 (Inr ()),
      Req_delete (sample_env [] 5) uuid_a (Inr ()), Do_stop uuid_a (Inr ())] ?s4"
    by - (rule run_ConsI, assumption, rule run_ConsI, assumption, rule run_ConsI, assumption, rule run_ConsI, assumption, rule run_NilI)
  with e m2(2) show ?thesis by (intro exI [of _ ?s4] conjI) simp_all
qed

theorem queues_outlive_tenants_witness:
  "\<exists>s'. run (sys_step mem_amqp sample_js sample_crypto sample_pg sample_time) (sys_init (mem_empty, sample_manager) db_empty)
      [Req_create (sample_env uuid_a 1000) (sample_request 90) (Inr (scan_tenant sample_time (sample_tenant 3 1000))),
       Do_spawn uuid_a 3 (Inr ()), Req_delete (sample_env [] 5) uuid_a (Inr ()), Do_stop uuid_a (Inr ())] s' \<and>
    tenants (sy_db s') = [] \<and> declared uuid_a (mb_topology (fst (sy_mgr s')))"
proof -
  from sample_life obtain s' where s': "run (sys_step mem_amqp sample_js sample_crypto sample_pg sample_time)
      (sys_init (mem_empty, sample_manager) db_empty)
      [Req_create (sample_env uuid_a 1000) (sample_request 90) (Inr (scan_tenant sample_time (sample_tenant 3 1000))),
       Do_spawn uuid_a 3 (Inr ()), Req_delete (sample_env [] 5) uuid_a (Inr ()), Do_stop uuid_a (Inr ())] s'"
    "tenants (sy_db s') = []" by blast
  from queues_outlive_tenants [OF mem_amqp_lawful s'(1)] have "declared uuid_a (mb_topology (fst (sy_mgr s')))"
    by auto
  with s' show ?thesis by (intro exI conjI)
qed

end
