(* ===== verification/Message_Life.thy ===== *)
theory Message_Life
  imports System Routes
begin

text \<open>
  The life of a message's row in the running system: what no step changes of it, which steps change its
  status, and that the program publishes nothing, so that a message created by the API waits for ever.
\<close>

section \<open>What no statement changes\<close>











section \<open>Messages that nobody announces\<close>






section \<open>Its row stays\<close>








section \<open>The program publishes nothing\<close>














section \<open>Properties\<close>




section \<open>Witnesses\<close>








end
