(* ===== verification/Access.thy ===== *)
theory Access
  imports Routes
begin

text \<open>
  What a token grants: the middleware stores its claims in the request's locals, and no handler of
  \<^verbatim>\<open>internal/handler\<close> or \<^verbatim>\<open>internal/routes\<close> reads them, so every accepted token is as good as any other.
\<close>

text \<open>The same request with another header.\<close>

definition with_token :: "string \<Rightarrow> Request \<Rightarrow> Request" where
  "with_token a rq = rq\<lparr>rq_Authorization := a\<rparr>"

definition admits :: "'w deps \<Rightarrow> req_env \<Rightarrow> string \<Rightarrow> JWTClaims \<Rightarrow> bool" where
  "admits dp env a claims \<longleftrightarrow> NewJWTMiddleware (dp_crypto dp) (as_jwtSecret (dp_auth dp)) (re_now env) a = Inr claims"

lemma with_token_simps [simp]:
  "rq_Method (with_token a rq) = rq_Method rq" "rq_Path (with_token a rq) = rq_Path rq" "rq_Body (with_token a rq) = rq_Body rq"
  "rq_Query (with_token a rq) = rq_Query rq" "rq_Authorization (with_token a rq) = a"
  by (simp_all add: with_token_def)

lemma handle_with_token: "handle dp env (with_token a rq) ps h s = handle dp env rq ps h s"
  by (cases h) simp_all

lemma dispatch_with_token:
  assumes "admits dp env a ca" "admits dp env b cb"
    and "fb_no_route (dp_fiber dp) (with_token a rq) = fb_no_route (dp_fiber dp) (with_token b rq)"
  shows "dispatch dp env rs (with_token a rq) s = dispatch dp env rs (with_token b rq) s"
  using assms
  by (induction rs) (simp_all add: route_matches_def protected_def admits_def handle_with_token
      split: option.split route_target.split)

section \<open>Properties\<close>

text \<open>
  C9: authorisation is all or nothing. Two requests that differ in their tokens only, both of which the middleware
  accepts, get the same response and leave the same state, whatever user, tenant and role the tokens name: a user of one
  tenant reads the messages of every other, and resizes and deletes the other tenants.
\<close>

theorem every_token_grants_everything:
  assumes "admits dp env a ca" "admits dp env b cb"
    and "fb_no_route (dp_fiber dp) (with_token a rq) = fb_no_route (dp_fiber dp) (with_token b rq)"
  shows "serve dp env (with_token a rq) s = serve dp env (with_token b rq) s"
  using dispatch_with_token [OF assms, of Router_Register s] by (simp add: serve_def)

section \<open>A library that matches parameters, for the witness\<close>

lemma dropWhile_less [termination_simp]: "length (dropWhile f xs) < Suc (length xs)"
  using length_dropWhile_le [of f xs] by simp

fun path_params :: "string \<Rightarrow> string \<Rightarrow> (string \<times> string) list option" where
  "path_params [] x = (if x = [] then Some [] else None)"
| "path_params (c # p) x =
     (if c = CHR '':'' then
        (let k = takeWhile (\<lambda>c. c \<noteq> CHR ''/'') p; v = takeWhile (\<lambda>c. c \<noteq> CHR ''/'') x in
         if v = [] then None
         else map_option (Cons (k, v)) (path_params (dropWhile (\<lambda>c. c \<noteq> CHR ''/'') p) (dropWhile (\<lambda>c. c \<noteq> CHR ''/'') x)))
      else (case x of [] \<Rightarrow> None | d # x' \<Rightarrow> if d = c then path_params p x' else None))"

definition path_deps :: "mem_broker deps" where
  "path_deps = sample_deps\<lparr>dp_fiber := sample_fiber\<lparr>fb_match := (\<lambda>use p x.
     if use then (if take (length p) x = p then Some (\<lambda>_. []) else None)
     else map_option (\<lambda>kvs k. case map_of kvs k of None \<Rightarrow> [] | Some v \<Rightarrow> v) (path_params p x))\<rparr>\<rparr>"

definition sample_delete :: Request where
  "sample_delete = \<lparr>rq_Method = ''DELETE'', rq_Path = ''/api/v1/tenants/'' @ uuid_a, rq_Authorization = [], rq_Body = [],
     rq_Query = (\<lambda>_. [])\<rparr>"

definition token_of :: "string \<Rightarrow> string" where
  "token_of t = ''Bearer '' @ sample_sign ''secret'' \<lparr>jc_UserID = uuid_c, jc_Username = ''eve'', jc_TenantID = t, jc_Role = ''user'',
     jc_ExpiresAt = 9, jc_IssuedAt = 0\<rparr>"

lemma token_admitted:
  "admits path_deps sample_req_env (token_of t) \<lparr>jc_UserID = uuid_c, jc_Username = ''eve'', jc_TenantID = t, jc_Role = ''user'',
     jc_ExpiresAt = 9, jc_IssuedAt = 0\<rparr>"
  unfolding admits_def token_of_def middleware_bearer
  by (simp add: path_deps_def sample_deps_def sample_req_env_def) (simp add: sample_crypto_def sample_parse_sign)

lemma path_params_literal: "CHR '':'' \<notin> set p \<Longrightarrow> path_params (p @ q) (p @ x) = path_params q x"
  by (induction p) auto

lemma path_params_last:
  assumes "CHR ''/'' \<notin> set k" "CHR ''/'' \<notin> set v" "v \<noteq> []"
  shows "path_params (CHR '':'' # k) v = Some [(k, v)]"
proof -
  have "takeWhile (\<lambda>c. c \<noteq> CHR ''/'') k = k" "dropWhile (\<lambda>c. c \<noteq> CHR ''/'') k = []"
    "takeWhile (\<lambda>c. c \<noteq> CHR ''/'') v = v" "dropWhile (\<lambda>c. c \<noteq> CHR ''/'') v = []"
    using assms(1,2) by (auto simp: takeWhile_eq_all_conv dropWhile_eq_Nil_conv)
  note t = this
  show ?thesis using assms(3) by (simp add: t)
qed

lemma delete_path: "path_params ''/api/v1/tenants/:id'' (rq_Path sample_delete) = Some [(''id'', uuid_a)]"
  using path_params_literal [of "''/api/v1/tenants/''" "'':id''" uuid_a] path_params_last [of "''id''" uuid_a]
  by (simp add: sample_delete_def)

declare path_params.simps [simp del]

lemma dispatch_delete:
  assumes "rq_Method rq = ''DELETE''" "admits dp env (rq_Authorization rq) claims"
    and "fb_match (dp_fiber dp) True ''/api/v1'' (rq_Path rq) = Some ps0"
    "fb_match (dp_fiber dp) False ''/api/v1/tenants/:id'' (rq_Path rq) = Some ps"
  shows "dispatch dp env Router_Register rq s = deleteTenant (dp_amqp dp) (dp_pg dp) (re_svc env) (ps ''id'') s"
  using assms
  by (simp add: Router_Register_def AuthRoutes_Register_def TenantRoutes_Register_def Let_def group_path_def Use_def Add_def
      Get_def route_matches_def protected_def admits_def)

theorem every_token_grants_everything_witness:
  "\<exists>m' s' h. registered m' = {uuid_a} \<and>
     serve path_deps sample_req_env (with_token (token_of uuid_b) sample_delete) (m', tenant_db) = (Some s', h) \<and>
     status h = 204 \<and> uuid_a \<notin> t_id ` set (tenants (snd s')) \<and> registered (fst s') = {}"
proof -
  let ?rq = "with_token (token_of uuid_a) sample_delete"
  from sample_app_created [of sample_time] obtain m' :: "mem_broker \<times> Manager" where
    m': "createTenant mem_amqp sample_pg sample_time (sample_env uuid_a 1000) (Inr (sample_request 90)) ((mem_empty, sample_manager), db_empty) =
     Returns ((m', tenant_db), \<lparr>status = 201, body = tenant_json (scan_tenant sample_time (sample_tenant 3 1000))\<rparr>)"
    "registered m' = {uuid_a}" "app_ok sample_pg (m', tenant_db)" by auto
  have sd: "dp_amqp path_deps = mem_amqp" "dp_pg path_deps = sample_pg" "re_svc sample_req_env = sample_env uuid_a 1000"
    by (simp_all add: path_deps_def sample_deps_def sample_req_env_def)
  have "rq_Path sample_delete = ''/api/v1'' @ drop 7 (rq_Path sample_delete)" by (simp add: sample_delete_def)
  then have "take (length ''/api/v1'') (rq_Path sample_delete) = ''/api/v1''" by (metis append_eq_conv_conj)
  then have f: "fb_match (dp_fiber path_deps) True ''/api/v1'' (rq_Path ?rq) = Some (\<lambda>_. [])"
    "fb_match (dp_fiber path_deps) False ''/api/v1/tenants/:id'' (rq_Path ?rq) =
       Some (\<lambda>k. case map_of [(''id'', uuid_a)] k of None \<Rightarrow> [] | Some v \<Rightarrow> v)"
    unfolding with_token_simps by (simp_all add: path_deps_def delete_path)
  have "rq_Method ?rq = ''DELETE''" by (simp add: sample_delete_def)
  moreover have "admits path_deps sample_req_env (rq_Authorization ?rq) \<lparr>jc_UserID = uuid_c, jc_Username = ''eve'', jc_TenantID = uuid_a,
     jc_Role = ''user'', jc_ExpiresAt = 9, jc_IssuedAt = 0\<rparr>" using token_admitted [of uuid_a] by simp
  ultimately have own: "dispatch path_deps sample_req_env Router_Register ?rq (m', tenant_db) =
      deleteTenant mem_amqp sample_pg (sample_env uuid_a 1000) uuid_a (m', tenant_db)"
    using dispatch_delete [OF _ _ f, of sample_req_env _ "(m', tenant_db)"] by (simp add: sd)
  have ok: "app_ok sample_pg ((mem_empty, sample_manager), db_empty)"
    using sample_manager_ok(1) by (simp add: app_ok_def sample_uuid_lawful)
  have "status \<lparr>status = 201, body = tenant_json (scan_tenant sample_time (sample_tenant 3 1000))\<rparr> = 201" by simp
  from createTenant_deleteTenant [OF ok sample_env_healthy [of uuid_a 1000] m'(1) this] obtain t s2 h2 where
    t: "tenant_json (scan_tenant sample_time (sample_tenant 3 1000)) = tenant_json t"
    "deleteTenant mem_amqp sample_pg (sample_env uuid_a 1000) (tr_ID t) (m', tenant_db) = Returns (s2, h2)"
    "status h2 = 204" "registered (fst s2) = registered (mem_empty, sample_manager)"
    "tenant_view sample_time (snd s2) = tenant_view sample_time db_empty"
    by (elim exE conjE) (rule that, simp_all)
  have "tr_ID t = uuid_a" using t(1) by (simp add: tenant_json_def scan_tenant_def sample_tenant_def)
  with t(2,3) own have "serve path_deps sample_req_env ?rq (m', tenant_db) = (Some s2, h2)" by (simp add: serve_def)
  moreover have "serve path_deps sample_req_env (with_token (token_of uuid_b) sample_delete) (m', tenant_db) =
      serve path_deps sample_req_env ?rq (m', tenant_db)"
    by (rule every_token_grants_everything [OF token_admitted token_admitted])
      (simp add: path_deps_def sample_deps_def sample_fiber_def)
  moreover have "uuid_a \<notin> t_id ` set (tenants (snd s2))"
    using dom_tenant_view [of uuid_a sample_time "snd s2"] dom_tenant_view [of uuid_a sample_time db_empty] unfolding t(5)
    by (simp add: db_empty_def)
  moreover have "registered (fst s2) = {}" using t(4) by (simp add: registered_def ListConsumers_def sample_manager_ok)
  ultimately show ?thesis using m'(2) t(3) by (intro exI [of _ m'] exI [of _ s2] exI [of _ h2]) simp
qed

end
