(* ===== verification/Pool_Spec.thy ===== *)
theory Pool_Spec
  imports Pool
begin

text \<open>
  What a worker pool promises, as an abstract machine, and the simulation: a queue of waiting jobs, a bag
  of jobs being worked on, and a number of workers of which each works on one job at most.
\<close>

section \<open>The specification\<close>

record job_server =
  js_waiting :: "WorkItem list"
  js_busy :: "WorkItem multiset"
  js_workers :: nat

datatype job_label = J_enter WorkItem | J_hand WorkItem | J_begin WorkItem | J_end WorkItem | J_leave | J_grow | J_quiet

inductive job_step :: "nat \<Rightarrow> job_server \<Rightarrow> job_label \<Rightarrow> job_server \<Rightarrow> bool" for cap where
  enter: "length (js_waiting j) < cap \<Longrightarrow> job_step cap j (J_enter x) (j\<lparr>js_waiting := js_waiting j @ [x]\<rparr>)"
| hand: "cap = 0 \<Longrightarrow> size (js_busy j) < js_workers j \<Longrightarrow> job_step cap j (J_hand x) (j\<lparr>js_busy := add_mset x (js_busy j)\<rparr>)"
| begin_job: "js_waiting j = x # q \<Longrightarrow> size (js_busy j) < js_workers j \<Longrightarrow>
     job_step cap j (J_begin x) (j\<lparr>js_waiting := q, js_busy := add_mset x (js_busy j)\<rparr>)"
| end_job: "x \<in># js_busy j \<Longrightarrow> job_step cap j (J_end x) (j\<lparr>js_busy := js_busy j - {#x#}\<rparr>)"
| leave: "size (js_busy j) < js_workers j \<Longrightarrow> job_step cap j J_leave (j\<lparr>js_workers := js_workers j - 1\<rparr>)"
| grow: "js_workers j \<le> n \<Longrightarrow> job_step cap j J_grow (j\<lparr>js_workers := n\<rparr>)"
| quiet: "job_step cap j J_quiet j"

fun job_of :: "pool_label \<Rightarrow> job_label" where
  "job_of (Accepted x) = J_enter x"
| "job_of (Handed x) = J_hand x"
| "job_of (Refused x e) = J_quiet"
| "job_of (Took i x) = J_begin x"
| "job_of (Finished i x) = J_end x"
| "job_of (Returned i) = J_leave"
| "job_of StopSignalled = J_quiet"
| "job_of (Resized n) = J_grow"

definition job_abs :: "WorkerPool \<Rightarrow> job_server" where
  "job_abs wp = \<lparr>js_waiting = queued wp, js_busy = mset (in_hand wp), js_workers = live wp\<rparr>"

text \<open>The specification never exceeds its bounds.\<close>

definition job_ok :: "nat \<Rightarrow> job_server \<Rightarrow> bool" where
  "job_ok cap j \<longleftrightarrow> length (js_waiting j) \<le> cap \<and> size (js_busy j) \<le> js_workers j"

interpretation jobs: machine "job_step cap" "job_ok cap" for cap
  by unfold_locales (erule job_step.cases, auto simp: job_ok_def size_Diff_singleton)

section \<open>The pool implements it\<close>

definition live_of :: "goroutine list \<Rightarrow> nat" where
  "live_of gs = length (filter (\<lambda>g. g \<noteq> Exited) gs)"

lemma live_of_simps [simp]:
  "live_of [] = 0" "live_of (g # gs) = live_of gs + (if g = Exited then 0 else 1)"
  "live_of (gs @ hs) = live_of gs + live_of hs" "live_of (replicate n Idle) = n"
  by (simp_all add: live_of_def)

lemma live_of_update:
  "i < length gs \<Longrightarrow> live_of (gs[i := g]) + (if gs ! i = Exited then 0 else 1) = live_of gs + (if g = Exited then 0 else 1)"
proof (induction gs arbitrary: i)
  case (Cons h gs)
  then show ?case
  proof (cases i)
    case (Suc j)
    with Cons.prems Cons.IH [of j] show ?thesis by simp
  qed simp
qed simp

lemma live_of_hand_over: "live_of (hand_over x gs) = live_of gs"
  by (induction x gs rule: hand_over.induct) auto

lemma idle_room: "Idle \<in> set gs \<Longrightarrow> length (concat (map busy_item gs)) < live_of gs"
proof -
  have le: "length (concat (map busy_item gs)) \<le> live_of gs" for gs
  proof (induction gs)
    case (Cons g gs)
    then show ?case by (cases g) auto
  qed simp
  show "Idle \<in> set gs \<Longrightarrow> length (concat (map busy_item gs)) < live_of gs"
  proof (induction gs)
    case (Cons g gs)
    with le [of gs] show ?case by (cases g) auto
  qed simp
qed

lemma live_live_of: "live wp = live_of (wp_goroutines wp)"
  by (simp add: live_def live_of_def)

lemma job_sim:
  assumes "pool_ok wp" "pool_step wp l wp'"
  shows "job_step (ch_cap (wp_workChan wp)) (job_abs wp) (job_of l) (job_abs wp')"
  using assms(2)
proof cases
  case (accept pick x)
  have "length (queued wp) < ch_cap (wp_workChan wp)" "live wp' = live wp"
    using accept(2,3) go_chan.ready_bound [of "wp_workChan wp"]
    by (auto elim!: Submit_cases simp: live_def)
  with job_step.enter [of "job_abs wp" _ x] Submit_queued(1) [OF accept(2,3)] accept(1) show ?thesis
    by (simp add: job_abs_def)
next
  case (hand pick x)
  have room: "length (in_hand wp) < live wp" "live wp' = live wp" if "\<not> chan_send_ready (wp_workChan wp)"
    using hand(2) that idle_room [of "wp_goroutines wp"] live_of_hand_over [of x "wp_goroutines wp"]
    by (auto elim!: Submit_cases simp: live_live_of in_hand_def)
  have "\<not> chan_send_ready (wp_workChan wp)" using chan_send_ready_cap hand(3) by fastforce
  with room job_step.hand [of 0 "job_abs wp" x] Submit_queued(2) [OF hand(2,3)] hand(1,3) show ?thesis
    by (simp add: job_abs_def)
next
  case (refuse pick x e)
  then have "wp' = wp" by (auto elim: Submit_cases)
  with refuse(1) job_step.quiet show ?thesis by simp
next
  case (take i x c)
  have "Idle \<in> set (wp_goroutines wp)" using take(3,4) by (metis nth_mem)
  then have "length (in_hand wp) < live wp" using idle_room by (simp add: live_live_of in_hand_def)
  moreover have "mset (in_hand wp') = add_mset x (mset (in_hand wp))"
    using in_hand_update [OF take(3), of "Busy x"] take(2,4) by (simp add: in_hand_def)
  moreover have "live wp' = live wp"
    using live_of_update [OF take(3), of "Busy x"] take(2,4) by (simp add: live_live_of)
  moreover have "queued wp = x # queued wp'" using go_chan.get_Some [OF take(5)] take(2) by simp
  ultimately show ?thesis using job_step.begin_job [of "job_abs wp" x "queued wp'"] take(1) by (simp add: job_abs_def)
next
  case (finish i x)
  have "mset (in_hand wp) = add_mset x (mset (in_hand wp'))"
    using in_hand_update [OF finish(3), of Idle] finish(2,4) by (simp add: in_hand_def)
  moreover have "live wp' = live wp"
    using live_of_update [OF finish(3), of Idle] finish(2,4) by (simp add: live_live_of)
  ultimately show ?thesis using job_step.end_job [of x "job_abs wp"] finish(1,2) by (simp add: job_abs_def)
next
  case (exit i)
  have "Idle \<in> set (wp_goroutines wp)" using exit(3,4) by (metis nth_mem)
  then have "length (in_hand wp) < live wp" using idle_room by (simp add: live_live_of in_hand_def)
  moreover have "mset (in_hand wp') = mset (in_hand wp)"
    using in_hand_update [OF exit(3), of Exited] exit(2,4) by (simp add: in_hand_def)
  moreover have "live wp' = live wp - 1"
    using live_of_update [OF exit(3), of Exited] exit(2,4) by (simp add: live_live_of)
  ultimately show ?thesis using job_step.leave [of "job_abs wp"] exit(1,2) by (simp add: job_abs_def)
next
  case stop
  then have "job_abs wp' = job_abs wp" by (simp add: Stop_signal_Returns job_abs_def live_def)
  with stop(1) job_step.quiet show ?thesis by simp
next
  case (resize n)
  have "live wp \<le> live (Resize n wp)" by (auto simp: Resize_def Let_def live_live_of)
  with job_step.grow [of "job_abs wp" "live (Resize n wp)"] resize show ?thesis by (simp add: job_abs_def)
qed

interpretation pool_jobs: simulation pool_step "\<lambda>wp. pool_ok wp \<and> ch_cap (wp_workChan wp) = cap" "job_step cap" job_abs job_of for cap
  by unfold_locales (use job_sim in blast)

section \<open>Property\<close>

text \<open>
  C19: a pool is a job server. Every run of a fresh pool is a run of the specification, from no jobs and the workers it was
  made with: jobs are begun in the order in which they were accepted, each by one worker, ended once, never more of them waiting
  than the channel was made for, and never more of them begun than there are workers.
\<close>

theorem pool_refines_job_server:
  assumes "NewWorkerPool tid workers maxRetry = Returns wp" "run pool_step wp ls wp'"
  shows "run (job_step (nat (int64 (workers * 10))))
      \<lparr>js_waiting = [], js_busy = {#}, js_workers = nat (if workers \<le> 0 then 1 else workers)\<rparr> (map job_of ls) (job_abs wp') \<and>
    length (queued wp') \<le> nat (int64 (workers * 10)) \<and> length (in_hand wp') \<le> live wp'"
proof -
  note n = NewWorkerPool_Returns [OF assms(1)]
  let ?cap = "nat (int64 (workers * 10))" and
    ?j = "\<lparr>js_waiting = [], js_busy = {#}, js_workers = nat (if workers \<le> 0 then 1 else workers)\<rparr>"
  have "job_abs wp = ?j" using n(2,3,6) by (simp add: job_abs_def live_def)
  then have r: "run (job_step ?cap) ?j (map job_of ls) (job_abs wp')"
    using pool_jobs.run_sim [OF assms(2), of ?cap] n(1,4) by simp
  have "job_ok ?cap ?j" by (simp add: job_ok_def)
  from jobs.run_inv [OF r this] r show ?thesis by (simp add: job_ok_def job_abs_def)
qed

theorem pool_refines_job_server_witness:
  "run (job_step 10) \<lparr>js_waiting = [], js_busy = {#}, js_workers = 1\<rparr> (map job_of sample_run)
     \<lparr>js_waiting = [sample_item 3], js_busy = {#}, js_workers = 0\<rparr>"
  using pool_refines_job_server [OF sample_pool_new sample_run]
  by (simp add: job_abs_def int64_id) (simp add: sample_pool_def live_def)

end
