(* ===== verification/Spec2Isabelle.thy ===== *)
theory Spec2Isabelle
  imports Program System Tenant_Spec Cursor Metrics Delivery Api_Docs Lifecycle Broker_Life Message_Life Access Pool_Spec
begin

text \<open>
  A model of the multi-tenant messaging server (Go, \<^verbatim>\<open>cmd/api\<close> and \<^verbatim>\<open>internal\<close>) and the theorems
  that make it correct.

  \<^bold>\<open>The program.\<close> Users register and log in; an HTTP API, protected by a JWT middleware, creates
  and deletes tenants and stores and lists messages. Every tenant has a queue at a RabbitMQ
  broker with a dead letter exchange and queue, and one consumer in the process: a goroutine that
  takes deliveries from the queue and hands them, as work items, to a pool of worker goroutines.
  A worker writes the message to PostgreSQL, simulates the work, retries with an exponential
  back-off and, after the last attempt, may write a dead letter. The manager keeps the consumers
  of all tenants.

  \<^bold>\<open>The theories\<close>, in the order of their imports, and the code each models:

  \<^item> \<open>Prelude\<close>: Go's errors (\<^verbatim>\<open>errors.Is\<close>, \<^verbatim>\<open>%w\<close>), calls that may panic, integer conversions at
    their width, the per-tenant names, decimal numerals, and the locales \<open>machine\<close>,
    \<open>accounted_machine\<close> and \<open>simulation\<close> of labelled transition systems: what one step keeps, accounts
    for or simulates, a run does. Every step relation below is an interpretation of one of them.
  \<^item> \<open>Go_Chan\<close>: Go channels as bounded queues that can be closed; the locales \<open>bounded_fifo\<close> and
    \<open>fifo_machine\<close>.
  \<^item> \<open>Rfc3339\<close>, \<open>Base64\<close>: the codecs of Go's standard library that the program uses: the calendar, the
    RFC 3339 text of a time in a zone and its parser, and URL-safe base64, each with its round trip.
  \<^item> \<open>Go_Json\<close>, \<open>Go_Time\<close>, \<open>Samples\<close>: the JSON codec as the program uses it, a record of functions, over
    which most properties hold; the time codec on top of \<open>Rfc3339\<close>, in any zone; and concrete instances on
    which the witnesses are evaluated.
  \<^item> \<open>Json_Text\<close>, \<open>Json\<close>, \<open>Float64\<close>, \<open>Json_Codec\<close>: \<^verbatim>\<open>encoding/json\<close> of Go's standard library, the instance
    \<open>encoding_json\<close> of that record: UTF-8 and string literals; scanning and printing of values; the
    shortest text of the double nearest to a number; maps in the order of their keys, and the queue's
    \<^verbatim>\<open>Message\<close> with its raw payload. Its one parameter is the text of a syntax error.
  \<^item> \<open>Database\<close>: the tables of \<^verbatim>\<open>db/migrations\<close> and each SQL statement of the Go code as a function
    on them, with a fault per statement (request lost, reply lost) and the schema's constraints
    as an invariant that every statement keeps.
  \<^item> \<open>Backoff\<close>, \<open>Worker_Pool\<close>: \<^verbatim>\<open>handleMessage\<close>, \<^verbatim>\<open>processWithRetry\<close>, \<^verbatim>\<open>moveToDeadLetter\<close> and
    \<^verbatim>\<open>processWork\<close> of \<^verbatim>\<open>internal/tenant/worker_pool.go\<close>, the delay computed in IEEE double
    arithmetic with the final 64-bit wrap-around.
  \<^item> \<open>Pool\<close>: the \<^verbatim>\<open>WorkerPool\<close> of the same file, its methods, and its goroutines as a step relation.
  \<^item> \<open>Pool_Spec\<close>: the pool against an abstract job server, by \<open>simulation\<close>.
  \<^item> \<open>Amqp\<close>, \<open>Rmq\<close>: the AMQP client as a record of operations over an abstract broker, the queue
    topology (\<open>broker_lawful\<close>) and the transactions (\<open>tx_lawful\<close>) it documents, and
    \<^verbatim>\<open>internal/rabbitmq\<close>: the reconnecting connection with its mutex, and the publisher.
  \<^item> \<open>Tenant_Manager\<close>: \<^verbatim>\<open>internal/tenant/manager.go\<close>. The locale \<open>consumer_registry\<close> is what the
    HTTP layer relies on; the manager is its interpretation.
  \<^item> \<open>Tenant_Service\<close>, \<open>Message_Service\<close>: \<^verbatim>\<open>internal/service/tenant_service.go\<close>. The locale
    \<open>tenant_store\<close> is the abstract specification, a map from canonical identifiers to tenants,
    and the service is its interpretation.
  \<^item> \<open>Tenant_Spec\<close>: the tenant service as a whole against a map from identifiers to names and worker
    counts. The locale \<open>refinement\<close> carries one call's correspondence to sequences of calls, exactly
    while the database answers and up to lost requests and replies when it does not.
  \<^item> \<open>Cursor\<close>: the cursor codec of \<^verbatim>\<open>internal/handler/message_handler.go\<close>.
  \<^item> \<open>Auth\<close>: \<^verbatim>\<open>internal/model\<close>, \<^verbatim>\<open>internal/repository\<close>, \<^verbatim>\<open>internal/service/auth_service.go\<close> and the
    JWT middleware; bcrypt and the JWT library are parameters (\<open>crypto_lawful\<close>).
  \<^item> \<open>Http\<close>: the handlers of \<^verbatim>\<open>internal/handler\<close> and the routes of \<^verbatim>\<open>internal/routes/tenant.go\<close> that
    reach both the store and the registry; their lemmas come from the two locales.
  \<^item> \<open>Config\<close>: \<^verbatim>\<open>internal/config/config.go\<close> with \<^verbatim>\<open>strconv.Atoi\<close>, and the start and the shutdown of
    \<^verbatim>\<open>cmd/api/main.go\<close>.
  \<^item> \<open>Routes\<close>: the tables of routes of \<^verbatim>\<open>internal/routes\<close> and of the handlers, the way of a request
    through them, the middleware included, and the error handler and the recovering middleware of
    \<^verbatim>\<open>cmd/api/main.go\<close>. The fiber library is a parameter (\<open>fiber_lawful\<close>).
  \<^item> \<open>Access\<close>: what an accepted token grants.
  \<^item> \<open>Program\<close>: the wiring of \<^verbatim>\<open>main\<close>, how it ends, and requests served one after the other.
  \<^item> \<open>System\<close>: the whole program running concurrently. Requests that reach the store and the registry
    are two steps each, as in \<^verbatim>\<open>internal/routes/tenant.go\<close>; every consumer, registered or stopping, takes
    deliveries; a worker may execute any of the statements of the item it has in hand, which
    over-approximates \<^verbatim>\<open>processWork\<close>.
  \<^item> \<open>Lifecycle\<close>: the start and the shutdown of \<^verbatim>\<open>main\<close> in the running system, which is simulated by the set
    of the registered names.
  \<^item> \<open>Broker_Life\<close>: what the running system leaves at the broker, whose topology only grows.
  \<^item> \<open>Message_Life\<close>: what no step of the running system changes of a stored message, and that neither a step nor a
    served request puts a message into a queue (\<open>quiet\<close> says which calls of the client do not).
  \<^item> \<open>Delivery\<close>: a message from its publisher through the queue, the consumer and a worker to its row, and a
    payload from the API through the database and back, with \<open>encoding_json\<close>.
  \<^item> \<open>Api_Docs\<close>: \<^verbatim>\<open>api/swagger/docs.go\<close>, the annotations of the handlers and of \<^verbatim>\<open>cmd/api/main.go\<close> that it
    is generated from, and \<^verbatim>\<open>internal/tenant/dto.go\<close>, as data, and what it means for a response to conform
    to them.
  \<^item> \<open>Metrics\<close>: \<^verbatim>\<open>internal/metrics/prometheus.go\<close> over the Prometheus client as a parameter
    (\<open>prom_lawful\<close>).
  \<^item> this theory: the properties that span the start, the served requests, the manager, the
    connection and the shutdown.

  \<^bold>\<open>State and effects.\<close> Structs are records with a prefix per struct, methods are functions that
  return the new state, errors are values of \<open>go_error\<close> in a sum, a panic is a value of \<open>outcome\<close>,
  and a call that blocks for ever is \<open>None\<close>. A method that holds a mutex is one atomic step. What a
  call takes from its surroundings (the clock, random identifiers, which ready case a
  \<^verbatim>\<open>select\<close> picks, faults of the network) is an argument, so the theorems hold for every choice.
  Goroutines interleave freely in the step relations \<open>pool_step\<close>, \<open>consumeMessages\<close>, \<open>mgr_step\<close>,
  \<open>handleReconnect\<close>, \<open>consumer_step\<close> and \<open>sys_step\<close>, the last of which composes the others.

  \<^bold>\<open>What is shown.\<close>
  \<^item> Of the running system: in every interleaving and under every fault of the database the
    constraints of the tables and the soundness of the consumers hold; tenants are isolated, in the
    tables and in memory, from every step that does not concern them. A deletion that overtakes a
    creation leaves a consumer without a tenant, and a resize that overlaps a deletion restarts workers of
    a stopped pool (defects). A tenant that is in the database at the start never gets a consumer, and
    one that is created during the shutdown keeps its consumer (defects).
  \<^item> Of the messages: a stored one keeps its row, payload and creation time for ever; one created by the API
    is published nowhere, as is everything else, and stays pending (a defect).
  \<^item> Of the API: every request is answered by a well-formed response; without an accepted token nothing
    but registering and logging in changes anything; the served routes agree with the handlers of the
    same name up to the checks that only the latter make; after a start, any requests, and the signal, every consumer that
    was running is shut down. The documented
    operations are those that are served, and their responses are as documented up to two kinds that
    the documentation leaves out. Every accepted token grants everything to everyone (a defect).
  \<^item> The tenant service refines a map, for every sequence of calls.
  \<^item> A pool is a bounded job server: no work item is lost or duplicated while it runs, items are begun in order
    and all finished, no more at once than there are workers; the channel is bounded, stopping terminates, and what it leaves behind is named exactly; the same for the
    acknowledged deliveries of a consumer.
  \<^item> Processing an item touches only that tenant's message, ends completed when some attempt meets
    no fault, and otherwise ends as the retry count the item arrived with decides: a message from
    the queue is never dead-lettered (a defect of the code, stated as it is).
  \<^item> The manager never panics within its limits, keeps every consumer with its tenant, and shuts
    everything down; it keeps the first connection for ever (a defect).
  \<^item> The services and the API read back what they wrote, keep tenants apart, and page completely
    up to the whole-second resolution of the cursor (below it they skip messages, a defect).
  \<^item> A registered user's token is accepted exactly until it expires; deleting a tenant locks its
    users out.
  \<^item> What is published arrives: a message's identifier and payload reach a worker of its tenant unchanged, and its
    row is completed when some attempt meets no fault; but a payload that is no object is lost (a defect).
  \<^item> Batches are published whole or not at all; \<^verbatim>\<open>Channel\<close> can block for ever and reconnection gives
    up after one failure (defects).
  \<^item> A cursor decodes to what it encodes; the collector's operations never panic and change one series
    each.

  \<^bold>\<open>Bounds and fuel.\<close> \<open>follow\<close>, a client that reads page after page, has fuel; one unit more than there are
  messages is enough whatever their times: \<open>follow_total\<close>, on which \<open>ListMessages_skips_same_second\<close> rests, and \<open>follow_from\<close> for
  \<open>ListMessages_complete\<close>. The scanner of JSON has fuel, twice the length of its text and
  one: \<open>p_fuel\<close> shows that more fuel gives the same result for every text. It has the nesting limit of 10000 of the library.
  \<open>conforms\<close> follows at most two references, as many as the documentation nests. Worker limits are those for which the
  pool's channel can be made: at least one and below \<open>2^31\<close>.

  \<^bold>\<open>Simplifications.\<close> \<open>StopConsumer\<close> and \<open>ShutdownAll\<close> are one step each: the goroutines that shut the consumers down run in the
  order of the registry, and the channel at the broker is closed at once instead of after the wait for the consumer's goroutines,
  which go on as steps of the stopping consumer; that they return is \<open>Stop_terminates\<close>. Tenants of the same time of creation are
  listed in a fixed order, which the statement leaves open. The body parsers see the body and not the content type. Signing
  and parsing a token gives back any claims.

  \<^bold>\<open>Not modelled.\<close> Logging, the listening socket and the signals; the libraries (fiber with its body parser,
  bcrypt, JWT, the AMQP and the Prometheus client), which are parameters with the laws that are relied on; the
  adaptor of Prometheus' HTTP handler; the registration of the documentation with the swag library; tests;
  the partitioning of the messages table; and what \<^verbatim>\<open>json.Unmarshal\<close> leaves in a value when it fails on a number
  out of range (\<open>unmarshal_or_nil\<close> takes null).
\<close>

section \<open>Properties of the whole program\<close>

text \<open>
  What the shutdown makes of a registered consumer: it was running, and now both its channels are closed, so
  that neither its consuming goroutine nor its workers go on; its items are as they were.
\<close>

definition ended :: "string \<times> TenantConsumer \<Rightarrow> TenantConsumer \<Rightarrow> bool" where
  "ended kc k \<longleftrightarrow> tc_TenantID k = fst kc \<and>
     \<not> ch_closed (tc_Done (snd kc)) \<and> \<not> ch_closed (wp_doneChan (tc_WorkerPool (snd kc))) \<and>
     ch_closed (tc_Done k) \<and> ch_closed (wp_doneChan (tc_WorkerPool k)) \<and>
     queued (tc_WorkerPool k) = queued (tc_WorkerPool (snd kc)) \<and> in_hand (tc_WorkerPool k) = in_hand (tc_WorkerPool (snd kc))"

lemma ended_closed: "consumer_ok mg (fst kc) (snd kc) \<Longrightarrow> ended kc (closed_consumer (snd kc))"
  by (simp add: ended_def closed_consumer_def consumer_ok_def)

lemma shutdown_returns:
  assumes "startup am pd env so po gu w = Inr ((w0, mg0), c, cfg)" "mgr_ok mg1"
  shows "\<exists>w2 mg2 c2 cs r. shutdown am ((w1, mg1), c) = Some (Returns (((w2, mg2), c2), cs)) \<and>
    ListConsumers mg2 = [] \<and> list_all2 ended (mg_consumers mg1) cs \<and>
    Close am (fold (\<lambda>k. am_Close am (tc_Channel k)) (map snd (mg_consumers mg1)) w1, c) = Some (Returns ((w2, c2), r)) \<and>
    Connection_IsClosed c2"
proof -
  note ok = assms(2)
  note s = startup_Inr [OF assms(1)]
  let ?w = "fold (\<lambda>k. am_Close am (tc_Channel k)) (map snd (mg_consumers mg1)) w1"
  have sd: "ShutdownAll am (w1, mg1) = Returns ((?w, mg1\<lparr>mg_consumers := []\<rparr>),
      map closed_consumer (map snd (mg_consumers mg1)))"
    by (rule ShutdownAll_contract [OF ok])
  obtain w2 c2 r where cl: "Close am (?w, c) = Some (Returns ((w2, c2), r))" "Connection_IsClosed c2"
    using Close_returns [of c am ?w] s by (auto simp: Connection_IsClosed_def)
  have "list_all2 ended (mg_consumers mg1) (map closed_consumer (map snd (mg_consumers mg1)))"
    using ok by (auto simp: list.rel_map mgr_ok_def intro!: list.rel_refl_strong ended_closed)
  then show ?thesis
    using sd cl
    by (intro exI [of _ w2] exI [of _ "mg1\<lparr>mg_consumers := []\<rparr>"] exI [of _ c2]
        exI [of _ "map closed_consumer (map snd (mg_consumers mg1))"] exI [of _ r])
      (simp add: shutdown_def ListConsumers_def)
qed

text \<open>
  An orderly end. After a start with worker limits of at least one, and after any sequence of
  calls of the manager, in any interleaving with its workers, the shutdown returns and does not
  panic: no consumer is registered any more, each of those that were was running and has both its channels closed, and
  the connection reports itself closed.
\<close>

lemma shutdown_orderly:
  assumes "startup am pd env so po gu w = Inr ((w0, mg0), c, cfg)"
    and "1 \<le> getEnvAsInt env ''DEFAULT_WORKERS'' 3" "1 \<le> getEnvAsInt env ''MAX_WORKERS'' 50"
    "getEnvAsInt env ''MAX_WORKERS'' 50 < 2 ^ 31"
    and "run (mgr_step am) (w0, mg0) ls (w1, mg1)"
  shows "\<exists>w2 mg2 c2 cs. shutdown am ((w1, mg1), c) = Some (Returns (((w2, mg2), c2), cs)) \<and>
    ListConsumers mg2 = [] \<and> list_all2 ended (mg_consumers mg1) cs \<and> Connection_IsClosed c2"
proof -
  have "mgr_ok mg0" by (rule startup_limits [OF assms(1-4)])
  then have "mgr_ok mg1" using mgr.run_inv [OF assms(5)] by simp
  from shutdown_returns [OF assms(1) this] show ?thesis by blast
qed

text \<open>
  C7: the life of the program. After a start with worker limits of at least one, on a database that
  satisfies its constraints, whatever requests are served, with whatever tokens and faults, each is
  answered by a well-formed response, the invariants hold after the last, and on a signal the program
  ends: every registered consumer, running until then, has its \<^verbatim>\<open>Done\<close> channel and the signal of its workers closed and its
  channel at the broker closed, none stays registered, and then the connection is closed. The secret under which tokens are made and accepted is
  that of the environment, which is never empty.
\<close>

theorem program_serves:
  assumes "startup am pd env so po gu w = Inr ((w0, mg0), c, cfg)"
    and "1 \<le> getEnvAsInt env ''DEFAULT_WORKERS'' 3" "1 \<le> getEnvAsInt env ''MAX_WORKERS'' 50"
    "getEnvAsInt env ''MAX_WORKERS'' 50 < 2 ^ 31"
    and "uuid_lawful pg" "db_ok pg d" "fiber_lawful fb"
  shows "as_jwtSecret (dp_auth (wire am js cr pg tm up fb cfg)) = env ''JWT_SECRET'' \<and> env ''JWT_SECRET'' \<noteq> [] \<and>
    (\<exists>w1 mg1 d1 hs. serve_all (wire am js cr pg tm up fb cfg) rqs ((w0, mg0), d) = (Some ((w1, mg1), d1), hs) \<and>
       length hs = length rqs \<and> list_all response_ok hs \<and> db_ok pg d1 \<and>
       (\<exists>w2 mg2 c2 cs r. listening am Signalled ((w1, mg1), c) = Some (Returns (None, ((w2, mg2), c2), cs)) \<and>
          mg_consumers mg2 = [] \<and> list_all2 ended (mg_consumers mg1) cs \<and>
          Close am (fold (\<lambda>k. am_Close am (tc_Channel k)) (map snd (mg_consumers mg1)) w1, c) = Some (Returns ((w2, c2), r)) \<and>
          Connection_IsClosed c2))"
proof -
  have "mgr_ok mg0" by (rule startup_limits [OF assms(1-4)])
  then have "app_ok (dp_pg (wire am js cr pg tm up fb cfg)) ((w0, mg0), d)" using assms(5,6) by (simp add: app_ok_def)
  from serve_all_good [OF this, of rqs] assms(7) obtain w1 mg1 d1 hs where
    s1: "serve_all (wire am js cr pg tm up fb cfg) rqs ((w0, mg0), d) = (Some ((w1, mg1), d1), hs)" "length hs = length rqs"
    "list_all response_ok hs" "app_ok pg ((w1, mg1), d1)" by auto
  from s1(4) have ok: "mgr_ok mg1" "db_ok pg d1" by (simp_all add: app_ok_def)
  from shutdown_returns [OF assms(1) ok(1), of w1] obtain w2 mg2 c2 cs r where
    sd: "shutdown am ((w1, mg1), c) = Some (Returns (((w2, mg2), c2), cs))" "ListConsumers mg2 = []"
    "list_all2 ended (mg_consumers mg1) cs"
    "Close am (fold (\<lambda>k. am_Close am (tc_Channel k)) (map snd (mg_consumers mg1)) w1, c) = Some (Returns ((w2, c2), r))"
    "Connection_IsClosed c2" by blast
  have "listening am Signalled ((w1, mg1), c) = Some (Returns (None, ((w2, mg2), c2), cs))" "mg_consumers mg2 = []"
    using sd(1,2) by (simp_all add: listening_def ListConsumers_def)
  moreover have "cf_JWTSecret cfg = env ''JWT_SECRET'' \<and> env ''JWT_SECRET'' \<noteq> []"
    by (rule Load_secret [of pd]) (use startup_Inr [OF assms(1)] in simp)
  ultimately show ?thesis using s1(1-3) ok(2) sd(3-5) by auto
qed

theorem program_serves_witness:
  "\<exists>w0 mg0 c cfg s1 h. startup mem_amqp sample_ParseDuration (sample_environ 5) (Inr ()) (Inr ()) (Inr ()) mem_empty =
       Inr ((w0, mg0), c, cfg) \<and>
     serve_all (wire mem_amqp sample_js sample_crypto sample_pg sample_time (\<lambda>t. True) sample_fiber cfg)
       [(sample_req_env, sample_post [])] ((w0, mg0), db_empty) = (Some s1, [h]) \<and> response_ok h"
proof -
  from sample_startup [of mem_amqp 5] obtain w0 mg0 c cfg where
    s: "startup mem_amqp sample_ParseDuration (sample_environ 5) (Inr ()) (Inr ()) (Inr ()) mem_empty = Inr ((w0, mg0), c, cfg)"
    by auto
  have l: "1 \<le> getEnvAsInt (sample_environ 5) ''DEFAULT_WORKERS'' 3" "1 \<le> getEnvAsInt (sample_environ 5) ''MAX_WORKERS'' 50"
    "getEnvAsInt (sample_environ 5) ''MAX_WORKERS'' 50 < 2 ^ 31" by (simp_all add: sample_environ_int)
  from program_serves [OF s l sample_uuid_lawful db_ok_empty sample_fiber_lawful,
      of sample_js sample_crypto sample_time "\<lambda>t. True" "[(sample_req_env, sample_post [])]"] obtain s1 hs where
    r: "serve_all (wire mem_amqp sample_js sample_crypto sample_pg sample_time (\<lambda>t. True) sample_fiber cfg)
       [(sample_req_env, sample_post [])] ((w0, mg0), db_empty) = (Some s1, hs)" "length hs = 1" "list_all response_ok hs"
    by auto
  then obtain h where "hs = [h]" by (auto simp: length_Suc_conv)
  with r s show ?thesis by (intro exI conjI) (assumption, simp, simp)
qed

lemma mgr_step_rmConn: "mgr_step am s l s' \<Longrightarrow> mg_rmConn (snd s') = mg_rmConn (snd s) \<and> mg_maxWorkers (snd s') = mg_maxWorkers (snd s)"
proof (induction rule: mgr_step.induct)
  case (spawn t n s s' r)
  then show ?case
    by (auto simp: SpawnConsumer_def Let_def split: prod.splits if_splits sum.splits)
next
  case (stop t s s' r)
  then show ?case
    by (auto simp: StopConsumer_def remove_consumer_def split: prod.splits option.splits)
next
  case (update t n s s' r)
  then show ?case
    by (auto simp: UpdateConcurrency_def update_consumer_def split: prod.splits option.splits)
next
  case (shutdown s s' cs)
  then show ?case by (auto simp: ShutdownAll_def split: prod.splits)
qed (simp add: update_consumer_def)

lemma mgr_run_rmConn:
  "run (mgr_step am) s ls s' \<Longrightarrow> mg_rmConn (snd s') = mg_rmConn (snd s) \<and> mg_maxWorkers (snd s') = mg_maxWorkers (snd s)"
  by (induction ls arbitrary: s) (auto dest: mgr_step_rmConn)

text \<open>
  C36: the manager keeps the connection of the start. Whatever calls it receives, it opens its
  channels on the connection that was current when the program started. In a state in which that
  one is lost, so that it opens no channel, no tenant that has no consumer gets one, although the
  reconnecting goroutine may have replaced the connection.
\<close>

theorem manager_keeps_first_connection:
  assumes "startup am pd env so po gu w = Inr ((w0, mg0), c, cfg)"
    and "run (mgr_step am) (w0, mg0) ls (w1, mg1)"
    and "isl (snd (am_Channel am (the (GetConnection c)) w1))" "t \<notin> registered (w1, mg1)"
  shows "mg_rmConn mg1 = the (GetConnection c) \<and>
    (\<exists>w2 e. SpawnConsumer am t n (w1, mg1) = Returns ((w2, mg1), Inl (Wrapf ''failed to create channel: '' e)))"
proof -
  have k: "mg_rmConn mg1 = the (GetConnection c)"
    using mgr_run_rmConn [OF assms(2)] startup_Inr [OF assms(1)] by (simp add: GetConnection_def)
  obtain w2 r where ch: "am_Channel am (mg_rmConn mg1) w1 = (w2, r)" by (cases "am_Channel am (mg_rmConn mg1) w1")
  with assms(3) k have "isl r" by simp
  then obtain e where "r = Inl e" by (cases r) simp_all
  moreover have "map_of (mg_consumers mg1) t = None" using assms(4) by (simp add: registered_iff)
  ultimately show ?thesis using k ch by (simp add: SpawnConsumer_def)
qed

theorem manager_keeps_first_connection_witness:
  "\<exists>w0 mg0 c cfg w2 e.
     startup losing_amqp sample_ParseDuration (sample_environ 5) (Inr ()) (Inr ()) (Inr ()) mem_empty = Inr ((w0, mg0), c, cfg) \<and>
     SpawnConsumer losing_amqp uuid_a 3 (w0, mg0) = Returns ((w2, mg0), Inl (Wrapf ''failed to create channel: '' e))"
proof -
  from sample_startup [of losing_amqp 5] obtain w0 mg0 c cfg where
    s: "startup losing_amqp sample_ParseDuration (sample_environ 5) (Inr ()) (Inr ()) (Inr ()) mem_empty = Inr ((w0, mg0), c, cfg)"
    "mb_next w0 = 1" by auto
  have "mg_rmConn mg0 = the (GetConnection c) \<and>
    (\<exists>w2 e. SpawnConsumer losing_amqp uuid_a 3 (w0, mg0) = Returns ((w2, mg0), Inl (Wrapf ''failed to create channel: '' e)))"
    by (rule manager_keeps_first_connection [OF s(1) run_NilI])
      (use s startup_Inr [OF s(1)] in \<open>simp_all add: losing_amqp_def registered_def ListConsumers_def\<close>)
  then show ?thesis using s(1) by (elim exE conjE) (intro exI conjI)
qed

text \<open>
  A negative \<^verbatim>\<open>MAX_WORKERS\<close> is accepted at the start, and then creating a tenant, once the
  tenant is stored and its queues are declared, panics: the pool's channel would have a negative
  size. The recovering middleware turns that into an error response; the row stays.
\<close>

lemma negative_limit_panics:
  assumes "startup am pd env so po gu w = Inr ((w0, mg0), c, cfg)"
    and "env ''MAX_WORKERS'' = show_int m" "- (2 ^ 59) \<le> m" "m < 0"
    and "CreateTenant pg tm e r d = (d', Inr t)"
    and "am_Channel am (mg_rmConn mg0) w0 = (w1, Inr ch)" "declareTenantQueues am mg0 ch (tr_ID t) w1 = (w2, Inr qs)"
    and "1 \<le> tr_Workers t"
  shows "\<exists>why. createTenant am pg tm e (Inr r) ((w0, mg0), d) = Panics why"
proof -
  note s = startup_Inr [OF assms(1)]
  have m: "mg_maxWorkers mg0 = m"
    using s Load_workers [of pd env cfg] getEnvAsInt_show [of env "''MAX_WORKERS''" m] assms(2-4) by simp
  have "\<exists>why. SpawnConsumer am (tr_ID t) (tr_Workers t) (w0, mg0) = Panics why"
    by (rule SpawnConsumer_panics [OF _ _ _ _ assms(6,7)]) (use s m assms(3,4,8) in \<open>simp_all add: GetConsumer_def\<close>)
  then obtain why where "SpawnConsumer am (tr_ID t) (tr_Workers t) (w0, mg0) = Panics why" ..
  with assms(5) show ?thesis by (simp add: createTenant_def)
qed

end
